(* ===== verification/Kernel_Prelude.thy ===== *)
theory Kernel_Prelude
  imports "HOL-Library.Word"
begin

text \<open>
  Types, hint collections and generic lemmas that the component theories share: machine
  integers of the widths the C code uses, the conversion of their arithmetic to natural
  numbers where it does not wrap, and a few facts on lists.
\<close>

unbundle bit_operations_syntax

type_synonym byte = "8 word"
type_synonym u16 = "16 word"
type_synonym u32 = "32 word"
type_synonym u64 = "64 word"

text \<open>The C type \<open>int\<close>, read with \<open>sint\<close>.\<close>

type_synonym i32 = "32 word"

named_theorems heap_simps \<open>reads after writes of the typed heaps\<close>
named_theorems chain_simps \<open>linked lists after pointer updates\<close>

section \<open>Machine arithmetic that does not wrap\<close>

lemma unat_plus:
  fixes a b :: "'a::len word"
  assumes "unat a + unat b < 2 ^ LENGTH('a)"
  shows "unat (a + b) = unat a + unat b"
  using assms by (simp add: unat_add_lem)

lemma unat_minus:
  fixes a b :: "'a::len word"
  assumes "unat b \<le> unat a"
  shows "unat (a - b) = unat a - unat b"
  using assms by (simp add: unat_sub word_le_nat_alt)

lemma unat_lt64: "unat (a :: u64) < 2 ^ 64"
  using unsigned_less [of a] by simp

lemma unat_eq_zero: "unat (a :: 'a::len word) = 0 \<longleftrightarrow> a = 0"
  by (simp add: unat_eq_0)

text \<open>A small value survives the trip through an \<open>int\<close>.\<close>

lemma small_signed:
  fixes w :: "32 word" assumes "unat w < 2 ^ 31" shows "sint w = int (unat w)"
proof -
  have lt: "uint w < 2 ^ 31"
  proof -
    have "int (unat w) < int (2 ^ 31)" using assms by (simp only: of_nat_less_iff)
    then show ?thesis by simp
  qed
  have "sint w = signed_take_bit 31 (uint w)" by (simp add: sint_uint)
  also have "\<dots> = uint w"
    by (rule signed_take_bit_int_eq_self) (use lt uint_ge_0 [of w] in linarith)+
  also have "\<dots> = int (unat w)" by simp
  finally show ?thesis .
qed

lemma scast_ucast_small:
  assumes "c < 0x80000000" shows "scast (ucast c :: 32 word) = (c :: u64)"
proof -
  have c: "unat c < 2 ^ 31" using assms by (simp add: word_less_nat_alt)
  then have u: "unat (ucast c :: 32 word) = unat c" by (simp add: unsigned_ucast_eq take_bit_nat_eq_self)
  have "scast (ucast c :: 32 word) = (word_of_int (sint (ucast c :: 32 word)) :: u64)"
    by (rule scast_eq)
  also have "sint (ucast c :: 32 word) = int (unat c)" using small_signed [of "ucast c"] u c by simp
  finally show ?thesis by simp
qed

section \<open>Lists\<close>

lemma sum_list_map_cong:
  "(\<And>x. x \<in> set xs \<Longrightarrow> f x = g x) \<Longrightarrow> sum_list (map f xs) = sum_list (map g xs)"
  by (metis map_eq_conv)

lemma takeWhile_dropWhile_Cons:
  assumes "dropWhile P xs = y # ys"
  shows "xs = takeWhile P xs @ y # ys" and "\<not> P y" and "\<forall>x\<in>set (takeWhile P xs). P x"
proof -
  show "xs = takeWhile P xs @ y # ys"
    using takeWhile_dropWhile_id [of P xs] assms by simp
  show "\<not> P y"
    using hd_dropWhile [of P xs] assms by simp
  show "\<forall>x\<in>set (takeWhile P xs). P x"
    by (auto dest: set_takeWhileD)
qed

end
