(* ===== verification/Linked_List.thy ===== *)
theory Linked_List
  imports Kernel_Prelude
begin

text \<open>
  Null-terminated singly linked lists in a heap given by its \<open>next\<close> pointers, and the
  search loop the allocator runs over them. Address 0 is NULL. \<open>chain nx p xs\<close> says that
  following \<open>nx\<close> from \<open>p\<close> visits exactly the nodes \<open>xs\<close> and then reaches NULL.
\<close>

fun chain :: "('p::zero \<Rightarrow> 'p) \<Rightarrow> 'p \<Rightarrow> 'p list \<Rightarrow> bool" where
  "chain nx p [] = (p = 0)"
| "chain nx p (x # xs) = (p = x \<and> x \<noteq> 0 \<and> chain nx (nx x) xs)"

fun segment :: "('p::zero \<Rightarrow> 'p) \<Rightarrow> 'p \<Rightarrow> 'p list \<Rightarrow> 'p \<Rightarrow> bool" where
  "segment nx p [] q = (p = q)"
| "segment nx p (x # xs) q = (p = x \<and> x \<noteq> 0 \<and> segment nx (nx x) xs q)"

text \<open>The first node of a list of nodes, NULL when it is empty.\<close>

definition head0 :: "'p::zero list \<Rightarrow> 'p" where
  "head0 xs = (case xs of [] \<Rightarrow> 0 | x # _ \<Rightarrow> x)"

lemma head0_simps [simp]: "head0 [] = 0" "head0 (x # xs) = x"
  by (simp_all add: head0_def)

lemma chain_append: "chain nx p (xs @ ys) \<longleftrightarrow> (\<exists>q. segment nx p xs q \<and> chain nx q ys)"
  by (induction xs arbitrary: p) auto

lemma segment_append: "segment nx p (xs @ ys) r \<longleftrightarrow> (\<exists>q. segment nx p xs q \<and> segment nx q ys r)"
  by (induction xs arbitrary: p) auto

lemma chain_head: "chain nx p xs \<Longrightarrow> p = head0 xs"
  by (cases xs) auto

lemma chain_from_head: "chain nx p xs \<Longrightarrow> chain nx (head0 xs) xs"
  by (cases xs) auto

lemma chain_nonzero: "chain nx p xs \<Longrightarrow> 0 \<notin> set xs"
  by (induction xs arbitrary: p) auto

lemma chain_upd [chain_simps]: "a \<notin> set xs \<Longrightarrow> chain (nx(a := v)) p xs = chain nx p xs"
  by (induction xs arbitrary: p) auto

lemma segment_upd [chain_simps]: "a \<notin> set xs \<Longrightarrow> segment (nx(a := v)) p xs q = segment nx p xs q"
  by (induction xs arbitrary: p) auto

lemma chain_unique: "chain nx p xs \<Longrightarrow> chain nx p ys \<Longrightarrow> xs = ys"
proof (induction xs arbitrary: p ys)
  case Nil
  then show ?case by (cases ys) auto
next
  case (Cons x xs)
  then show ?case by (cases ys) auto
qed

text \<open>Unlinking the node after \<open>q\<close>, and linking a node in after it.\<close>

lemma chain_unlink:
  assumes "chain nx p (xs @ q # b # ys)" and "distinct (xs @ q # b # ys)"
  shows "chain (nx(q := nx b)) p (xs @ q # ys)"
  using assms by (auto simp: chain_append chain_simps)

lemma chain_link:
  assumes "chain nx p (xs @ q # ys)" and "distinct (xs @ q # b # ys)" and "b \<noteq> 0"
  shows "chain (nx(b := head0 ys, q := b)) p (xs @ q # b # ys)"
  using assms by (auto simp: chain_append chain_simps intro: chain_from_head)

section \<open>The search loop\<close>

text \<open>
  \<^verbatim>\<open>while (p != NULL && skip(p)) { previous = p; p = p->next; }\<close>
  The loop returns both pointers. It may run forever on a cyclic list, where it is \<open>None\<close>;
  on a chain it returns, and what it returns is read off the list of nodes.
\<close>

partial_function (option) seek ::
  "(u64 \<Rightarrow> bool) \<Rightarrow> (u64 \<Rightarrow> u64) \<Rightarrow> u64 \<Rightarrow> u64 \<Rightarrow> (u64 \<times> u64) option" where
  "seek skip nx previous p =
     (if p \<noteq> 0 \<and> skip p then seek skip nx p (nx p) else Some (previous, p))"

declare seek.simps [code]

lemma seek_chain:
  "chain nx p xs \<Longrightarrow>
   seek skip nx previous p =
     Some (last (previous # takeWhile skip xs), head0 (dropWhile skip xs))"
proof (induction xs arbitrary: p previous)
  case Nil
  then show ?case by (simp add: seek.simps)
next
  case (Cons x xs)
  show ?case
  proof (cases "skip x")
    case True
    with Cons show ?thesis by (subst seek.simps) simp
  next
    case False
    with Cons.prems show ?thesis by (subst seek.simps) simp
  qed
qed

end
