(* ===== verification/Memory_Layout.thy ===== *)
theory Memory_Layout
  imports Memory_Manager
begin

text \<open>
  Geometry of the heap: where blocks lie, as natural-number intervals. A block with header
  at \<open>x\<close> and payload size \<open>sz x\<close> occupies the addresses from \<open>x\<close> up to \<open>bend sz x\<close>.
\<close>

definition bend :: "(u64 \<Rightarrow> nat) \<Rightarrow> u64 \<Rightarrow> nat" where
  "bend sz x = unat x + 16 + sz x"

definition block_in :: "(u64 \<Rightarrow> nat) \<Rightarrow> nat \<Rightarrow> nat \<Rightarrow> u64 \<Rightarrow> bool" where
  "block_in sz base len x \<longleftrightarrow>
     base \<le> unat x \<and> bend sz x \<le> base + len \<and> unat x mod 8 = 0 \<and> sz x mod 8 = 0"

definition apart :: "(u64 \<Rightarrow> nat) \<Rightarrow> u64 \<Rightarrow> u64 \<Rightarrow> bool" where
  "apart sz x y \<longleftrightarrow> bend sz x \<le> unat y \<or> bend sz y \<le> unat x"

definition layout :: "(u64 \<Rightarrow> nat) \<Rightarrow> nat \<Rightarrow> nat \<Rightarrow> u64 set \<Rightarrow> bool" where
  "layout sz base len S \<longleftrightarrow>
     (\<forall>x\<in>S. block_in sz base len x) \<and> (\<forall>x\<in>S. \<forall>y\<in>S. x \<noteq> y \<longrightarrow> apart sz x y)"

lemma layoutD:
  assumes "layout sz base len S"
  shows "x \<in> S \<Longrightarrow> block_in sz base len x"
    and "x \<in> S \<Longrightarrow> y \<in> S \<Longrightarrow> x \<noteq> y \<Longrightarrow> apart sz x y"
  using assms by (auto simp: layout_def)

lemma apart_sym: "apart sz x y \<longleftrightarrow> apart sz y x"
  by (auto simp: apart_def)

lemma bend_upd: "bend (sz(b := v)) x = (if x = b then unat b + 16 + v else bend sz x)"
  by (simp add: bend_def)

text \<open>In a layout the header order is the block order.\<close>

lemma layout_less:
  assumes "layout sz base len S" and "x \<in> S" "y \<in> S" and "x < y"
  shows "bend sz x \<le> unat y"
  using layoutD(2) [OF assms(1), of x y] assms(2-4)
  by (auto simp: apart_def bend_def word_less_nat_alt)

lemma layout_split:
  assumes lay: "layout sz base len S" and b: "b \<in> S"
    and fits: "k + 24 \<le> sz b" and k: "k mod 8 = 0"
    and new: "unat new = unat b + 16 + k"
  shows "new \<notin> S"
    and "layout (sz(new := sz b - 16 - k, b := k)) base len (insert new S)"
proof -
  have inb: "block_in sz base len b" using lay b by (rule layoutD)
  have nb: "new \<noteq> b" using new by auto
  show ns: "new \<notin> S"
  proof
    assume "new \<in> S"
    with layoutD(2) [OF lay b this] nb have "apart sz b new" by simp
    with new fits show False by (auto simp: apart_def bend_def)
  qed
  define sz' where "sz' = sz(new := sz b - 16 - k, b := k)"
  have t: "bend sz' new = bend sz b" "bend sz' b = unat new"
    using nb new fits by (auto simp: sz'_def bend_def)
  have other: "bend sz' x = bend sz x" "sz' x = sz x" if "x \<in> S" "x \<noteq> b" for x
    using that ns by (auto simp: sz'_def bend_def)
  have ap: "apart sz' x new \<and> apart sz' x b" if x: "x \<in> S" "x \<noteq> b" for x
    using layoutD(2) [OF lay x(1) b x(2)] other [OF x] t new fits
    by (auto simp: apart_def bend_def)
  have i: "block_in sz' base len x" if "x \<in> insert new S" for x
  proof -
    have "sz' new mod 8 = 0" "sz' b mod 8 = 0"
      using nb inb fits k by (auto simp: sz'_def block_in_def)
    moreover have "unat new mod 8 = 0"
      using new inb k by (auto simp: block_in_def)
    ultimately show ?thesis
      using that inb new t fits other [of x] layoutD(1) [OF lay, of x]
      by (cases "x = b"; cases "x = new") (auto simp: block_in_def bend_def)
  qed
  have "apart sz' x y" if "x \<in> insert new S" "y \<in> insert new S" "x \<noteq> y" for x y
    using that ap [of x] ap [of y] t other [of x] other [of y] layoutD(2) [OF lay, of x y] new
    by (cases "x = b"; cases "x = new"; cases "y = b"; cases "y = new")
       (auto simp: apart_def)
  with i show "layout (sz(new := sz b - 16 - k, b := k)) base len (insert new S)"
    unfolding layout_def sz'_def by blast
qed

lemma layout_merge:
  assumes lay: "layout sz base len S" and l: "l \<in> S" and r: "r \<in> S"
    and adj: "unat r = bend sz l"
  shows "layout (sz(l := sz l + 16 + sz r)) base len (S - {r})"
proof -
  define sz' where "sz' = sz(l := sz l + 16 + sz r)"
  have lr: "l \<noteq> r" using adj by (auto simp: bend_def)
  have t: "bend sz' l = bend sz r" using adj by (simp add: sz'_def bend_def)
  have other: "bend sz' x = bend sz x" "sz' x = sz x" if "x \<noteq> l" for x
    using that by (auto simp: sz'_def bend_def)
  have inl: "block_in sz base len l" and inr: "block_in sz base len r"
    using lay l r by (auto intro: layoutD)
  have "block_in sz' base len x" if "x \<in> S - {r}" for x
  proof (cases "x = l")
    case True
    have "sz' l mod 8 = 0"
      using inl inr by (simp add: sz'_def block_in_def) presburger
    then show ?thesis using True t inl inr by (auto simp: block_in_def)
  next
    case False
    then show ?thesis using that other [of x] layoutD(1) [OF lay, of x] by (auto simp: block_in_def)
  qed
  moreover have ap: "apart sz' l y" if "y \<in> S - {r}" "y \<noteq> l" for y
    using layoutD(2) [OF lay l, of y] layoutD(2) [OF lay r, of y] that t other [of y] adj
    by (auto simp: apart_def bend_def)
  then have "apart sz' x y" if "x \<in> S - {r}" "y \<in> S - {r}" "x \<noteq> y" for x y
    using that ap [of x] ap [of y] other [of x] other [of y] layoutD(2) [OF lay, of x y]
    by (cases "x = l"; cases "y = l") (auto simp: apart_def)
  ultimately show ?thesis unfolding layout_def sz'_def by blast
qed

end
