(* ===== verification/Memory_Invariant.thy ===== *)
theory Memory_Invariant
  imports Memory_Layout
begin

text \<open>
  The representation invariant of the first-fit allocator, with the two lists of headers as
  ghost arguments, and its preservation by the primitive pointer operations.
\<close>

definition account :: "(u64 \<Rightarrow> nat) \<Rightarrow> nat \<Rightarrow> memory_info \<Rightarrow> u64 list \<Rightarrow> u64 list \<Rightarrow> bool" where
  "account sz len mi fs as \<longleftrightarrow>
     unat (mi_free mi) = sum_list (map sz fs) \<and>
     unat (mi_allocated mi) = 16 * (length fs + length as) + sum_list (map sz as) \<and>
     unat (mi_total mi) = len \<and>
     unat (mi_allocated mi) + unat (mi_free mi) = len"

definition mm_rep :: "nat \<Rightarrow> nat \<Rightarrow> mm_state \<Rightarrow> u64 list \<Rightarrow> u64 list \<Rightarrow> bool" where
  "mm_rep base len s fs as \<longleftrightarrow>
     0 < base \<and> base + len < 2 ^ 64 \<and>
     chain (bnx (mm_heap s)) (free_list s) fs \<and>
     chain (bnx (mm_heap s)) (alloc_list s) as \<and>
     sorted_wrt (<) fs \<and> distinct as \<and> set fs \<inter> set as = {} \<and>
     layout (bsz (mm_heap s)) base len (set fs \<union> set as) \<and>
     account (bsz (mm_heap s)) len (mm_info s) fs as"

lemma mm_repD:
  assumes "mm_rep base len s fs as"
  shows "0 < base" "base + len < 2 ^ 64"
    "chain (bnx (mm_heap s)) (free_list s) fs" "chain (bnx (mm_heap s)) (alloc_list s) as"
    "sorted_wrt (<) fs" "distinct as" "set fs \<inter> set as = {}"
    "layout (bsz (mm_heap s)) base len (set fs \<union> set as)"
    "account (bsz (mm_heap s)) len (mm_info s) fs as"
  using assms by (simp_all add: mm_rep_def)

lemma sorted_wrt_less_distinct: "sorted_wrt (<) (xs :: u64 list) \<Longrightarrow> distinct xs"
  by (simp add: strict_sorted_iff)

lemma mm_rep_block:
  assumes "mm_rep base len s fs as" and "x \<in> set fs \<union> set as"
  shows "base \<le> unat x" "bend (bsz (mm_heap s)) x \<le> base + len" "unat x mod 8 = 0"
    "bsz (mm_heap s) x mod 8 = 0" "x \<noteq> 0" "bend (bsz (mm_heap s)) x < 2 ^ 64"
proof -
  have "block_in (bsz (mm_heap s)) base len x"
    using assms by (intro layoutD(1) [OF mm_repD(8)])
  with mm_repD(1,2) [OF assms(1)]
  show "base \<le> unat x" "bend (bsz (mm_heap s)) x \<le> base + len" "unat x mod 8 = 0"
    "bsz (mm_heap s) x mod 8 = 0" "x \<noteq> 0" "bend (bsz (mm_heap s)) x < 2 ^ 64"
    by (auto simp: block_in_def)
qed

section \<open>Splitting\<close>

lemma account_split:
  assumes "account sz len mi (f1 @ b # f2) as" and "k + 24 \<le> sz b"
    and "b \<notin> set f1 \<union> set f2 \<union> set as" "new \<notin> set f1 \<union> set f2 \<union> set as" "new \<noteq> b"
    and "len < 2 ^ 64"
  shows "account (sz(new := sz b - 16 - k, b := k)) len
    (mi\<lparr>mi_allocated := mi_allocated mi + 16, mi_free := mi_free mi + - 16\<rparr>) (f1 @ b # new # f2) as"
proof -
  have free: "unat (mi_free mi) \<ge> 24"
    using assms(1,2) by (auto simp: account_def)
  then have "unat (mi_free mi + - 16) = unat (mi_free mi) - 16"
    by (simp add: unat_minus)
  moreover have "unat (mi_allocated mi + 16) = unat (mi_allocated mi) + 16"
    using assms(1,6) free by (simp add: account_def unat_plus)
  ultimately show ?thesis
    using assms(1-5) free by (auto simp: account_def)
qed

lemma mm_rep_split:
  assumes rep: "mm_rep base len s (f1 @ b # f2) as"
    and fits: "unat k + 24 \<le> bsz (mm_heap s) b" and k8: "unat k mod 8 = 0"
  defines "new \<equiv> b + 16 + k"
  shows "mm_rep base len (split_block s b k) (f1 @ b # new # f2) as"
    and "unat new = unat b + 16 + unat k"
    and "bsz (mm_heap (split_block s b k)) = (bsz (mm_heap s))(new := bsz (mm_heap s) b - 16 - unat k, b := unat k)"
proof -
  note r = mm_repD [OF rep]
  let ?sz = "bsz (mm_heap s)" and ?nx = "bnx (mm_heap s)"
  let ?S = "set (f1 @ b # f2) \<union> set as"
  have bS: "b \<in> ?S" by simp
  have lim: "bend ?sz b < 2 ^ 64" using mm_rep_block(6) [OF rep bS] .
  show new: "unat new = unat b + 16 + unat k"
    using lim fits by (simp add: new_def bend_def unat_plus)
  have szb: "unat (bd_size (mm_heap s b) - 16 - k) = ?sz b - 16 - unat k"
    using fits by (simp add: bsz_def unat_minus)
  note ns = layout_split [OF r(8) bS fits k8 new]
  have nb: "new \<noteq> b" using new by auto
  have heap: "bsz (mm_heap (split_block s b k)) = ?sz(new := ?sz b - 16 - unat k, b := unat k)"
    "bnx (mm_heap (split_block s b k)) = ?nx(new := ?nx b, b := new)"
    using szb nb by (auto simp: split_block_def Let_def heap_simps new_def bnx_def)
  then show "bsz (mm_heap (split_block s b k)) = ?sz(new := ?sz b - 16 - unat k, b := unat k)"
    by simp
  have dist: "distinct (f1 @ b # f2)" using r(5) by (rule sorted_wrt_less_distinct)
  have nxb: "?nx b = head0 f2"
    using r(3) by (auto simp: chain_append dest: chain_head)
  have nz: "new \<noteq> 0" using new by (auto simp: unat_eq_zero [symmetric])
  have c1: "chain (bnx (mm_heap (split_block s b k))) (free_list s) (f1 @ b # new # f2)"
    unfolding heap(2) nxb using r(3) dist ns(1) nz nb by (intro chain_link) auto
  have c2: "chain (bnx (mm_heap (split_block s b k))) (alloc_list s) as"
    unfolding heap(2) using r(4,7) ns(1) by (auto simp: chain_simps)
  have "\<forall>y\<in>set f2. new < y"
  proof
    fix y assume y: "y \<in> set f2"
    with r(5) have "b < y" by (simp add: sorted_wrt_append)
    with layout_less [OF r(8), of b y] y have "bend ?sz b \<le> unat y" by simp
    with new fits show "new < y" by (simp add: word_less_nat_alt bend_def)
  qed
  moreover have "b < new" using new by (simp add: word_less_nat_alt)
  ultimately have srt: "sorted_wrt (<) (f1 @ b # new # f2)"
    using r(5) by (force simp: sorted_wrt_append)
  have lay: "layout (?sz(new := ?sz b - 16 - unat k, b := unat k)) base len
      (set (f1 @ b # new # f2) \<union> set as)"
    using ns(2) by (simp add: insert_commute)
  have acc: "account (?sz(new := ?sz b - 16 - unat k, b := unat k)) len
      (mm_info (split_block s b k)) (f1 @ b # new # f2) as"
    using account_split [OF r(9) fits _ _ nb] dist ns(1) r(2,7)
    by (auto simp: split_block_def Let_def add_info_def)
  show "mm_rep base len (split_block s b k) (f1 @ b # new # f2) as"
    unfolding mm_rep_def heap(1)
    using r(1,2,6,7) c1 c2 srt lay acc ns(1)
    by (auto simp: split_block_def Let_def heap_simps)
qed

section \<open>Moving a block between the lists\<close>

text \<open>The predecessor a search reports: the last node of the prefix, NULL when it is empty.\<close>

lemma last_prefix_cases:
  obtains "xs = []" "last (0 # xs) = (0 :: u64)"
  | ys q where "xs = ys @ [q]" "last (0 # xs) = q"
  by (cases xs rule: rev_cases) auto

lemma account_take:
  assumes "account sz len mi (f1 @ b # f2) as" and "len < 2 ^ 64" and "unat w = sz b"
  shows "account sz len (mi\<lparr>mi_allocated := mi_allocated mi + w, mi_free := mi_free mi + - w\<rparr>)
    (f1 @ f2) (b # as)"
proof -
  have le: "unat w \<le> unat (mi_free mi)" and sum: "unat (mi_allocated mi) + unat (mi_free mi) = len"
    using assms(1,3) by (auto simp: account_def)
  then have "unat (mi_free mi + - w) = unat (mi_free mi) - unat w"
    by (simp add: unat_minus)
  moreover have "unat (mi_allocated mi + w) = unat (mi_allocated mi) + unat w"
    using le sum assms(2) by (simp add: unat_plus)
  ultimately show ?thesis
    using assms(1,3) le by (auto simp: account_def)
qed

lemma mm_rep_take:
  assumes rep: "mm_rep base len s (f1 @ b # f2) as"
  shows "mm_rep base len (push_alloc (extract_free s (last (0 # f1)) b) b) (f1 @ f2) (b # as)"
    (is "mm_rep base len ?t _ _")
    and "bsz (mm_heap (push_alloc (extract_free s (last (0 # f1)) b) b)) = bsz (mm_heap s)"
proof -
  note r = mm_repD [OF rep]
  let ?sz = "bsz (mm_heap s)" and ?nx = "bnx (mm_heap s)"
  let ?mi = "(mm_info s)\<lparr>mi_allocated := mi_allocated (mm_info s) + bd_size (mm_heap s b),
    mi_free := mi_free (mm_info s) + - bd_size (mm_heap s b)\<rparr>"
  have dist: "distinct (f1 @ b # f2)" using r(5) by (rule sorted_wrt_less_distinct)
  have b0: "b \<noteq> 0" using mm_rep_block(5) [OF rep, of b] by simp
  have info: "mm_info ?t = ?mi"
    by (auto simp: push_alloc_def extract_free_def add_info_def set_next_def)
  show sz: "bsz (mm_heap ?t) = ?sz"
    by (auto simp: push_alloc_def extract_free_def heap_simps)
  have chains: "chain (bnx (mm_heap ?t)) (free_list ?t) (f1 @ f2) \<and>
      chain (bnx (mm_heap ?t)) (alloc_list ?t) (b # as)"
  proof (cases rule: last_prefix_cases [of f1])
    case 1
    then show ?thesis using r(3,4,7) dist b0
      by (auto simp: push_alloc_def extract_free_def heap_simps chain_simps bnx_def [of "mm_heap s"])
  next
    case (2 ys q)
    have u: "chain (?nx(q := ?nx b)) (free_list s) (ys @ q # f2)"
      using r(3) dist 2 by (intro chain_unlink) auto
    have q: "q \<noteq> 0" "q \<notin> set as" using mm_rep_block(5) [OF rep, of q] 2 r(7) by auto
    have heap: "bnx (mm_heap ?t) = ?nx(q := ?nx b, b := alloc_list s)"
      "free_list ?t = free_list s" "alloc_list ?t = b"
      using 2(2) q(1) by (auto simp: push_alloc_def extract_free_def heap_simps bnx_def [of "mm_heap s"])
    show ?thesis unfolding heap using u r(4,7) dist b0 q 2(1) by (auto simp: chain_simps)
  qed
  have acc: "account ?sz len (mm_info ?t) (f1 @ f2) (b # as)"
    unfolding info using account_take [OF r(9)] r(2) by (simp add: bsz_def)
  have srt: "sorted_wrt (<) (f1 @ f2)" using r(5) by (simp add: sorted_wrt_append)
  have lay: "layout ?sz base len (set (f1 @ f2) \<union> set (b # as))"
    using r(8) by simp
  show "mm_rep base len ?t (f1 @ f2) (b # as)"
    unfolding mm_rep_def sz using r(1,2,6,7) chains acc srt lay dist by auto
qed

lemma account_give:
  assumes "account sz len mi (f1 @ f2) (a1 @ b # a2)" and "len < 2 ^ 64" and "unat w = sz b"
  shows "account sz len (mi\<lparr>mi_allocated := mi_allocated mi + - w, mi_free := mi_free mi + w\<rparr>)
    (f1 @ b # f2) (a1 @ a2)"
proof -
  have le: "unat w \<le> unat (mi_allocated mi)"
    and sum: "unat (mi_allocated mi) + unat (mi_free mi) = len"
    using assms(1,3) by (auto simp: account_def)
  then have "unat (mi_allocated mi + - w) = unat (mi_allocated mi) - unat w"
    by (simp add: unat_minus)
  moreover have "unat (mi_free mi + w) = unat (mi_free mi) + unat w"
    using le sum assms(2) by (simp add: unat_plus)
  ultimately show ?thesis
    using assms(1,3) le by (auto simp: account_def)
qed

lemma extract_alloc_chains:
  assumes rep: "mm_rep base len s fs (a1 @ b # a2)"
  defines "u \<equiv> extract_alloc s (last (0 # a1)) b"
  shows "chain (bnx (mm_heap u)) (alloc_list u) (a1 @ a2) \<and>
    chain (bnx (mm_heap u)) (free_list u) fs \<and> free_list u = free_list s"
proof (cases rule: last_prefix_cases [of a1])
  case 1
  then show ?thesis using mm_repD(3,4) [OF rep]
    by (auto simp: u_def extract_alloc_def heap_simps bnx_def [of "mm_heap s"])
next
  case (2 ys q)
  note r = mm_repD [OF rep]
  let ?nx = "bnx (mm_heap s)"
  have c: "chain (?nx(q := ?nx b)) (alloc_list s) (ys @ q # a2)"
    using r(4,6) 2 by (intro chain_unlink) auto
  have q: "q \<noteq> 0" "q \<notin> set fs" using mm_rep_block(5) [OF rep, of q] 2 r(7) by auto
  have heap: "bnx (mm_heap u) = ?nx(q := ?nx b)" "alloc_list u = alloc_list s"
      "free_list u = free_list s"
    using 2(2) q(1) by (auto simp: u_def extract_alloc_def heap_simps bnx_def [of "mm_heap s"])
  show ?thesis unfolding heap using c r(3) q 2(1) by (auto simp: chain_simps)
qed

text \<open>
  First half of \<open>free\<close>: the block leaves the allocated list and enters the free list at its
  place in the address order.
\<close>

lemma mm_rep_give:
  assumes rep: "mm_rep base len s (f1 @ f2) (a1 @ b # a2)"
    and lo: "\<forall>x\<in>set f1. x < b" and hi: "\<forall>x\<in>set f2. b < x"
  defines "t \<equiv> insert_free (extract_alloc s (last (0 # a1)) b) (last (0 # f1)) (head0 f2) b"
  shows "mm_rep base len t (f1 @ b # f2) (a1 @ a2)"
    and "bsz (mm_heap t) = bsz (mm_heap s)"
proof -
  note r = mm_repD [OF rep]
  let ?sz = "bsz (mm_heap s)" and ?nx = "bnx (mm_heap s)"
  let ?u = "extract_alloc s (last (0 # a1)) b"
  let ?mi = "(mm_info s)\<lparr>mi_allocated := mi_allocated (mm_info s) + - bd_size (mm_heap s b),
    mi_free := mi_free (mm_info s) + bd_size (mm_heap s b)\<rparr>"
  have b0: "b \<noteq> 0" using mm_rep_block(5) [OF rep, of b] by simp
  have info: "mm_info t = ?mi"
    by (auto simp: t_def insert_free_def extract_alloc_def add_info_def set_next_def)
  show sz: "bsz (mm_heap t) = ?sz"
    by (auto simp: t_def insert_free_def extract_alloc_def heap_simps)
  have u: "chain (bnx (mm_heap ?u)) (alloc_list ?u) (a1 @ a2) \<and>
      chain (bnx (mm_heap ?u)) (free_list ?u) (f1 @ f2) \<and> free_list ?u = free_list s"
    by (rule extract_alloc_chains [OF rep])
  have fresh: "b \<notin> set (f1 @ f2)" "b \<notin> set (a1 @ a2)" "distinct (f1 @ f2)"
    using lo hi r(6) sorted_wrt_less_distinct [OF r(5)] by auto
  have chains: "chain (bnx (mm_heap t)) (free_list t) (f1 @ b # f2) \<and>
      chain (bnx (mm_heap t)) (alloc_list t) (a1 @ a2)"
  proof (cases rule: last_prefix_cases [of f1])
    case 1
    then show ?thesis using u fresh b0
      by (auto simp: t_def insert_free_def heap_simps chain_simps)
  next
    case (2 ys q)
    have c: "chain ((bnx (mm_heap ?u))(b := head0 f2, q := b)) (free_list s) (ys @ q # b # f2)"
      using u fresh b0 2 by (intro chain_link) auto
    have q: "q \<noteq> 0" "q \<notin> set (a1 @ a2)" using mm_rep_block(5) [OF rep, of q] 2 r(7) by auto
    have heap: "bnx (mm_heap t) = (bnx (mm_heap ?u))(b := head0 f2, q := b)"
        "alloc_list t = alloc_list ?u" "free_list t = free_list s"
      using 2(2) q(1) u by (auto simp: t_def insert_free_def heap_simps)
    show ?thesis unfolding heap using c u fresh q 2(1) by (auto simp: chain_simps)
  qed
  have acc: "account ?sz len (mm_info t) (f1 @ b # f2) (a1 @ a2)"
    unfolding info using account_give [OF r(9)] r(2) by (simp add: bsz_def)
  have srt: "sorted_wrt (<) (f1 @ b # f2)"
    using r(5) lo hi by (force simp: sorted_wrt_append)
  have lay: "layout ?sz base len (set (f1 @ b # f2) \<union> set (a1 @ a2))"
    using r(8) by simp
  show "mm_rep base len t (f1 @ b # f2) (a1 @ a2)"
    unfolding mm_rep_def sz using r(1,2,6,7) chains acc srt lay fresh by auto
qed

section \<open>Merging\<close>

lemma isContiguous_iff:
  assumes "mm_rep base len s fs as" and "x \<in> set fs \<union> set as"
  shows "isContiguous s x y \<longleftrightarrow> unat y = bend (bsz (mm_heap s)) x"
proof -
  have "unat (x + 16 + bd_size (mm_heap s x)) = bend (bsz (mm_heap s)) x"
    using mm_rep_block(6) [OF assms] by (simp add: bend_def bsz_def unat_plus)
  then show ?thesis by (metis isContiguous_def unsigned_word_eqI)
qed

lemma account_merge:
  assumes "account sz len mi (f1 @ x # y # f2) as" and "len < 2 ^ 64" and "distinct (f1 @ x # y # f2)"
    and "x \<notin> set as"
  shows "account (sz(x := sz x + 16 + sz y)) len
    (mi\<lparr>mi_allocated := mi_allocated mi + - 16, mi_free := mi_free mi + 16\<rparr>) (f1 @ x # f2) as"
proof -
  have le: "16 \<le> unat (mi_allocated mi)"
    and sum: "unat (mi_allocated mi) + unat (mi_free mi) = len"
    using assms(1) by (auto simp: account_def)
  then have "unat (mi_allocated mi + - 16) = unat (mi_allocated mi) - 16"
    by (simp add: unat_minus)
  moreover have "unat (mi_free mi + 16) = unat (mi_free mi) + 16"
    using le sum assms(2) by (simp add: unat_plus)
  ultimately show ?thesis
    using assms(1,3,4) le by (auto simp: account_def)
qed

lemma mm_rep_merge:
  assumes rep: "mm_rep base len s (f1 @ x # y # f2) as" and con: "isContiguous s x y"
  shows "mm_rep base len (merge_blocks s x y) (f1 @ x # f2) as"
    and "bsz (mm_heap (merge_blocks s x y)) =
      (bsz (mm_heap s))(x := bsz (mm_heap s) x + 16 + bsz (mm_heap s) y)"
proof -
  note r = mm_repD [OF rep]
  let ?sz = "bsz (mm_heap s)" and ?nx = "bnx (mm_heap s)" and ?t = "merge_blocks s x y"
  have adj: "unat y = bend ?sz x" using con isContiguous_iff [OF rep, of x y] by simp
  have xy: "x \<noteq> y" using adj by (auto simp: bend_def)
  have "bend ?sz y < 2 ^ 64" by (rule mm_rep_block(6) [OF rep]) simp
  then have size: "unat (bd_size (mm_heap s x) + (16 + bd_size (mm_heap s y))) = ?sz x + 16 + ?sz y"
    using adj by (simp add: bend_def bsz_def unat_plus)
  have dist: "distinct (f1 @ x # y # f2)" using r(5) by (rule sorted_wrt_less_distinct)
  show sz: "bsz (mm_heap ?t) = ?sz(x := ?sz x + 16 + ?sz y)"
    using size xy by (simp add: merge_blocks_def Let_def heap_simps)
  have nx: "bnx (mm_heap ?t) = ?nx(x := ?nx y)"
    by (simp add: merge_blocks_def Let_def heap_simps) (simp add: bnx_def)
  have heads: "free_list ?t = free_list s" "alloc_list ?t = alloc_list s"
    by (simp_all add: merge_blocks_def Let_def heap_simps)
  have c1: "chain (bnx (mm_heap ?t)) (free_list ?t) (f1 @ x # f2)"
    unfolding nx heads using r(3) dist by (rule chain_unlink)
  have c2: "chain (bnx (mm_heap ?t)) (alloc_list ?t) as"
    unfolding nx heads using r(4,7) by (simp add: chain_simps)
  have acc: "account (bsz (mm_heap ?t)) len (mm_info ?t) (f1 @ x # f2) as"
    using account_merge [OF r(9) _ dist] r(2,7)
    by (simp add: sz) (simp add: merge_blocks_def Let_def add_info_def)
  have "set (f1 @ x # y # f2) \<union> set as - {y} = set (f1 @ x # f2) \<union> set as"
    using dist r(7) by auto
  then have lay: "layout (bsz (mm_heap ?t)) base len (set (f1 @ x # f2) \<union> set as)"
    using layout_merge [OF r(8), of x y] adj by (simp add: sz)
  have srt: "sorted_wrt (<) (f1 @ x # f2)" using r(5) by (simp add: sorted_wrt_append)
  show "mm_rep base len ?t (f1 @ x # f2) as"
    unfolding mm_rep_def using r(1,2,6,7) c1 c2 acc lay srt by auto
qed

end
