(* ===== verification/Memory_Spec.thy ===== *)
theory Memory_Spec
  imports Memory_Invariant
begin

text \<open>
  The abstract specification of the first-fit allocator: free blocks as a list of
  (header address, payload size), first fit with splitting, and insertion with coalescing.
  \<open>malloc\<close> followed by \<open>free\<close> is the identity on it.
\<close>

type_synonym block = "u64 \<times> nat"

definition block_end :: "block \<Rightarrow> nat" where
  "block_end x = unat (fst x) + 16 + snd x"

fun take_fit :: "nat \<Rightarrow> block list \<Rightarrow> (block \<times> block list) option" where
  "take_fit k [] = None"
| "take_fit k ((b, n) # F) =
     (if n < k then map_option (\<lambda>(x, F'). (x, (b, n) # F')) (take_fit k F)
      else if k + 24 \<le> n then Some ((b, k), (b + 16 + of_nat k, n - 16 - k) # F)
      else Some ((b, n), F))"

definition join :: "block \<Rightarrow> block list \<Rightarrow> block list" where
  "join x F = (case F of
      [] \<Rightarrow> [x]
    | y # G \<Rightarrow> if unat (fst y) = block_end x then (fst x, snd x + 16 + snd y) # G else x # F)"

fun put_back :: "block \<Rightarrow> block list \<Rightarrow> block list" where
  "put_back x [] = [x]"
| "put_back x (y # F) = (if fst y < fst x then join y (put_back x F) else join x (y # F))"

text \<open>Blocks in address order with a gap between neighbours.\<close>

definition gaps :: "block list \<Rightarrow> bool" where
  "gaps F \<longleftrightarrow> sorted_wrt (\<lambda>x y. block_end x < unat (fst y)) F"

lemma gaps_simps [simp]:
  "gaps []"
  "gaps (x # F) \<longleftrightarrow> (\<forall>y\<in>set F. block_end x < unat (fst y)) \<and> gaps F"
  "gaps (F @ G) \<longleftrightarrow> gaps F \<and> gaps G \<and> (\<forall>x\<in>set F. \<forall>y\<in>set G. block_end x < unat (fst y))"
  by (auto simp: gaps_def sorted_wrt_append)

lemma join_Nil [simp]: "join x [] = [x]"
  by (simp add: join_def)

lemma join_gap: "F = [] \<or> unat (fst (hd F)) \<noteq> block_end x \<Longrightarrow> join x F = x # F"
  by (cases F) (auto simp: join_def)

lemma hd_join [simp]: "fst (hd (join x F)) = fst x" "join x F \<noteq> []"
  by (auto simp: join_def split: list.split)

lemma put_back_front:
  "\<forall>y\<in>set F. fst x < fst y \<Longrightarrow> put_back x F = join x F"
  by (cases F) auto

lemma put_back_split:
  assumes "gaps (F @ [y])" and "\<forall>z\<in>set (F @ [y]). fst z < fst x" and "\<forall>z\<in>set G. fst x < fst z"
  shows "put_back x (F @ y # G) = F @ join y (join x G)"
  using assms
proof (induction F)
  case Nil
  then show ?case by (simp add: put_back_front)
next
  case (Cons z F)
  then have IH: "put_back x (F @ y # G) = F @ join y (join x G)" by simp
  have "join z (F @ join y (join x G)) = z # F @ join y (join x G)"
    using Cons.prems(1) by (intro join_gap) (cases F; auto)
  with Cons.prems(2) IH show ?case by simp
qed

text \<open>Taking a block and putting it back restores the list.\<close>

lemma take_fit_put_back:
  assumes "gaps F" and "take_fit k F = Some (x, F')" and "\<forall>y\<in>set F. block_end y < 2 ^ 64"
  shows "put_back x F' = F"
  using assms
proof (induction k F arbitrary: x F' rule: take_fit.induct)
  case (1 k)
  then show ?case by simp
next
  case (2 k b n F)
  consider (skip) "n < k" | (cut) "\<not> n < k" "k + 24 \<le> n" | (whole) "\<not> n < k" "\<not> k + 24 \<le> n"
    by blast
  then show ?case
  proof cases
    case skip
    with "2.prems"(2) obtain G where G: "take_fit k F = Some (x, G)" "F' = (b, n) # G"
      by auto
    with "2.IH" [OF skip, of x G] "2.prems" have IH: "put_back x G = F" by simp
    have "\<exists>m. (fst x, m) \<in> set F"
      using G(1) by (induction k F arbitrary: G rule: take_fit.induct) (auto split: if_splits)
    with "2.prems"(1) have "b < fst x"
      by (auto simp: block_end_def word_less_nat_alt)
    moreover have "join (b, n) F = (b, n) # F"
      using "2.prems"(1) by (intro join_gap) (cases F; auto)
    ultimately show ?thesis using G(2) IH by simp
  next
    case cut
    let ?new = "b + 16 + of_nat k :: u64"
    have lim: "unat b + 16 + n < 2 ^ 64" using "2.prems"(3) by (simp add: block_end_def)
    with cut have "unat (of_nat k :: u64) = k" by (simp add: unat_of_nat)
    with lim cut have "unat ?new = unat b + 16 + k" by (simp add: unat_plus)
    then show ?thesis using cut "2.prems"(2)
      by (auto simp: join_def block_end_def word_less_nat_alt)
  next
    case whole
    with "2.prems" have eq: "x = (b, n)" "F' = F" by auto
    have "\<forall>y\<in>set F. b < fst y"
      using "2.prems"(1) by (auto simp: block_end_def word_less_nat_alt)
    then have "put_back (b, n) F = join (b, n) F"
      by (intro put_back_front) simp
    moreover have "join (b, n) F = (b, n) # F"
      using "2.prems"(1) by (intro join_gap) (cases F; auto)
    ultimately show ?thesis using eq by simp
  qed
qed

lemma take_fit_None: "take_fit k F = None \<longleftrightarrow> (\<forall>y\<in>set F. snd y < k)"
  by (induction k F rule: take_fit.induct) auto

end
