(* ===== verification/Memory_Refine.thy ===== *)
theory Memory_Refine
  imports Memory_Spec
begin

text \<open>
  The C allocator refines the abstract one: \<open>malloc\<close> computes \<open>take_fit\<close> on the free
  list and \<open>free\<close> computes \<open>put_back\<close>, with the searches of both shown to return.
\<close>

definition blocks :: "mm_state \<Rightarrow> u64 list \<Rightarrow> block list" where
  "blocks s xs = map (\<lambda>x. (x, bsz (mm_heap s) x)) xs"

text \<open>State \<open>s\<close> represents the free blocks \<open>F\<close> and the allocated blocks \<open>A\<close>.\<close>

definition mm_refines :: "nat \<Rightarrow> nat \<Rightarrow> mm_state \<Rightarrow> block list \<Rightarrow> block list \<Rightarrow> bool" where
  "mm_refines base len s F A \<longleftrightarrow>
     (\<exists>fs as. mm_rep base len s fs as \<and> F = blocks s fs \<and> A = blocks s as \<and> gaps F)"

lemma blocks_simps [simp]:
  "blocks s [] = []" "blocks s (x # xs) = (x, bsz (mm_heap s) x) # blocks s xs"
  "blocks s (xs @ ys) = blocks s xs @ blocks s ys"
  "map fst (blocks s xs) = xs" "set (blocks s xs) = (\<lambda>x. (x, bsz (mm_heap s) x)) ` set xs"
  by (simp_all add: blocks_def comp_def)

lemma blocks_cong:
  "(\<And>x. x \<in> set xs \<Longrightarrow> bsz (mm_heap s) x = bsz (mm_heap t) x) \<Longrightarrow> blocks s xs = blocks t xs"
  by (simp add: blocks_def)

lemma block_end_blocks [simp]: "block_end (x, bsz (mm_heap s) x) = bend (bsz (mm_heap s)) x"
  by (simp add: block_end_def bend_def)

section \<open>Rounding\<close>

lemma round8_exact: "n mod 8 = (0 :: nat) \<Longrightarrow> 8 * ((n + 7) div 8) = n"
proof -
  assume "n mod 8 = 0"
  then obtain q where "n = 8 * q" by auto
  then show ?thesis by simp
qed

lemma round8_up: "n mod 8 \<noteq> (0 :: nat) \<Longrightarrow> n + (8 - n mod 8) = 8 * ((n + 7) div 8)"
proof -
  assume "n mod 8 \<noteq> 0"
  moreover obtain q r where n: "n = 8 * q + r" "r < 8"
    by (metis mod_less_divisor mult_div_mod_eq zero_less_numeral)
  ultimately have "(n + 7) div 8 = q + 1" by simp
  with n show ?thesis by simp
qed

lemma align_size_unat: "unat (align_size r) = (8 * ((unat r + 7) div 8)) mod 2 ^ 64"
proof (cases "unat r mod 8 = 0")
  case True
  then have "r mod 8 = 0" by (simp add: word_arith_nat_mod unat_eq_zero [symmetric])
  moreover from True have "8 * ((unat r + 7) div 8) = unat r" by (rule round8_exact)
  ultimately show ?thesis
    using unat_lt64 [of r] by (simp add: align_size_def)
next
  case False
  have m: "unat (r mod 8) = unat r mod 8" by (simp add: unat_mod)
  with False have "r mod 8 > 0" by (auto simp: word_less_nat_alt)
  moreover have "unat (8 - r mod 8) = 8 - unat r mod 8"
    using m by (subst unat_minus) auto
  ultimately have "unat (align_size r) = (unat r + (8 - unat r mod 8)) mod 2 ^ 64"
    by (simp add: align_size_def unat_word_ariths)
  moreover from False have "unat r + (8 - unat r mod 8) = 8 * ((unat r + 7) div 8)"
    by (rule round8_up)
  ultimately show ?thesis by simp
qed

lemma align_size_mod8: "unat (align_size r) mod 8 = 0"
proof -
  have "(8 * n) mod 2 ^ 64 mod 8 = (0 :: nat)" for n by (simp add: mod_mod_cancel)
  then show ?thesis by (simp only: align_size_unat)
qed

text \<open>Requests up to the last multiple of 8 are rounded up by less than 8.\<close>

lemma align_size_bounds:
  assumes "unat r \<le> 2 ^ 64 - 8"
  shows "unat r \<le> unat (align_size r)" and "unat (align_size r) < unat r + 8"
proof -
  have "8 * ((unat r + 7) div 8) < 2 ^ 64" using assms by simp
  then have "unat (align_size r) = 8 * ((unat r + 7) div 8)" by (simp add: align_size_unat)
  then show "unat r \<le> unat (align_size r)" and "unat (align_size r) < unat r + 8"
    by simp_all
qed

section \<open>malloc\<close>

lemma take_fit_split:
  assumes "\<forall>y\<in>set F1. snd y < k" and "\<not> n < k"
  shows "take_fit k (F1 @ (b, n) # F2) =
    (if k + 24 \<le> n then Some ((b, k), F1 @ (b + 16 + of_nat k, n - 16 - k) # F2)
     else Some ((b, n), F1 @ F2))"
  using assms by (induction F1) auto

lemma gaps_take_fit:
  assumes "gaps F" and "take_fit k F = Some (x, F')" and "\<forall>y\<in>set F. block_end y < 2 ^ 64"
  shows "gaps F' \<and> (\<forall>z. (\<forall>y\<in>set F. z < unat (fst y)) \<longrightarrow> (\<forall>y\<in>set F'. z < unat (fst y)))"
  using assms
proof (induction k F arbitrary: x F' rule: take_fit.induct)
  case (1 k)
  then show ?case by simp
next
  case (2 k b n F)
  show ?case
  proof (cases "n < k")
    case True
    with "2.prems" obtain G where G: "take_fit k F = Some (x, G)" "F' = (b, n) # G" by auto
    with "2.IH" [OF True _ G(1)] "2.prems" show ?thesis by auto
  next
    case False
    have "unat (b + 16 + of_nat k) = unat b + 16 + k" if "k + 24 \<le> n"
      using that "2.prems"(3) by (simp add: block_end_def unat_plus unat_of_nat)
    with False "2.prems" show ?thesis
      by (fastforce simp: block_end_def split: if_splits)
  qed
qed

lemma mm_refines_ends:
  assumes "mm_refines base len s F A"
  shows "gaps F" and "\<forall>y\<in>set F. block_end y < 2 ^ 64"
  using assms mm_rep_block(6) by (fastforce simp: mm_refines_def)+

lemma mm_malloc_refines:
  assumes ref: "mm_refines base len s F A" and req: "req \<noteq> 0"
  shows "take_fit (unat (align_size req)) F = None \<Longrightarrow> mm_malloc s req = Some (s, 0)"
    and "take_fit (unat (align_size req)) F = Some (x, F') \<Longrightarrow>
      \<exists>s'. mm_malloc s req = Some (s', fst x + 16) \<and> mm_refines base len s' F' (x # A)"
proof -
  from ref obtain fs as where rep: "mm_rep base len s fs as"
    and F: "F = blocks s fs" and A: "A = blocks s as" and gF: "gaps F"
    by (auto simp: mm_refines_def)
  let ?k = "align_size req" and ?sz = "bsz (mm_heap s)"
  let ?skip = "\<lambda>b. bd_size (mm_heap s b) < ?k"
  have skip: "?skip b \<longleftrightarrow> ?sz b < unat ?k" for b by (simp add: bsz_def word_less_nat_alt)
  have seek: "seek ?skip (\<lambda>b. bd_next (mm_heap s b)) 0 (free_list s) =
      Some (last (0 # takeWhile ?skip fs), head0 (dropWhile ?skip fs))"
    using seek_chain [OF mm_repD(3) [OF rep]] by (simp add: bnx_def)
  have small: "dropWhile ?skip fs = [] \<longleftrightarrow> take_fit (unat ?k) F = None"
    by (simp add: take_fit_None F skip dropWhile_eq_Nil_conv)
  {
    assume "take_fit (unat ?k) F = None"
    with small have "dropWhile ?skip fs = []" by blast
    with seek req show "mm_malloc s req = Some (s, 0)"
      by (simp add: mm_malloc_def Let_def)
  next
    assume tf: "take_fit (unat ?k) F = Some (x, F')"
    with small obtain b f2 where d: "dropWhile ?skip fs = b # f2"
      by (cases "dropWhile ?skip fs") auto
    define f1 where "f1 = takeWhile ?skip fs"
    note fs = takeWhile_dropWhile_Cons [OF d, folded f1_def]
    have big: "\<not> ?sz b < unat ?k" using fs(2) by (simp add: skip)
    have b: "b \<in> set fs" "b \<in> set fs \<union> set as" using fs(1) by auto
    have b0: "b \<noteq> 0" using mm_rep_block(5) [OF rep b(2)] .
    have "8 \<le> unat b" using mm_repD(1) [OF rep] mm_rep_block(1,3) [OF rep b(2)] by presburger
    then have "?sz b + 24 < 2 ^ 64"
      using mm_rep_block(6) [OF rep b(2)] by (simp add: bend_def)
    then have cut: "?k + 16 + 8 \<le> bd_size (mm_heap s b) \<longleftrightarrow> unat ?k + 24 \<le> ?sz b"
    proof -
      have "?k + 16 + 8 = ?k + 24" by simp
      moreover have "unat (?k + 24) = unat ?k + 24"
        using \<open>?sz b + 24 < 2 ^ 64\<close> big by (intro unat_plus [THEN trans]) simp_all
      ultimately show ?thesis by (simp only: word_le_nat_alt bsz_def)
    qed
    have tf': "(if unat ?k + 24 \<le> ?sz b
        then Some ((b, unat ?k), blocks s f1 @ (b + 16 + ?k, ?sz b - 16 - unat ?k) # blocks s f2)
        else Some ((b, ?sz b), blocks s f1 @ blocks s f2)) = Some (x, F')"
      using tf fs(1,3) big
      by (cases "unat ?k + 24 \<le> ?sz b") (auto simp: F take_fit_split skip)
    have gF': "gaps F'"
      using gaps_take_fit [OF gF tf] mm_refines_ends(2) [OF ref] by simp
    show "\<exists>s'. mm_malloc s req = Some (s', fst x + 16) \<and> mm_refines base len s' F' (x # A)"
    proof (cases "unat ?k + 24 \<le> ?sz b")
      case True
      let ?new = "b + 16 + ?k"
      define t where "t = push_alloc (extract_free (split_block s b ?k) (last (0 # f1)) b) b"
      note sp = mm_rep_split [OF rep [unfolded fs(1)] True align_size_mod8]
      note tk = mm_rep_take [OF sp(1), folded t_def]
      have m: "mm_malloc s req = Some (t, b + 16)"
        using req seek d True cut b0 by (simp add: mm_malloc_def Let_def f1_def t_def)
      have dist: "distinct (f1 @ b # ?new # f2)" "set (f1 @ b # ?new # f2) \<inter> set as = {}"
        using mm_repD(5,7) [OF sp(1)] sorted_wrt_less_distinct by blast+
      have heap: "bsz (mm_heap t) = ?sz(?new := ?sz b - 16 - unat ?k, b := unat ?k)"
        using tk(2) sp(3) by simp
      have "blocks t f1 = blocks s f1" "blocks t f2 = blocks s f2" "blocks t as = blocks s as"
        using dist by (auto intro!: blocks_cong simp: heap)
      then have "F' = blocks t (f1 @ ?new # f2)" "x # A = blocks t (b # as)"
        using tf' True dist by (auto simp: heap A)
      with tk(1) gF' have "mm_refines base len t F' (x # A)"
        unfolding mm_refines_def by blast
      with m tf' True show ?thesis by auto
    next
      case False
      define t where "t = push_alloc (extract_free s (last (0 # f1)) b) b"
      note tk = mm_rep_take [OF rep [unfolded fs(1)], folded t_def]
      have m: "mm_malloc s req = Some (t, b + 16)"
        using req seek d False cut b0 by (simp add: mm_malloc_def Let_def f1_def t_def)
      have "blocks t xs = blocks s xs" for xs
        using tk(2) by (intro blocks_cong) simp
      then have "F' = blocks t (f1 @ f2)" "x # A = blocks t (b # as)"
        using tf' False tk(2) by (auto simp: A)
      with tk(1) gF' have "mm_refines base len t F' (x # A)"
        unfolding mm_refines_def by blast
      with m tf' False show ?thesis by auto
    qed
  }
qed

section \<open>free\<close>

lemma join_gaps:
  assumes "gaps F" and "\<forall>y\<in>set F. block_end x \<le> unat (fst y)"
  shows "gaps (join x F)"
proof (cases F)
  case Nil
  then show ?thesis by simp
next
  case (Cons y G)
  show ?thesis
  proof (cases "unat (fst y) = block_end x")
    case True
    then have "block_end (fst x, snd x + 16 + snd y) = block_end y"
      by (simp add: block_end_def)
    with assms(1) True Cons show ?thesis by (simp add: join_def)
  next
    case False
    with assms Cons have xy: "block_end x < unat (fst y)" by auto
    have "block_end x < unat (fst z)" if "z \<in> set G" for z
      using assms Cons that xy by (fastforce simp: block_end_def)
    with False assms(1) Cons xy show ?thesis by (simp add: join_def)
  qed
qed

lemma join_members: "y \<in> set (join x F) \<Longrightarrow> fst y = fst x \<or> y \<in> set F"
  by (auto simp: join_def split: list.splits if_splits)

text \<open>One merge step of \<open>free\<close> is a \<open>join\<close> of the abstract list.\<close>

lemma merge_join:
  assumes rep: "mm_rep base len s (f1 @ x # f2) as"
  defines "t \<equiv> (if head0 f2 \<noteq> 0 \<and> isContiguous s x (head0 f2) then merge_blocks s x (head0 f2) else s)"
  shows "\<exists>f2'. mm_rep base len t (f1 @ x # f2') as \<and>
    blocks t (f1 @ x # f2') = blocks s f1 @ join (x, bsz (mm_heap s) x) (blocks s f2) \<and>
    blocks t as = blocks s as"
proof (cases "f2 \<noteq> [] \<and> isContiguous s x (head0 f2)")
  case True
  then obtain y f3 where f2: "f2 = y # f3" by (cases f2) auto
  have y0: "y \<noteq> 0" using mm_rep_block(5) [OF rep, of y] f2 by simp
  with True f2 have t: "t = merge_blocks s x y" and con: "isContiguous s x y"
    by (simp_all add: t_def)
  note m = mm_rep_merge [OF rep [unfolded f2] con]
  have adj: "unat y = bend (bsz (mm_heap s)) x"
    using isContiguous_iff [OF rep, of x y] con by simp
  have dist: "distinct (f1 @ x # y # f3)" "set (f1 @ x # y # f3) \<inter> set as = {}"
    using mm_repD(5,7) [OF rep] sorted_wrt_less_distinct f2 by blast+
  have "blocks t f1 = blocks s f1" "blocks t f3 = blocks s f3" "blocks t as = blocks s as"
    using dist by (auto intro!: blocks_cong simp: t m(2))
  then show ?thesis
    using m adj by (intro exI [of _ f3]) (auto simp: t f2 join_def bend_def block_end_def)
next
  case False
  have "f2 = [] \<or> head0 f2 \<noteq> 0"
    using chain_nonzero [OF mm_repD(3) [OF rep]] by (cases f2) auto
  with False have t: "t = s" by (auto simp: t_def)
  have "join (x, bsz (mm_heap s) x) (blocks s f2) = blocks s (x # f2)"
    using False isContiguous_iff [OF rep, of x "head0 f2"]
    by (cases f2) (auto intro!: join_gap)
  with rep show ?thesis by (auto simp: t)
qed

lemma put_back_members: "y \<in> set (put_back x F) \<Longrightarrow> fst y = fst x \<or> (\<exists>z\<in>set F. fst y = fst z)"
proof (induction F arbitrary: y)
  case Nil
  then show ?case by simp
next
  case (Cons z F)
  then have "fst y = fst x \<or> fst y = fst z \<or> y \<in> set (put_back x F) \<or> y \<in> set (z # F)"
    by (auto dest: join_members split: if_splits)
  with Cons.IH [of y] show ?case by auto
qed

lemma gaps_put_back:
  assumes "gaps F" and "\<forall>y\<in>set F. block_end y \<le> unat (fst x) \<or> block_end x \<le> unat (fst y)"
  shows "gaps (put_back x F)"
  using assms
proof (induction F)
  case Nil
  then show ?case by simp
next
  case (Cons y F)
  show ?case
  proof (cases "fst y < fst x")
    case True
    have "block_end y \<le> unat (fst x)"
      using Cons.prems(2) True by (auto simp: block_end_def word_less_nat_alt)
    moreover have "block_end y \<le> unat (fst z)" if "z \<in> set F" for z
      using Cons.prems(1) that by (simp add: less_imp_le)
    ultimately have "\<forall>z\<in>set (put_back x F). block_end y \<le> unat (fst z)"
      by (auto dest!: put_back_members)
    with Cons True show ?thesis by (simp add: join_gaps)
  next
    case False
    then have xy: "unat (fst x) \<le> unat (fst y)" by (simp add: word_le_nat_alt not_less)
    have "block_end x \<le> unat (fst z)" if z: "z \<in> set (y # F)" for z
    proof -
      have "unat (fst y) \<le> unat (fst z)"
        using z Cons.prems(1) by (auto simp: block_end_def dest!: bspec)
      with xy have "\<not> block_end z \<le> unat (fst x)" by (simp add: block_end_def)
      with Cons.prems(2) z show ?thesis by blast
    qed
    with False Cons.prems(1) show ?thesis by (simp add: join_gaps)
  qed
qed

lemma free_seek:
  assumes "sorted_wrt (<) (fs :: u64 list)" and "b \<notin> set fs"
  obtains f1 f2 where "fs = f1 @ f2" "\<forall>x\<in>set f1. x < b" "\<forall>x\<in>set f2. b < x"
    "takeWhile (\<lambda>x. x < b) fs = f1" "dropWhile (\<lambda>x. x < b) fs = f2"
proof -
  have "\<forall>x\<in>set (dropWhile (\<lambda>x. x < b) fs). b < x"
    using assms
  proof (induction fs)
    case Nil
    then show ?case by simp
  next
    case (Cons y fs)
    then show ?case by (cases "y < b") (auto intro: less_trans)
  qed
  with that show thesis by (metis set_takeWhileD takeWhile_dropWhile_id)
qed

lemma mm_free_not_allocated:
  assumes "mm_refines base len s F A" and "ptr - 16 \<notin> fst ` set A"
  shows "mm_free s ptr = Some s"
proof -
  from assms(1) obtain fs as where rep: "mm_rep base len s fs as" and A: "A = blocks s as"
    by (auto simp: mm_refines_def)
  define b where "b = ptr - 16"
  have "\<forall>x\<in>set as. x \<noteq> b" using assms(2) by (force simp: A b_def)
  then have t: "takeWhile (\<lambda>x. x \<noteq> b) as = as" "dropWhile (\<lambda>x. x \<noteq> b) as = []"
    by (simp_all add: takeWhile_eq_all_conv dropWhile_eq_Nil_conv)
  have "seek (\<lambda>x. x \<noteq> b) (\<lambda>x. bd_next (mm_heap s x)) 0 (alloc_list s) =
      Some (last (0 # as), 0)"
    using seek_chain [OF mm_repD(4) [OF rep], of "\<lambda>x. x \<noteq> b" 0]
    by (simp add: bnx_def t)
  then show ?thesis by (simp add: mm_free_def Let_def flip: b_def)
qed

text \<open>The block goes back and is merged: the abstract \<open>put_back\<close>.\<close>

lemma give_merge:
  assumes rep: "mm_rep base len s (f1 @ b # f2) as" and g: "gaps (blocks s (f1 @ f2))"
  defines "n \<equiv> head0 f2" and "p \<equiv> last (0 # f1)"
  defines "s3 \<equiv> (if n \<noteq> 0 \<and> isContiguous s b n then merge_blocks s b n else s)"
  defines "s4 \<equiv> (if p \<noteq> 0 \<and> isContiguous s3 p b then merge_blocks s3 p b else s3)"
  shows "mm_refines base len s4 (put_back (b, bsz (mm_heap s) b) (blocks s (f1 @ f2))) (blocks s as)"
proof -
  let ?x = "(b, bsz (mm_heap s) b)"
  have lo: "\<forall>y\<in>set f1. y < b" and hi: "\<forall>y\<in>set f2. b < y"
    using mm_repD(5) [OF rep] by (auto simp: sorted_wrt_append)
  have "apart (bsz (mm_heap s)) y b" if "y \<in> set (f1 @ f2)" for y
    using that lo hi by (intro layoutD(2) [OF mm_repD(8) [OF rep]]) auto
  then have ap: "\<forall>y\<in>set (blocks s (f1 @ f2)). block_end y \<le> unat (fst ?x) \<or> block_end ?x \<le> unat (fst y)"
    by (fastforce simp: apart_def)
  have "gaps (put_back ?x (blocks s (f1 @ f2)))"
    using g ap by (rule gaps_put_back)
  moreover from merge_join [OF rep, folded n_def, folded s3_def] obtain g2 where
    rep3: "mm_rep base len s3 (f1 @ b # g2) as"
    and bl: "blocks s3 (f1 @ b # g2) = blocks s f1 @ join ?x (blocks s f2)"
    and as3: "blocks s3 as = blocks s as"
    by blast
  moreover have f13: "blocks s3 f1 = blocks s f1" and tl3: "blocks s3 (b # g2) = join ?x (blocks s f2)"
    using bl by (simp_all add: blocks_def)
  moreover have "\<exists>h. mm_rep base len s4 h as \<and> blocks s4 as = blocks s as \<and>
      blocks s4 h = put_back ?x (blocks s (f1 @ f2))"
  proof (cases f1 rule: rev_cases)
    case Nil
    then have "s4 = s3" by (simp add: s4_def p_def)
    moreover have "put_back ?x (blocks s f2) = join ?x (blocks s f2)"
      using hi by (intro put_back_front) auto
    ultimately show ?thesis using rep3 as3 tl3 Nil by auto
  next
    case (snoc ys q)
    then have p: "p = q" by (simp add: p_def)
    have b0: "b \<noteq> 0" "q \<noteq> 0"
      using mm_rep_block(5) [OF rep, of b] mm_rep_block(5) [OF rep, of q] snoc by auto
    from rep3 snoc have rq: "mm_rep base len s3 (ys @ q # b # g2) as" by simp
    have s4: "s4 = (if head0 (b # g2) \<noteq> 0 \<and> isContiguous s3 q (head0 (b # g2))
        then merge_blocks s3 q (head0 (b # g2)) else s3)"
      using b0 p by (simp add: s4_def)
    from merge_join [OF rq, folded s4] as3 obtain h where
      h: "mm_rep base len s4 (ys @ q # h) as" "blocks s4 as = blocks s as"
      "blocks s4 (ys @ q # h) = blocks s3 ys @ join (q, bsz (mm_heap s3) q) (blocks s3 (b # g2))"
      by auto
    have q3: "blocks s3 ys = blocks s ys" "bsz (mm_heap s3) q = bsz (mm_heap s) q"
      using f13 snoc by auto
    have "put_back ?x (blocks s ys @ (q, bsz (mm_heap s) q) # blocks s f2)
        = blocks s ys @ join (q, bsz (mm_heap s) q) (join ?x (blocks s f2))"
      using g lo hi snoc by (intro put_back_split) auto
    then have "blocks s4 (ys @ q # h) = put_back ?x (blocks s (f1 @ f2))"
      using h(3) q3 tl3 snoc by simp
    with h(1,2) show ?thesis by blast
  qed
  ultimately show ?thesis unfolding mm_refines_def by metis
qed

lemma mm_free_refines:
  assumes ref: "mm_refines base len s F (A1 @ (b, n) # A2)"
  shows "\<exists>s'. mm_free s (b + 16) = Some s' \<and> mm_refines base len s' (put_back (b, n) F) (A1 @ A2)"
proof -
  from ref obtain fs as where rep0: "mm_rep base len s fs as" and F: "F = blocks s fs"
    and A: "A1 @ (b, n) # A2 = blocks s as" and gF: "gaps F"
    by (auto simp: mm_refines_def)
  define a1 where "a1 = map fst A1"
  define a2 where "a2 = map fst A2"
  have as: "as = a1 @ b # a2"
    using arg_cong [OF A, of "map fst"] by (simp add: a1_def a2_def)
  have A12: "A1 = blocks s a1" "A2 = blocks s a2" and n: "n = bsz (mm_heap s) b"
    using A [unfolded as] append_eq_append_conv [of A1 "blocks s a1" "(b, n) # A2" "blocks s (b # a2)"]
    by (simp_all add: a1_def blocks_def)
  note rep = rep0 [unfolded as] and r = mm_repD [OF rep0 [unfolded as]]
  have b0: "b \<noteq> 0" using mm_rep_block(5) [OF rep, of b] by simp
  define s1 where "s1 = extract_alloc s (last (0 # a1)) b"
  have "\<forall>x\<in>set a1. x \<noteq> b" using r(6) by auto
  then have t: "takeWhile (\<lambda>x. x \<noteq> b) (a1 @ b # a2) = a1" "dropWhile (\<lambda>x. x \<noteq> b) (a1 @ b # a2) = b # a2"
    by (simp_all add: takeWhile_append2 dropWhile_append2)
  have seek1: "seek (\<lambda>x. x \<noteq> b) (\<lambda>x. bd_next (mm_heap s x)) 0 (alloc_list s) = Some (last (0 # a1), b)"
    using seek_chain [OF r(4), of "\<lambda>x. x \<noteq> b" 0] by (simp add: bnx_def t)
  from r(5,7) obtain f1 f2 where fs: "fs = f1 @ f2" and lo: "\<forall>x\<in>set f1. x < b"
    and hi: "\<forall>x\<in>set f2. b < x" and w: "takeWhile (\<lambda>x. x < b) fs = f1" "dropWhile (\<lambda>x. x < b) fs = f2"
    by (elim free_seek) auto
  have "chain (bnx (mm_heap s1)) (free_list s1) fs"
    using extract_alloc_chains [OF rep, folded s1_def] by blast
  then have seek2: "seek (\<lambda>x. x < b) (\<lambda>x. bd_next (mm_heap s1 x)) 0 (free_list s1) =
      Some (last (0 # f1), head0 f2)"
    using seek_chain [of "bnx (mm_heap s1)" "free_list s1" fs "\<lambda>x. x < b" 0] w
    by (simp add: bnx_def)
  define s2 where "s2 = insert_free s1 (last (0 # f1)) (head0 f2) b"
  note give = mm_rep_give [OF rep [unfolded fs] lo hi, folded s1_def, folded s2_def]
  have bl: "blocks s2 xs = blocks s xs" for xs using give(2) by (intro blocks_cong) simp
  note gm = give_merge [OF give(1), unfolded bl give(2), OF gF [unfolded F fs]]
  have "mm_free s (b + 16) = Some
    (let s3 = (if head0 f2 \<noteq> 0 \<and> isContiguous s2 b (head0 f2) then merge_blocks s2 b (head0 f2) else s2)
     in if last (0 # f1) \<noteq> 0 \<and> isContiguous s3 (last (0 # f1)) b then merge_blocks s3 (last (0 # f1)) b else s3)"
    using seek1 seek2 b0 by (simp add: mm_free_def Let_def s2_def flip: s1_def del: last.simps)
  with gm show ?thesis by (auto simp: Let_def F fs A12 n simp del: last.simps)
qed

end
