(* ===== verification/Allocator.thy ===== *)
theory Allocator
  imports Kernel_Prelude
begin

text \<open>
  The interface of \<open>memoryManager.h\<close> as its clients use it. The kernel is built with one
  of two allocators behind the same four functions, so the contract is a locale: the first-fit
  manager and the buddy manager are its providers, process creation is its client.
  \<open>live s\<close> maps each payload pointer in use to the capacity behind it; \<open>limit\<close> is the
  largest request the provider does not mistake for a smaller one.
\<close>

locale allocator =
  fixes alloc :: "'s \<Rightarrow> u64 \<Rightarrow> ('s \<times> u64) option"
    and release :: "'s \<Rightarrow> u64 \<Rightarrow> 's option"
    and inv :: "'s \<Rightarrow> bool"
    and live :: "'s \<Rightarrow> u64 \<Rightarrow> nat option"
    and limit :: nat
  assumes alloc_returns: "inv s \<Longrightarrow> unat n \<le> limit \<Longrightarrow> \<exists>s' p. alloc s n = Some (s', p)"
    and alloc_inv: "inv s \<Longrightarrow> unat n \<le> limit \<Longrightarrow> alloc s n = Some (s', p) \<Longrightarrow> inv s'"
    and alloc_null: "inv s \<Longrightarrow> unat n \<le> limit \<Longrightarrow> alloc s n = Some (s', 0) \<Longrightarrow> live s' = live s"
    and alloc_live: "inv s \<Longrightarrow> unat n \<le> limit \<Longrightarrow> alloc s n = Some (s', p) \<Longrightarrow> p \<noteq> 0 \<Longrightarrow>
      live s p = None \<and> (\<exists>c. unat n \<le> c \<and> live s' = (live s)(p \<mapsto> c))"
    and release_live: "inv s \<Longrightarrow> live s p = Some c \<Longrightarrow>
      \<exists>s'. release s p = Some s' \<and> inv s' \<and> live s' = (live s)(p := None)"
    and live_null: "inv s \<Longrightarrow> live s 0 = None"
    and live_apart: "inv s \<Longrightarrow> live s p = Some c \<Longrightarrow> live s q = Some d \<Longrightarrow> p \<noteq> q \<Longrightarrow>
      unat p + c \<le> unat q \<or> unat q + d \<le> unat p"
begin

text \<open>A pair of allocations that both succeed gives two regions that do not overlap.\<close>

lemma alloc_twice_apart:
  assumes "inv s" "unat n \<le> limit" "unat m \<le> limit"
    and "alloc s n = Some (s1, p)" "p \<noteq> 0" and "alloc s1 m = Some (s2, q)" "q \<noteq> 0"
  shows "p \<noteq> q \<and> (unat p + unat n \<le> unat q \<or> unat q + unat m \<le> unat p)"
proof -
  have i1: "inv s1" using alloc_inv [OF assms(1,2,4)] .
  have i2: "inv s2" using alloc_inv [OF i1 assms(3,6)] .
  obtain c where c: "unat n \<le> c" "live s1 = (live s)(p \<mapsto> c)"
    using alloc_live [OF assms(1,2,4,5)] by blast
  obtain d where d: "unat m \<le> d" "live s1 q = None" "live s2 = (live s1)(q \<mapsto> d)"
    using alloc_live [OF i1 assms(3,6,7)] by blast
  have "p \<noteq> q" using c d by auto
  moreover from this c d live_apart [OF i2, of p c q d]
  have "unat p + c \<le> unat q \<or> unat q + d \<le> unat p" by simp
  ultimately show ?thesis using c d by linarith
qed

text \<open>Releasing what was just allocated gives back the same live pointers.\<close>

lemma alloc_release:
  assumes "inv s" "unat n \<le> limit" "alloc s n = Some (s1, p)" "p \<noteq> 0"
  shows "\<exists>s2. release s1 p = Some s2 \<and> inv s2 \<and> live s2 = live s"
proof -
  have i1: "inv s1" using alloc_inv [OF assms(1,2,3)] .
  obtain c where c: "live s p = None" "live s1 = (live s)(p \<mapsto> c)"
    using alloc_live [OF assms] by blast
  with release_live [OF i1, of p c] show ?thesis by (auto simp: fun_upd_idem)
qed

end

text \<open>A provider that also recognises pointers it never gave out, and ignores them.\<close>

locale checked_allocator = allocator +
  assumes release_other: "inv s \<Longrightarrow> live s p = None \<Longrightarrow> release s p = Some s"
begin

text \<open>So any pointer can be released: it is not live afterwards, and no other one changes.\<close>

lemma release_any:
  assumes "inv s"
  shows "\<exists>s'. release s p = Some s' \<and> inv s' \<and> live s' = (live s)(p := None)"
proof (cases "live s p")
  case None
  then show ?thesis using release_other [OF assms None] assms by (simp add: fun_upd_idem)
next
  case (Some c)
  from release_live [OF assms this] show ?thesis .
qed

lemma double_release:
  assumes "inv s" "live s p = Some c" "release s p = Some s1"
  shows "release s1 p = Some s1"
  using release_live [OF assms(1,2)] assms(3) release_other by auto

end

end
