(* ===== verification/Memory_Provider.thy ===== *)
theory Memory_Provider
  imports Memory_Refine Allocator
begin

text \<open>
  The first-fit manager as a provider of the allocator interface: its live pointers, what
  \<open>malloc\<close> and \<open>free\<close> do to them, and the interpretation of the locale on the model.
\<close>

section \<open>Live pointers\<close>

definition mm_inv :: "nat \<Rightarrow> nat \<Rightarrow> mm_state \<Rightarrow> bool" where
  "mm_inv base len s \<longleftrightarrow> (\<exists>F A. mm_refines base len s F A)"

definition mm_live :: "mm_state \<Rightarrow> u64 \<Rightarrow> nat option" where
  "mm_live s p =
     (if \<exists>as. chain (bnx (mm_heap s)) (alloc_list s) as \<and> p - 16 \<in> set as
      then Some (bsz (mm_heap s) (p - 16)) else None)"

lemma map_of_blocks: "map_of (blocks s xs) b = (if b \<in> set xs then Some (bsz (mm_heap s) b) else None)"
  by (induction xs) auto

lemma mm_live_refines:
  assumes "mm_refines base len s F A"
  shows "mm_live s p = map_of A (p - 16)"
proof -
  from assms obtain fs as where rep: "mm_rep base len s fs as" and A: "A = blocks s as"
    by (auto simp: mm_refines_def)
  have "(\<exists>as'. chain (bnx (mm_heap s)) (alloc_list s) as' \<and> p - 16 \<in> set as') \<longleftrightarrow> p - 16 \<in> set as"
    using mm_repD(4) [OF rep] chain_unique by blast
  then show ?thesis by (simp add: mm_live_def A map_of_blocks)
qed

lemma mm_refines_distinct:
  assumes "mm_refines base len s F A"
  shows "distinct (map fst A)" and "fst ` set F \<inter> fst ` set A = {}"
proof -
  from assms obtain fs as where "mm_rep base len s fs as" and "A = blocks s as" "F = blocks s fs"
    by (auto simp: mm_refines_def)
  with mm_repD(6,7) [of base len s fs as]
  show "distinct (map fst A)" and "fst ` set F \<inter> fst ` set A = {}"
    by (auto simp: image_image)
qed

lemma mm_refines_block:
  assumes "mm_refines base len s F A" and "x \<in> set F \<union> set A"
  shows "base \<le> unat (fst x)" "block_end x \<le> base + len" "base + len < 2 ^ 64"
    "unat (fst x) mod 8 = 0" "fst x \<noteq> 0" "unat (fst x + 16) = unat (fst x) + 16"
proof -
  from assms obtain fs as where rep: "mm_rep base len s fs as"
    and b: "fst x \<in> set fs \<union> set as" "x = (fst x, bsz (mm_heap s) (fst x))"
    by (auto simp: mm_refines_def)
  then have e: "block_end x = bend (bsz (mm_heap s)) (fst x)"
    using block_end_blocks by metis
  note r = mm_rep_block [OF rep b(1)]
  show "base \<le> unat (fst x)" "block_end x \<le> base + len" "base + len < 2 ^ 64"
    "unat (fst x) mod 8 = 0" "fst x \<noteq> 0"
    using r mm_repD(2) [OF rep] e by auto
  show "unat (fst x + 16) = unat (fst x) + 16"
    using r(6) by (simp add: bend_def unat_plus)
qed

lemma mm_refines_apart:
  assumes "mm_refines base len s F A" and "x \<in> set F \<union> set A" "y \<in> set F \<union> set A" "fst x \<noteq> fst y"
  shows "block_end x \<le> unat (fst y) \<or> block_end y \<le> unat (fst x)"
proof -
  from assms(1) obtain fs as where rep: "mm_rep base len s fs as"
    and FA: "F = blocks s fs" "A = blocks s as"
    by (auto simp: mm_refines_def)
  have "apart (bsz (mm_heap s)) (fst x) (fst y)"
    using assms(2-4) FA by (intro layoutD(2) [OF mm_repD(8) [OF rep]]) auto
  with assms(2,3) FA show ?thesis by (auto simp: apart_def)
qed

text \<open>What \<open>malloc\<close> does, on the abstract lists, for any request.\<close>

lemma mm_malloc_cases:
  assumes "mm_refines base len s F A"
  obtains "mm_malloc s req = Some (s, 0)" "req = 0 \<or> take_fit (unat (align_size req)) F = None"
  | s' x F' where "mm_malloc s req = Some (s', fst x + 16)" "mm_refines base len s' F' (x # A)"
    "take_fit (unat (align_size req)) F = Some (x, F')" "req \<noteq> 0"
proof (cases "req = 0")
  case True
  then show ?thesis using that by (simp add: mm_malloc_def)
next
  case False
  show ?thesis
  proof (cases "take_fit (unat (align_size req)) F")
    case None
    with mm_malloc_refines(1) [OF assms False] show ?thesis using that by blast
  next
    case (Some a)
    then obtain x F' where "take_fit (unat (align_size req)) F = Some (x, F')" by (cases a) auto
    with mm_malloc_refines(2) [OF assms False this] False show ?thesis using that by blast
  qed
qed

lemma take_fit_size: "take_fit k F = Some (x, F') \<Longrightarrow> k \<le> snd x \<and> snd x < k + 24 \<and> fst x \<in> fst ` set F"
  by (induction k F arbitrary: F' rule: take_fit.induct) (fastforce split: if_splits)+

section \<open>The provider of the allocator interface\<close>

lemma mm_live_after_take:
  assumes "mm_refines base len s F A" "mm_refines base len s' F' (x # A)"
  shows "mm_live s' = (mm_live s)(fst x + 16 \<mapsto> snd x)" and "mm_live s (fst x + 16) = None"
proof -
  have "fst x \<notin> fst ` set A" using mm_refines_distinct(1) [OF assms(2)] by auto
  then have "map_of A (fst x) = None" by (simp add: map_of_eq_None_iff)
  moreover have "p - 16 = fst x \<longleftrightarrow> p = fst x + 16" for p :: u64
    by (auto simp: algebra_simps)
  ultimately show "mm_live s' = (mm_live s)(fst x + 16 \<mapsto> snd x)" "mm_live s (fst x + 16) = None"
    using assms by (cases x; auto simp: mm_live_refines fun_eq_iff)+
qed

lemma map_of_remove:
  "distinct (map fst (A1 @ (b, n) # A2)) \<Longrightarrow> map_of (A1 @ A2) = (map_of (A1 @ (b, n) # A2))(b := None)"
proof (induction A1)
  case Nil
  then have "map_of A2 b = None" by (simp add: map_of_eq_None_iff)
  then show ?case by (auto simp: fun_eq_iff)
next
  case (Cons y A1)
  then show ?case by (cases y) (auto simp: fun_upd_twist)
qed

lemma mm_live_block:
  assumes ref: "mm_refines base len s F A" and l: "mm_live s p = Some n"
  obtains A1 A2 where "A = A1 @ (p - 16, n) # A2"
  using l by (metis map_of_SomeD mm_live_refines ref split_list)

lemma mm_free_effect:
  assumes ref: "mm_refines base len s F A" and l: "mm_live s p = Some n"
  shows "\<exists>s' F' A'. mm_free s p = Some s' \<and> mm_refines base len s' F' A' \<and> mm_live s' = (mm_live s)(p := None)"
proof -
  from ref l obtain A1 A2 where A: "A = A1 @ (p - 16, n) # A2" by (rule mm_live_block)
  from mm_free_refines [OF ref [unfolded A]] obtain s' where s': "mm_free s p = Some s'"
    "mm_refines base len s' (put_back (p - 16, n) F) (A1 @ A2)"
    by auto
  have "map_of (A1 @ A2) = (map_of A)(p - 16 := None)"
    unfolding A using mm_refines_distinct(1) [OF ref] A by (intro map_of_remove) simp
  then have "map_of (A1 @ A2) (q - 16) = ((mm_live s)(p := None)) q" for q
    using mm_live_refines [OF ref, of q] by simp
  then have "mm_live s' = (mm_live s)(p := None)"
    using mm_live_refines [OF s'(2)] by (simp add: fun_eq_iff)
  with s' show ?thesis by blast
qed

interpretation mm: checked_allocator mm_malloc mm_free "mm_inv base len" mm_live "2 ^ 64 - 8"
  for base len
proof (unfold_locales, goal_cases)
  case (1 s n)
  then obtain F A where ref: "mm_refines base len s F A" by (auto simp: mm_inv_def)
  show ?case by (rule mm_malloc_cases [OF ref, of n]) auto
next
  case (2 s n s' p)
  then obtain F A where ref: "mm_refines base len s F A" by (auto simp: mm_inv_def)
  show ?case by (rule mm_malloc_cases [OF ref, of n]) (use 2 ref in \<open>auto simp: mm_inv_def\<close>)
next
  case (3 s n s')
  then obtain F A where ref: "mm_refines base len s F A" by (auto simp: mm_inv_def)
  show ?case
  proof (rule mm_malloc_cases [OF ref, of n])
    fix t x F' assume t: "mm_malloc s n = Some (t, fst x + 16)" "mm_refines base len t F' (x # A)"
    then have "unat (fst x + 16) = unat (fst x) + 16" by (intro mm_refines_block(6)) auto
    with t 3 show ?thesis by auto
  qed (use 3 in auto)
next
  case (4 s n s' p)
  then obtain F A where ref: "mm_refines base len s F A" by (auto simp: mm_inv_def)
  show ?case
  proof (rule mm_malloc_cases [OF ref, of n])
    fix t x F' assume t: "mm_malloc s n = Some (t, fst x + 16)" "mm_refines base len t F' (x # A)"
      "take_fit (unat (align_size n)) F = Some (x, F')"
    have "unat n \<le> snd x"
      using take_fit_size [OF t(3)] align_size_bounds [of n] 4 by linarith
    then show ?thesis using mm_live_after_take [OF ref t(2)] 4 t(1) by auto
  qed (use 4 in auto)
next
  case (5 s p c)
  then obtain F A where "mm_refines base len s F A" by (auto simp: mm_inv_def)
  from mm_free_effect [OF this] 5 show ?case by (fastforce simp: mm_inv_def)
next
  case (6 s)
  then obtain F A where ref: "mm_refines base len s F A" by (auto simp: mm_inv_def)
  show ?case
  proof (rule ccontr)
    assume "mm_live s 0 \<noteq> None"
    then obtain n where "mm_live s 0 = Some n" by auto
    with ref obtain A1 A2 where "A = A1 @ (0 - 16, n) # A2" by (rule mm_live_block)
    with mm_refines_block(6) [OF ref, of "(0 - 16, n)"] show False by auto
  qed
next
  case (7 s p n q m)
  then obtain F A where ref: "mm_refines base len s F A" by (auto simp: mm_inv_def)
  from 7 have "(p - 16, n) \<in> set F \<union> set A" "(q - 16, m) \<in> set F \<union> set A"
    using mm_live_refines [OF ref] by (auto dest: map_of_SomeD)
  with mm_refines_apart [OF ref this] mm_refines_block(6) [OF ref, of "(p - 16, n)"]
    mm_refines_block(6) [OF ref, of "(q - 16, m)"] 7(4)
  show ?case by (auto simp: block_end_def)
next
  case (8 s p)
  then obtain F A where ref: "mm_refines base len s F A" by (auto simp: mm_inv_def)
  with 8 show ?case
    by (intro mm_free_not_allocated [OF ref]) (simp add: mm_live_refines map_of_eq_None_iff)
qed

end
