(* ===== verification/Memory_Properties.thy ===== *)
theory Memory_Properties
  imports Memory_Provider
begin

text \<open>
  The properties of \<open>Kernel/memoryManager.c\<close>: what \<open>initMemoryManager\<close>, \<open>malloc\<close> and
  \<open>free\<close> promise, for one call and over whole runs, with witnesses on a small arena.
\<close>

section \<open>Runs\<close>

datatype mm_op = Malloc u64 | Free u64

definition mm_step :: "mm_state \<Rightarrow> mm_op \<Rightarrow> mm_state option" where
  "mm_step s op = (case op of Malloc n \<Rightarrow> map_option fst (mm_malloc s n) | Free p \<Rightarrow> mm_free s p)"

fun mm_run :: "mm_state \<Rightarrow> mm_op list \<Rightarrow> mm_state option" where
  "mm_run s [] = Some s"
| "mm_run s (op # ops) = (case mm_step s op of None \<Rightarrow> None | Some s' \<Rightarrow> mm_run s' ops)"

lemma init_refines:
  assumes "initMemoryManager s address sz = (s', 0)" and "alloc_list s = 0" and "address \<noteq> 0"
    and "unat address + unat sz < 2 ^ 64"
  shows "mm_refines (unat address) (unat sz) s' [(address, unat sz - 16)] []"
proof -
  have al: "address mod 8 = 0" "sz mod 8 = 0" "\<not> sz < 24"
    and s': "s' = s\<lparr>mm_heap := set_next (set_size (mm_heap s) address (sz - 16)) address 0,
      free_list := address,
      mm_info := \<lparr>mi_allocated = 16, mi_free = sz - 16, mi_total = sz\<rparr>\<rparr>"
    using assms(1) by (auto simp: initMemoryManager_def split: if_splits)
  from al have m: "unat address mod 8 = 0" "unat sz mod 8 = 0"
    using unat_mod [of address 8] unat_mod [of sz 8] by simp_all
  have n: "24 \<le> unat sz" using al(3) by (simp add: word_less_nat_alt)
  then have u: "unat (sz - 16) = unat sz - 16" by (simp add: unat_minus)
  obtain q where q: "unat sz = 8 * q" using m(2) by auto
  with n have "(unat sz - 16) mod 8 = 0" by (auto simp: le_iff_add)
  then have "mm_rep (unat address) (unat sz) s' [address] []"
    using assms(2-4) m n u
    by (auto simp: mm_rep_def s' heap_simps layout_def block_in_def bend_def account_def
        unat_gt_0)
  moreover have "[(address, unat sz - 16)] = blocks s' [address]"
    by (simp add: s' heap_simps u)
  moreover have "[] = blocks s' []" "gaps [(address, unat sz - 16)]" by simp_all
  ultimately show ?thesis unfolding mm_refines_def by blast
qed

lemma mm_free_cases:
  assumes "mm_refines base len s F A"
  shows "\<exists>s' F' A'. mm_free s p = Some s' \<and> mm_refines base len s' F' A'"
proof (cases "mm_live s p")
  case None
  with mm_free_not_allocated [OF assms] mm_live_refines [OF assms] assms
  show ?thesis by (auto simp: map_of_eq_None_iff)
next
  case (Some n)
  from mm_free_effect [OF assms this] show ?thesis by blast
qed

lemma mm_run_refines:
  "mm_refines base len s F A \<Longrightarrow> \<exists>s' F' A'. mm_run s ops = Some s' \<and> mm_refines base len s' F' A'"
proof (induction ops arbitrary: s F A)
  case Nil
  then show ?case by auto
next
  case (Cons op ops)
  have "\<exists>t F' A'. mm_step s op = Some t \<and> mm_refines base len t F' A'"
  proof (cases op)
    case (Malloc n)
    show ?thesis
      by (rule mm_malloc_cases [OF Cons.prems, of n]) (use Cons.prems Malloc in \<open>auto simp: mm_step_def\<close>)
  next
    case (Free p)
    with mm_free_cases [OF Cons.prems] show ?thesis by (simp add: mm_step_def)
  qed
  with Cons.IH show ?case by fastforce
qed

lemma mm_refines_account:
  assumes "mm_refines base len s F A"
  shows "unat (mi_allocated (mm_info s)) + unat (mi_free (mm_info s)) = len"
    "unat (mi_free (mm_info s)) = sum_list (map snd F)"
    "unat (mi_total (mm_info s)) = len"
  using assms mm_repD(9)
  by (fastforce simp: mm_refines_def account_def blocks_def comp_def)+

lemma join_total: "sum_list (map snd (join x F)) \<ge> sum_list (map snd F) + snd x"
  by (auto simp: join_def split: list.split)

lemma put_back_total: "sum_list (map snd (put_back x F)) \<ge> sum_list (map snd F) + snd x"
proof (induction F)
  case Nil
  then show ?case by simp
next
  case (Cons y F)
  then show ?case using join_total [of "put_back x F" y] join_total [of "y # F" x] by auto
qed

section \<open>A small arena\<close>

text \<open>The arena of the witnesses: 4096 bytes at address 4096, just initialised.\<close>

definition mm_ex :: mm_state where
  "mm_ex = fst (initMemoryManager mm_zero 0x1000 0x1000)"

lemma mm_ex_init: "initMemoryManager mm_zero 0x1000 0x1000 = (mm_ex, 0)"
  by (simp add: mm_ex_def initMemoryManager_def)

lemma mm_ex_refines: "mm_refines 0x1000 0x1000 mm_ex [(0x1000, 0xFF0)] []"
  using init_refines [OF mm_ex_init] by (simp add: mm_zero_def)

lemma mm_ex_alloc:
  obtains s1 where "mm_malloc mm_ex 100 = Some (s1, 0x1010)"
    "mm_refines 0x1000 0x1000 s1 [(0x1078, 0xF78)] [(0x1000, 104)]"
  using mm_malloc_refines(2) [OF mm_ex_refines, of 100] by (auto simp: align_size_def)

section \<open>Properties\<close>

text \<open>
  C2. Once the manager is initialised, any sequence of \<open>malloc\<close> and \<open>free\<close> calls returns,
  with any arguments (sizes that do not fit, pointers that were never given out, double frees).
  Afterwards every live payload lies in the arena behind its 16-byte header, 8-byte aligned,
  no two payloads overlap, and the counters of \<open>MemoryInfo\<close> still add up to the total.
\<close>
theorem mm_run_safe:
  assumes "initMemoryManager s0 address sz = (s1, 0)" and "alloc_list s0 = 0" and "address \<noteq> 0"
    and "unat address + unat sz < 2 ^ 64"
  shows "\<exists>s. mm_run s1 ops = Some s \<and>
    (\<forall>p n. mm_live s p = Some n \<longrightarrow>
       unat address + 16 \<le> unat p \<and> unat p + n \<le> unat address + unat sz \<and> unat p mod 8 = 0) \<and>
    (\<forall>p n q m. mm_live s p = Some n \<longrightarrow> mm_live s q = Some m \<longrightarrow> p \<noteq> q \<longrightarrow>
       unat p + n + 16 \<le> unat q \<or> unat q + m + 16 \<le> unat p) \<and>
    unat (mi_allocated (getMemoryInfo s)) + unat (mi_free (getMemoryInfo s)) = unat sz \<and>
    mi_total (getMemoryInfo s) = sz"
proof -
  from mm_run_refines [OF init_refines [OF assms]] obtain s F A where run: "mm_run s1 ops = Some s"
    and ref: "mm_refines (unat address) (unat sz) s F A" by blast
  have live: "(p - 16, n) \<in> set A" if "mm_live s p = Some n" for p n
    using that mm_live_refines [OF ref] by (auto dest: map_of_SomeD)
  have "unat address + 16 \<le> unat p \<and> unat p + n \<le> unat address + unat sz \<and> unat p mod 8 = 0"
    if "mm_live s p = Some n" for p n
    using mm_refines_block [OF ref, of "(p - 16, n)"] live [OF that]
    by (simp add: block_end_def mod_add_left_eq [symmetric])
  moreover have "unat p + n + 16 \<le> unat q \<or> unat q + m + 16 \<le> unat p"
    if "mm_live s p = Some n" "mm_live s q = Some m" "p \<noteq> q" for p n q m
    using mm_refines_apart [OF ref, of "(p - 16, n)" "(q - 16, m)"]
      mm_refines_block(6) [OF ref, of "(p - 16, n)"] mm_refines_block(6) [OF ref, of "(q - 16, m)"]
      live [OF that(1)] live [OF that(2)] that(3) by (auto simp: block_end_def)
  moreover have "mi_total (mm_info s) = sz"
    using mm_refines_account(3) [OF ref] by (simp add: word_unat_eq_iff)
  ultimately show ?thesis
    using run mm_refines_account(1) [OF ref] unfolding getMemoryInfo_def by blast
qed

theorem mm_run_safe_witness:
  "\<exists>s. mm_run mm_ex [Malloc 100, Malloc 5000, Free 0x1010, Free 0x1010] = Some s \<and>
    mi_total (getMemoryInfo s) = 0x1000"
proof -
  have "alloc_list mm_zero = 0" by (simp add: mm_zero_def)
  from mm_run_safe [OF mm_ex_init this] show ?thesis by fastforce
qed

text \<open>
  C4. \<open>malloc\<close> on a request the rounding does not wrap: it returns NULL and changes nothing
  exactly when the request is 0 or no free block is large enough; otherwise it returns a
  pointer that was not live, non-null and 8-byte aligned, whose capacity covers the request
  and exceeds it by less than 32 bytes, and no other pointer's capacity changes.
\<close>
theorem mm_malloc_correct:
  assumes "mm_refines base len s F A" and "unat req \<le> 2 ^ 64 - 8"
  shows "if req = 0 \<or> (\<forall>y\<in>set F. snd y < unat (align_size req)) then mm_malloc s req = Some (s, 0)
    else \<exists>s' p n. mm_malloc s req = Some (s', p) \<and> p \<noteq> 0 \<and> unat p mod 8 = 0 \<and>
      mm_live s p = None \<and> mm_live s' = (mm_live s)(p \<mapsto> n) \<and> unat req \<le> n \<and> n < unat req + 32"
proof (rule mm_malloc_cases [OF assms(1), of req])
  assume "mm_malloc s req = Some (s, 0)" "req = 0 \<or> take_fit (unat (align_size req)) F = None"
  then show ?thesis by (auto simp: take_fit_None)
next
  fix s' x F'
  assume a: "mm_malloc s req = Some (s', fst x + 16)" "mm_refines base len s' F' (x # A)"
    "take_fit (unat (align_size req)) F = Some (x, F')" "req \<noteq> 0"
  have "\<not> (\<forall>y\<in>set F. snd y < unat (align_size req))"
    using a(3) take_fit_None [of "unat (align_size req)" F] by simp
  moreover have "unat req \<le> snd x \<and> snd x < unat req + 32"
    using take_fit_size [OF a(3)] align_size_bounds [OF assms(2)] by linarith
  moreover have "fst x + 16 \<noteq> 0 \<and> unat (fst x + 16) mod 8 = 0"
    using mm_refines_block [OF a(2), of x] by (auto simp flip: unat_eq_zero)
  ultimately show ?thesis
    using a(1,4) mm_live_after_take [OF assms(1) a(2)] by auto
qed

theorem mm_malloc_correct_witness:
  "\<exists>s' p n. mm_malloc mm_ex 100 = Some (s', p) \<and> p \<noteq> 0 \<and> mm_live s' p = Some n \<and> 100 \<le> n"
  using mm_malloc_correct [OF mm_ex_refines, of 100] by (auto simp: align_size_def)

text \<open>
  C5. \<open>free\<close> on any pointer returns. A live pointer stops being live, and no other pointer is
  affected; the counter of free bytes grows by at least its capacity. Any other pointer,
  NULL, an interior pointer or one already freed, leaves the state as it is.
\<close>
theorem mm_free_correct:
  assumes "mm_refines base len s F A"
  shows "\<exists>s'. mm_free s p = Some s' \<and> mm_live s' = (mm_live s)(p := None) \<and>
    (mm_live s p = None \<longrightarrow> s' = s) \<and>
    unat (mi_free (mm_info s')) \<ge> unat (mi_free (mm_info s)) + (case mm_live s p of None \<Rightarrow> 0 | Some n \<Rightarrow> n)"
proof (cases "mm_live s p")
  case None
  then have "mm_free s p = Some s"
    by (intro mm_free_not_allocated [OF assms]) (simp add: mm_live_refines [OF assms] map_of_eq_None_iff)
  with None show ?thesis by (simp add: fun_upd_idem)
next
  case (Some n)
  with assms obtain A1 A2 where A: "A = A1 @ (p - 16, n) # A2" by (rule mm_live_block)
  from mm_free_refines [OF assms [unfolded A]] obtain s' where s': "mm_free s p = Some s'"
    "mm_refines base len s' (put_back (p - 16, n) F) (A1 @ A2)" by auto
  from mm_free_effect [OF assms Some] s'(1) have "mm_live s' = (mm_live s)(p := None)" by auto
  moreover have "sum_list (map snd (put_back (p - 16, n) F)) \<ge> sum_list (map snd F) + n"
    using put_back_total [of F "(p - 16, n)"] by simp
  ultimately show ?thesis
    using s' Some mm_refines_account(2) [OF s'(2)] mm_refines_account(2) [OF assms] by simp
qed

theorem mm_free_correct_witness: "\<exists>s'. mm_free mm_ex 0 = Some s' \<and> mm_live s' = (mm_live mm_ex)(0 := None)"
  using mm_free_correct [OF mm_ex_refines, of 0] by blast

text \<open>
  C3. \<open>malloc\<close> and \<open>free\<close> implement the abstract allocator: on a state that represents the
  free list \<open>F\<close> and the allocated list \<open>A\<close>, \<open>malloc\<close> does what first fit with splitting does
  on \<open>F\<close>, and \<open>free\<close> of a payload in \<open>A\<close> inserts its block in address order and merges it
  with the neighbours it touches.
\<close>
theorem mm_refines_first_fit:
  assumes "mm_refines base len s F (A1 @ (b, n) # A2)" and "req \<noteq> 0"
  shows "(case take_fit (unat (align_size req)) F of
      None \<Rightarrow> mm_malloc s req = Some (s, 0)
    | Some (x, F') \<Rightarrow> \<exists>s'. mm_malloc s req = Some (s', fst x + 16) \<and>
        mm_refines base len s' F' (x # A1 @ (b, n) # A2)) \<and>
    (\<exists>s'. mm_free s (b + 16) = Some s' \<and> mm_refines base len s' (put_back (b, n) F) (A1 @ A2))"
  using mm_malloc_refines [OF assms] mm_free_refines [OF assms(1)] by (auto split: option.split)

theorem mm_refines_first_fit_witness:
  "\<exists>s s'. mm_malloc mm_ex 100 = Some (s, 0x1010) \<and> mm_free s 0x1010 = Some s' \<and>
    mm_refines 0x1000 0x1000 s' [(0x1000, 0xFF0)] []"
proof (rule mm_ex_alloc)
  fix s assume a: "mm_malloc mm_ex 100 = Some (s, 0x1010)"
    "mm_refines 0x1000 0x1000 s [(0x1078, 0xF78)] [(0x1000, 104)]"
  from mm_refines_first_fit [of "0x1000" "0x1000" s "[(0x1078, 0xF78)]" "[]" "0x1000" 104 "[]" 1] a
  show ?thesis by (auto simp: join_def block_end_def)
qed

text \<open>
  C6. Round trip: when \<open>malloc\<close> succeeds, freeing its result restores the free list, the list
  of allocated blocks and the three counters, whatever was split on the way.
\<close>
theorem mm_malloc_free_round_trip:
  assumes "mm_refines base len s F A" and "mm_malloc s req = Some (s1, p)" and "p \<noteq> 0"
  shows "\<exists>s2. mm_free s1 p = Some s2 \<and> mm_refines base len s2 F A \<and> getMemoryInfo s2 = getMemoryInfo s"
proof (rule mm_malloc_cases [OF assms(1), of req])
  assume "mm_malloc s req = Some (s, 0)"
  with assms(2,3) show ?thesis by simp
next
  fix s' x F'
  assume a: "mm_malloc s req = Some (s', fst x + 16)" "mm_refines base len s' F' (x # A)"
    "take_fit (unat (align_size req)) F = Some (x, F')"
  obtain b n where x: "x = (b, n)" by fastforce
  from mm_free_refines [of base len s' F' "[]" b n A] a(2) obtain s2 where
    s2: "mm_free s' (b + 16) = Some s2" "mm_refines base len s2 (put_back (b, n) F') A"
    unfolding x by auto
  have "put_back (b, n) F' = F"
    using take_fit_put_back [OF mm_refines_ends(1) [OF assms(1)] a(3)] mm_refines_ends(2) [OF assms(1)] x
    by simp
  with s2 have ref: "mm_refines base len s2 F A" by simp
  note c = mm_refines_account [OF ref] mm_refines_account [OF assms(1)]
  have "mi_free (mm_info s2) = mi_free (mm_info s)" "mi_total (mm_info s2) = mi_total (mm_info s)"
    "mi_allocated (mm_info s2) = mi_allocated (mm_info s)"
    using c by (simp_all add: word_unat_eq_iff)
  with s2(1) ref a(1) assms(2) x show ?thesis by (auto simp: getMemoryInfo_def)
qed

theorem mm_malloc_free_round_trip_witness:
  "\<exists>s1 s2. mm_malloc mm_ex 100 = Some (s1, 0x1010) \<and> mm_free s1 0x1010 = Some s2 \<and>
    getMemoryInfo s2 = getMemoryInfo mm_ex"
proof (rule mm_ex_alloc)
  fix s assume a: "mm_malloc mm_ex 100 = Some (s, 0x1010)"
  from mm_malloc_free_round_trip [OF mm_ex_refines a] a show ?thesis by auto
qed

text \<open>
  The rounding of \<open>size\<close> wraps: for a request above \<open>2 ^ 64 - 8\<close> bytes the aligned size
  is 0, the search accepts the first free block whatever its size, and the caller gets a
  non-null pointer to fewer than 24 bytes.
\<close>
theorem mm_malloc_size_wraps:
  assumes "mm_refines base len s F A" and "F \<noteq> []" and "unat req > 2 ^ 64 - 8"
  shows "\<exists>s' p n. mm_malloc s req = Some (s', p) \<and> p \<noteq> 0 \<and> mm_live s' p = Some n \<and> n < 24"
proof -
  have r: "unat req < 2 ^ 64" by (rule unat_lt64)
  then have q: "(unat req + 7) div 8 = 2 ^ 61"
    using assms(3) by (intro div_nat_eqI) auto
  then have z: "unat (align_size req) = 0" by (simp add: align_size_unat)
  show ?thesis
  proof (rule mm_malloc_cases [OF assms(1), of req])
    assume "req = 0 \<or> take_fit (unat (align_size req)) F = None"
    with assms(2,3) z show ?thesis by (cases F) (auto simp: take_fit_None)
  next
    fix s' x F'
    assume a: "mm_malloc s req = Some (s', fst x + 16)" "mm_refines base len s' F' (x # A)"
      "take_fit (unat (align_size req)) F = Some (x, F')"
    have "fst x + 16 \<noteq> 0" using mm_refines_block [OF a(2), of x] by (auto simp flip: unat_eq_zero)
    with a take_fit_size [OF a(3)] z mm_live_after_take [OF assms(1) a(2)] show ?thesis by auto
  qed
qed

theorem mm_malloc_size_wraps_witness:
  "\<exists>s' p n. mm_malloc mm_ex 0xFFFFFFFFFFFFFFFF = Some (s', p) \<and> p \<noteq> 0 \<and> mm_live s' p = Some n \<and> n < 24"
  using mm_malloc_size_wraps [OF mm_ex_refines, of "0xFFFFFFFFFFFFFFFF"] by simp

text \<open>
  Two successful requests in a row never overlap, and the checked \<open>free\<close> makes a second
  \<open>free\<close> of the same pointer a no-op: the two facts clients rely on, from the interface.
\<close>
theorem mm_clients_isolated:
  assumes "mm_inv base len s" and "unat n \<le> 2 ^ 64 - 8" and "unat m \<le> 2 ^ 64 - 8"
    and "mm_malloc s n = Some (s1, p)" and "p \<noteq> 0" and "mm_malloc s1 m = Some (s2, q)" and "q \<noteq> 0"
  shows "p \<noteq> q \<and> (unat p + unat n \<le> unat q \<or> unat q + unat m \<le> unat p) \<and>
    (\<exists>s3. mm_free s2 p = Some s3 \<and> mm_free s3 p = Some s3 \<and> mm_live s3 q = mm_live s2 q)"
proof -
  note i1 = mm.alloc_inv [OF assms(1,2,4)]
  note i2 = mm.alloc_inv [OF i1 assms(3,6)]
  have apart: "p \<noteq> q \<and> (unat p + unat n \<le> unat q \<or> unat q + unat m \<le> unat p)"
    by (rule mm.alloc_twice_apart [OF assms])
  obtain c where "mm_live s1 p = Some c" using mm.alloc_live [OF assms(1,2,4,5)] by auto
  then have l: "mm_live s2 p = Some c"
    using mm.alloc_live [OF i1 assms(3,6,7)] apart by auto
  with mm.release_live [OF i2 l] mm.double_release [OF i2 l] apart show ?thesis by auto
qed

theorem mm_clients_isolated_witness:
  "\<exists>s1 s2 q s3. mm_malloc mm_ex 100 = Some (s1, 0x1010) \<and> mm_malloc s1 200 = Some (s2, q) \<and>
    mm_free s2 0x1010 = Some s3 \<and> mm_free s3 0x1010 = Some s3"
proof (rule mm_ex_alloc)
  fix s assume a: "mm_malloc mm_ex 100 = Some (s, 0x1010)"
    "mm_refines 0x1000 0x1000 s [(0x1078, 0xF78)] [(0x1000, 104)]"
  from mm_malloc_refines(2) [OF a(2), of 200] obtain s2
    where b: "mm_malloc s 200 = Some (s2, 0x1088)"
    by (auto simp: align_size_def)
  have "mm_inv 0x1000 0x1000 mm_ex" using mm_ex_refines by (auto simp: mm_inv_def)
  from mm_clients_isolated [OF this _ _ a(1) _ b] a(1) b show ?thesis by auto
qed

text \<open>
  \<open>initMemoryManager\<close> on every branch: a misaligned address is 1, a misaligned size 2, a
  size below header plus word 3, each leaving the manager untouched; otherwise 0, and the whole
  arena behind one header is free.
\<close>
theorem initMemoryManager_result:
  "initMemoryManager s a n =
    (if unat a mod 8 \<noteq> 0 then (s, 1) else if unat n mod 8 \<noteq> 0 then (s, 2)
     else if unat n < 24 then (s, 3) else (fst (initMemoryManager s a n), 0)) \<and>
   (snd (initMemoryManager s a n) = 0 \<and> alloc_list s = 0 \<and> a \<noteq> 0 \<and> unat a + unat n < 2 ^ 64 \<longrightarrow>
     mm_refines (unat a) (unat n) (fst (initMemoryManager s a n)) [(a, unat n - 16)] [])"
proof -
  have "(w mod 8 \<noteq> 0) = (unat w mod 8 \<noteq> 0)" for w :: u64
    using unat_mod [of w 8] by (simp flip: unat_eq_zero)
  then have "initMemoryManager s a n =
    (if unat a mod 8 \<noteq> 0 then (s, 1) else if unat n mod 8 \<noteq> 0 then (s, 2)
     else if unat n < 24 then (s, 3) else (fst (initMemoryManager s a n), 0))"
    by (simp add: initMemoryManager_def word_less_nat_alt)
  moreover have "mm_refines (unat a) (unat n) (fst (initMemoryManager s a n)) [(a, unat n - 16)] []"
    if "snd (initMemoryManager s a n) = 0" "alloc_list s = 0" "a \<noteq> 0" "unat a + unat n < 2 ^ 64"
    using that by (intro init_refines [of s a n]) (auto simp: prod_eq_iff)
  ultimately show ?thesis by blast
qed

theorem initMemoryManager_result_witness:
  "mm_refines 0x1000 0x1000 (fst (initMemoryManager mm_zero 0x1000 0x1000)) [(0x1000, 0xFF0)] []"
  using initMemoryManager_result [of mm_zero "0x1000" "0x1000"]
  by (simp add: mm_zero_def initMemoryManager_def)

end
