(* ===== verification/Keyboard_Buffer.thy ===== *)
theory Keyboard_Buffer
  imports Kernel_Prelude
begin

text \<open>
  The circular key buffer of \<open>Kernel/keyboardDriver.c\<close> and the table of the US layout, and the
  interface such a buffer has for the handler that fills it and the reader that drains it.
\<close>

definition BUF_SIZE :: nat where "BUF_SIZE = 64"

record CircBuffer =
  cb_keys :: "byte list"
  cb_read :: u64
  cb_write :: u64
  cb_size :: u64

definition buffer_zero :: CircBuffer where
  "buffer_zero = \<lparr>cb_keys = replicate 64 0, cb_read = 0, cb_write = 0, cb_size = 0\<rparr>"

section \<open>The operations\<close>

text \<open>A full buffer drops the key.\<close>

definition push :: "byte \<Rightarrow> CircBuffer \<Rightarrow> CircBuffer" where
  "push c b =
     (if unat (cb_size b) < BUF_SIZE
      then
        let b = b\<lparr>cb_keys := (cb_keys b)[unat (cb_write b) := c], cb_write := cb_write b + 1,
              cb_size := cb_size b + 1\<rparr>
        in if unat (cb_write b) = BUF_SIZE then b\<lparr>cb_write := 0\<rparr> else b
      else b)"

text \<open>The result is \<open>-1\<close>, or the key as a signed \<open>char\<close>.\<close>

definition pop :: "CircBuffer \<Rightarrow> int \<times> CircBuffer" where
  "pop b =
     (if cb_size b > 0
      then
        let c = sint (cb_keys b ! unat (cb_read b));
            b = b\<lparr>cb_read := cb_read b + 1, cb_size := cb_size b - 1\<rparr>
        in (c, if unat (cb_read b) = BUF_SIZE then b\<lparr>cb_read := 0\<rparr> else b)
      else (- 1, b))"

text \<open>At most \<open>n\<close> keys, up to the first \<open>-1\<close>: the bytes stored at the front of the caller's array.\<close>

fun readBuf :: "nat \<Rightarrow> CircBuffer \<Rightarrow> byte list \<times> CircBuffer" where
  "readBuf 0 b = ([], b)"
| "readBuf (Suc n) b =
     (let (c, b) = pop b in
      if c = - 1 then ([], b) else let (cs, b) = readBuf n b in (of_int c # cs, b))"

text \<open>The number of keys as a \<open>uint8_t\<close>.\<close>

definition getCount :: "CircBuffer \<Rightarrow> byte" where
  "getCount b = ucast (cb_size b)"

text \<open>The table \<open>kbd_US\<close>; the entries it does not list are 0.\<close>

definition kbd_US :: "byte list" where
  "kbd_US = [0, 27] @ map of_char ''1234567890-='' @ [8, 9] @ map of_char ''qwertyuiop[]'' @ [10, 5] @
     map of_char ''asdfghjkl;'' @ [39, 96, 94, 92] @ map of_char ''zxcvbnm,./^*^ ^'' @
     map of_char ''^^^^^^^^^^'' @ map of_char ''^^^'' @ [3] @ map of_char ''^-'' @ [1] @ map of_char ''^'' @ [2] @
     map of_char ''+^'' @ [4] @ map of_char ''^^^^^^^^^''"

definition getKey :: "byte \<Rightarrow> byte" where
  "getKey i =
     (if unat i \<ge> 128 then - 1
      else if unat i < length kbd_US then kbd_US ! unat i else 0)"

section \<open>A bounded queue\<close>

text \<open>
  The contract between the interrupt handler and the reader: \<open>content\<close> is what is queued,
  oldest first; a full queue refuses, an empty one has nothing to give.
\<close>

locale bounded_queue =
  fixes put :: "'a \<Rightarrow> 's \<Rightarrow> 's"
    and take_out :: "'s \<Rightarrow> ('a \<times> 's) option"
    and ok :: "'s \<Rightarrow> bool"
    and content :: "'s \<Rightarrow> 'a list"
    and room :: nat
  assumes put_ok: "ok s \<Longrightarrow> ok (put x s)"
    and put_content: "ok s \<Longrightarrow> content (put x s) = (if length (content s) < room then content s @ [x] else content s)"
    and take_none: "ok s \<Longrightarrow> take_out s = None \<longleftrightarrow> content s = []"
    and take_some: "ok s \<Longrightarrow> take_out s = Some (x, s') \<Longrightarrow> ok s' \<and> content s = x # content s'"
    and bounded: "ok s \<Longrightarrow> length (content s) \<le> room"
begin

text \<open>Putting a list in, then taking as many out.\<close>

lemma put_all:
  assumes "ok s" and "length (content s) + length xs \<le> room"
  shows "ok (fold put xs s) \<and> content (fold put xs s) = content s @ xs"
  using assms
proof (induction xs arbitrary: s)
  case Nil
  then show ?case by simp
next
  case (Cons x xs)
  then show ?case using put_ok [OF Cons.prems(1)] put_content [OF Cons.prems(1)] by simp
qed

fun drain :: "nat \<Rightarrow> 's \<Rightarrow> 'a list \<times> 's" where
  "drain 0 s = ([], s)"
| "drain (Suc n) s =
     (case take_out s of None \<Rightarrow> ([], s) | Some (x, s') \<Rightarrow> let (xs, s'') = drain n s' in (x # xs, s''))"

lemma drain_content:
  assumes "ok s" "drain n s = (xs, s')"
  shows "ok s' \<and> xs = take n (content s) \<and> content s' = drop n (content s)"
  using assms
proof (induction n arbitrary: s xs)
  case 0
  then show ?case by simp
next
  case (Suc n)
  show ?case
  proof (cases "take_out s")
    case None
    with Suc.prems take_none show ?thesis by auto
  next
    case (Some r)
    obtain x s1 where r: "take_out s = Some (x, s1)" using Some by (cases r) auto
    obtain ys where ys: "drain n s1 = (ys, s')" "xs = x # ys"
      using Suc.prems(2) r by (auto split: prod.splits)
    from Suc.IH [OF _ ys(1)] take_some [OF Suc.prems(1) r] ys(2) show ?thesis by simp
  qed
qed

end

section \<open>The key buffer is one\<close>

definition kb_ok :: "CircBuffer \<Rightarrow> bool" where
  "kb_ok b \<longleftrightarrow> length (cb_keys b) = BUF_SIZE \<and> unat (cb_read b) < BUF_SIZE \<and>
     unat (cb_size b) \<le> BUF_SIZE \<and> unat (cb_write b) = (unat (cb_read b) + unat (cb_size b)) mod BUF_SIZE"

definition kb_keys :: "CircBuffer \<Rightarrow> byte list" where
  "kb_keys b = map (\<lambda>i. cb_keys b ! ((unat (cb_read b) + i) mod BUF_SIZE)) [0..<unat (cb_size b)]"

definition kb_next :: "CircBuffer \<Rightarrow> (byte \<times> CircBuffer) option" where
  "kb_next b = (if cb_size b = 0 then None else Some (of_int (fst (pop b)), snd (pop b)))"

lemma kb_zero [simp]: "kb_ok buffer_zero" "kb_keys buffer_zero = []" "cb_size buffer_zero = 0"
  by (simp_all add: kb_ok_def kb_keys_def buffer_zero_def BUF_SIZE_def)

lemma kb_length [simp]: "length (kb_keys b) = unat (cb_size b)"
  by (simp add: kb_keys_def)

lemma kb_empty: "kb_keys b = [] \<longleftrightarrow> cb_size b = 0"
  using kb_length [of b] unat_eq_zero [of "cb_size b"] by (metis length_0_conv)

lemma mod_other:
  fixes r :: nat assumes "i < n" "n < m" "n - i < m" shows "(r + i) mod m \<noteq> (r + n) mod m"
proof
  assume e: "(r + i) mod m = (r + n) mod m"
  then have "m dvd (r + n) - (r + i)" using assms(1) by (intro mod_eq_dvd_iff_nat [THEN iffD1]) auto
  then have "m dvd n - i" by simp
  then show False using assms dvd_imp_le by fastforce
qed

lemma push_full: "kb_ok b \<Longrightarrow> unat (cb_size b) = BUF_SIZE \<Longrightarrow> push c b = b"
  by (simp add: push_def)

lemma push_room:
  assumes "kb_ok b" "unat (cb_size b) < BUF_SIZE"
  shows "cb_keys (push c b) = (cb_keys b)[unat (cb_write b) := c]" "cb_read (push c b) = cb_read b"
    "unat (cb_size (push c b)) = unat (cb_size b) + 1"
    "unat (cb_write (push c b)) = (unat (cb_write b) + 1) mod BUF_SIZE"
proof -
  have w: "unat (cb_write b) < BUF_SIZE" using assms(1) by (simp add: kb_ok_def BUF_SIZE_def)
  have s1: "unat (cb_size b + 1) = unat (cb_size b) + 1"
    using assms(2) by (intro unat_plus [THEN trans]) (simp_all add: BUF_SIZE_def)
  have w1: "unat (cb_write b + 1) = unat (cb_write b) + 1"
    using w by (intro unat_plus [THEN trans]) (simp_all add: BUF_SIZE_def)
  show "cb_keys (push c b) = (cb_keys b)[unat (cb_write b) := c]" "cb_read (push c b) = cb_read b"
    "unat (cb_size (push c b)) = unat (cb_size b) + 1"
    using assms(2) s1 by (simp_all add: push_def Let_def)
  show "unat (cb_write (push c b)) = (unat (cb_write b) + 1) mod BUF_SIZE"
    using assms(2) w w1 by (simp add: push_def Let_def)
qed

lemma push_keys:
  assumes "kb_ok b" "unat (cb_size b) < BUF_SIZE"
  shows "kb_keys (push c b) = kb_keys b @ [c]"
proof (rule nth_equalityI)
  show "length (kb_keys (push c b)) = length (kb_keys b @ [c])" using push_room [OF assms] by simp
  fix i assume "i < length (kb_keys (push c b))"
  then have i: "i < unat (cb_size b) + 1" using push_room [OF assms] by simp
  let ?w = "(unat (cb_read b) + unat (cb_size b)) mod BUF_SIZE"
  have w: "unat (cb_write b) = ?w" and l: "length (cb_keys b) = BUF_SIZE" and lt: "?w < length (cb_keys b)"
    using assms(1) by (simp_all add: kb_ok_def BUF_SIZE_def)
  have "kb_keys (push c b) ! i = (cb_keys b)[?w := c] ! ((unat (cb_read b) + i) mod BUF_SIZE)"
    using i push_room [OF assms, of c] w by (simp add: kb_keys_def del: upt_Suc)
  also have "\<dots> = (kb_keys b @ [c]) ! i"
  proof (cases "i = unat (cb_size b)")
    case True
    then show ?thesis using lt by (simp add: nth_append)
  next
    case False
    then have i': "i < unat (cb_size b)" using i by simp
    then have "(unat (cb_read b) + i) mod BUF_SIZE \<noteq> ?w" using mod_other [OF i'] assms(2) by simp
    then show ?thesis using i' by (simp add: nth_append kb_keys_def)
  qed
  finally show "kb_keys (push c b) ! i = (kb_keys b @ [c]) ! i" .
qed

lemma pop_some:
  assumes "kb_ok b" "cb_size b \<noteq> 0"
  shows "fst (pop b) = sint (hd (kb_keys b))" "kb_ok (snd (pop b))" "kb_keys (snd (pop b)) = tl (kb_keys b)"
    "cb_keys (snd (pop b)) = cb_keys b"
proof -
  have n0: "unat (cb_size b) \<noteq> 0" using assms(2) by (simp add: unat_eq_zero)
  then obtain m where m: "unat (cb_size b) = Suc m" using not0_implies_Suc by blast
  have gt: "cb_size b > 0" using assms(2) word_neq_0_conv by blast
  have r: "unat (cb_read b) < BUF_SIZE" and sz: "unat (cb_size b) \<le> BUF_SIZE"
    and w: "unat (cb_write b) = (unat (cb_read b) + unat (cb_size b)) mod BUF_SIZE"
    and l: "length (cb_keys b) = BUF_SIZE" using assms(1) by (simp_all add: kb_ok_def)
  have r1: "unat (cb_read b + 1) = unat (cb_read b) + 1"
    using r by (intro unat_plus [THEN trans]) (simp_all add: BUF_SIZE_def)
  have s1: "unat (cb_size b - 1) = m" using n0 m by (subst unat_minus) simp_all
  let ?b = "snd (pop b)"
  have f: "cb_keys ?b = cb_keys b" "unat (cb_read ?b) = (unat (cb_read b) + 1) mod BUF_SIZE"
    "unat (cb_size ?b) = m" "cb_write ?b = cb_write b"
    using gt r r1 s1 by (auto simp: pop_def Let_def)
  show "cb_keys ?b = cb_keys b" by (rule f(1))
  have "hd (kb_keys b) = cb_keys b ! unat (cb_read b)"
    using m r by (simp add: kb_keys_def upt_rec del: upt_Suc)
  then show "fst (pop b) = sint (hd (kb_keys b))" using gt by (simp add: pop_def Let_def)
  have "(unat (cb_read b) + unat (cb_size b)) mod BUF_SIZE = (unat (cb_read ?b) + m) mod BUF_SIZE"
    using f(2) m by (simp add: mod_simps)
  then show "kb_ok ?b" using f l sz m w by (simp add: kb_ok_def BUF_SIZE_def)
  have "tl (kb_keys b) = map (\<lambda>i. cb_keys b ! ((unat (cb_read b) + i) mod BUF_SIZE)) [Suc 0..<Suc m]"
    by (simp add: kb_keys_def m map_tl [symmetric] del: upt_Suc)
  also have "\<dots> = kb_keys ?b"
    by (rule nth_equalityI) (simp_all add: kb_keys_def f mod_simps del: upt_Suc)
  finally show "kb_keys ?b = tl (kb_keys b)" by simp
qed

interpretation kb: bounded_queue push kb_next kb_ok kb_keys BUF_SIZE
proof
  fix b :: CircBuffer and c :: byte assume ok: "kb_ok b"
  have le: "unat (cb_size b) \<le> BUF_SIZE" using ok by (simp add: kb_ok_def)
  show "kb_ok (push c b)"
  proof (cases "unat (cb_size b) < BUF_SIZE")
    case True
    then show ?thesis using push_room [OF ok True, of c] ok
      by (simp add: kb_ok_def mod_simps)
  next
    case False
    then show ?thesis using le ok by (simp add: push_def)
  qed
  show "kb_keys (push c b) = (if length (kb_keys b) < BUF_SIZE then kb_keys b @ [c] else kb_keys b)"
    using push_keys [OF ok] by (simp add: push_def)
  show "kb_next b = None \<longleftrightarrow> kb_keys b = []"
    by (simp add: kb_next_def kb_empty)
  show "length (kb_keys b) \<le> BUF_SIZE" using le by simp
next
  fix b b' :: CircBuffer and c :: byte assume ok: "kb_ok b" and n: "kb_next b = Some (c, b')"
  then have z: "cb_size b \<noteq> 0" and c: "c = of_int (fst (pop b))" and b': "b' = snd (pop b)"
    by (auto simp: kb_next_def split: if_splits)
  have "kb_keys b \<noteq> []" using z by (simp add: kb_empty)
  then show "kb_ok b' \<and> kb_keys b = c # kb_keys b'" using pop_some [OF ok z] c b' by simp
qed

text \<open>\<open>readBuf\<close> drains the queue, as long as no key is the byte \<open>-1\<close>.\<close>

lemma readBuf_drain:
  "kb_ok b \<Longrightarrow> - 1 \<notin> set (kb_keys b) \<Longrightarrow> readBuf n b = kb.drain n b"
proof (induction n arbitrary: b)
  case 0
  then show ?case by simp
next
  case (Suc n)
  show ?case
  proof (cases "cb_size b = 0")
    case True
    then have "pop b = (- 1, b)" "kb_next b = None" by (simp_all add: pop_def kb_next_def)
    then show ?thesis by simp
  next
    case False
    obtain c b' where p: "pop b = (c, b')" by (cases "pop b") auto
    have ne: "kb_keys b \<noteq> []" using False by (simp add: kb_empty)
    have c: "c = sint (hd (kb_keys b))" and ok': "kb_ok b'" and tl: "kb_keys b' = tl (kb_keys b)"
      using pop_some [OF Suc.prems(1) False] p by simp_all
    have "hd (kb_keys b) \<noteq> - 1" using ne Suc.prems(2) by (metis hd_in_set)
    moreover have "(of_int c :: byte) = hd (kb_keys b)" using c by simp
    ultimately have "c \<noteq> - 1" by auto
    moreover have "- 1 \<notin> set (kb_keys b')" using Suc.prems(2) tl ne by (metis list.set_sel(2))
    moreover have "kb_next b = Some (of_int c, b')" using False p by (simp add: kb_next_def)
    ultimately show ?thesis using p Suc.IH [OF ok'] by (simp add: Let_def)
  qed
qed

lemma readBuf_take:
  assumes "kb_ok b" "- 1 \<notin> set (kb_keys b)"
  obtains b' where "readBuf n b = (take n (kb_keys b), b')" "kb_ok b'" "kb_keys b' = drop n (kb_keys b)"
proof -
  obtain xs b' where d: "kb.drain n b = (xs, b')" by (cases "kb.drain n b") auto
  from kb.drain_content [OF assms(1) d] readBuf_drain [OF assms] d that show thesis by simp
qed

end
