(* ===== verification/Video.thy ===== *)
theory Video
  imports Font
begin

text \<open>
  The video driver, \<open>Kernel/videoDriver.c\<close>, over the frame buffer the boot loader set up: a
  map from pixel offsets to colours, \<open>width * height\<close> of them on the screen. Offsets past that
  are other memory; the theorems say when they are reached.
\<close>

text \<open>A \<open>Color\<close>: blue, green, red.\<close>

type_synonym color = "byte \<times> byte \<times> byte"

abbreviation BLACK :: color where "BLACK \<equiv> (0x00, 0x00, 0x00)"
abbreviation WHITE :: color where "WHITE \<equiv> (0xFF, 0xFF, 0xFF)"
abbreviation GREEN :: color where "GREEN \<equiv> (0x1F, 0xED, 0x11)"
abbreviation GRAY :: color where "GRAY \<equiv> (0x90, 0x90, 0x90)"
abbreviation BLUE :: color where "BLUE \<equiv> (0xFF, 0x00, 0x00)"
abbreviation MAGENTA :: color where "MAGENTA \<equiv> (0x87, 0x18, 0xD6)"
abbreviation RED :: color where "RED \<equiv> (0x00, 0x00, 0xFF)"

record screen =
  fontSize :: u32
  posX :: u32
  y_char :: byte
  width :: u16
  height :: u16
  fb :: "nat \<Rightarrow> color"

definition screen_zero :: screen where
  "screen_zero = \<lparr>fontSize = 1, posX = 0, y_char = 0, width = 1024, height = 768, fb = (\<lambda>_. BLACK)\<rparr>"

section \<open>Rectangles\<close>

definition getPixel :: "u16 \<Rightarrow> u16 \<Rightarrow> screen \<Rightarrow> nat" where
  "getPixel x y s = unat x + unat y * unat (width s)"

fun fill_run :: "(nat \<Rightarrow> color) \<Rightarrow> nat \<Rightarrow> nat \<Rightarrow> color \<Rightarrow> (nat \<Rightarrow> color)" where
  "fill_run f p 0 c = f"
| "fill_run f p (Suc n) c = fill_run (f(p := c)) (p + 1) n c"

fun fill_rows :: "(nat \<Rightarrow> color) \<Rightarrow> nat \<Rightarrow> nat \<Rightarrow> nat \<Rightarrow> nat \<Rightarrow> color \<Rightarrow> (nat \<Rightarrow> color)" where
  "fill_rows f p w lineBreak 0 c = f"
| "fill_rows f p w lineBreak (Suc h) c = fill_rows (fill_run f p w c) (p + w + lineBreak) w lineBreak h c"

definition fillrect :: "u16 \<Rightarrow> u16 \<Rightarrow> u16 \<Rightarrow> u16 \<Rightarrow> color \<Rightarrow> screen \<Rightarrow> screen" where
  "fillrect x y w h colour s =
     (if x \<ge> width s \<or> y \<ge> height s then s
      else
        let maxX = width s - x; w = (if w > maxX then maxX else w);
            maxY = height s - y; h = (if h > maxY then maxY else h);
            lineBreak = unat (width s) - unat w
        in s\<lparr>fb := fill_rows (fb s) (getPixel x y s) (unat w) lineBreak (unat h) colour\<rparr>)"

definition colorScreen :: "color \<Rightarrow> screen \<Rightarrow> screen" where
  "colorScreen colour s = fillrect 0 0 (width s) (height s) colour s"

definition clearScreen :: "screen \<Rightarrow> screen" where
  "clearScreen s = colorScreen BLACK (s\<lparr>y_char := 0, posX := 0\<rparr>)"

definition printSquare :: "u16 \<Rightarrow> u16 \<Rightarrow> u16 \<Rightarrow> color \<Rightarrow> screen \<Rightarrow> screen" where
  "printSquare x y l colour s = fillrect x y l l colour s"

section \<open>Characters\<close>

text \<open>
  A row of a glyph, 8 columns \<open>fontSize\<close> apart, and the 16 rows. The loops run while \<open>j\<close> and
  \<open>i\<close> are below the scaled sizes.
\<close>

fun print_cols :: "nat \<Rightarrow> byte \<Rightarrow> u32 \<Rightarrow> u16 \<Rightarrow> u16 \<Rightarrow> color \<Rightarrow> screen \<Rightarrow> screen" where
  "print_cols 0 l j x y colour s = s"
| "print_cols (Suc n) l j x y colour s =
     (if j < of_nat FONT_WIDTH * fontSize s
      then print_cols n (drop_bit 1 l) (j + fontSize s) x y colour
             (if l AND 1 = 1 then printSquare (x + ucast j) y (ucast (fontSize s)) colour s else s)
      else s)"

fun print_rows :: "byte list \<Rightarrow> u32 \<Rightarrow> u16 \<Rightarrow> u16 \<Rightarrow> color \<Rightarrow> screen \<Rightarrow> screen" where
  "print_rows [] i x y colour s = s"
| "print_rows (l # ls) i x y colour s =
     (if i < of_nat FONT_HEIGHT * fontSize s
      then print_rows ls (i + fontSize s) x y colour (print_cols FONT_WIDTH l 0 x (y + ucast i) colour s)
      else s)"

definition printChar :: "u16 \<Rightarrow> u16 \<Rightarrow> byte \<Rightarrow> color \<Rightarrow> screen \<Rightarrow> screen" where
  "printChar x y c colour s =
     (if unat c < FIRST_CHAR \<or> unat c > LAST_CHAR then s
      else print_rows (font ! (unat c - FIRST_CHAR)) 0 x y colour s)"

section \<open>Strings\<close>

text \<open>
  The scroll: the text moves up by a line of \<open>16 * fontSize\<close> pixels with one \<open>memcpy\<close>, forwards
  and overlapping, and the line below what was moved is cleared.
\<close>

definition scroll :: "screen \<Rightarrow> screen" where
  "scroll s =
     (let row = unat (fontSize s) * 16 * unat (width s);
          n = unat (fontSize s) * (unat (width s) * (unat (height s) - 16))
      in s\<lparr>fb := (\<lambda>p. if p < n then fb s (p + row) else if p < n + row then BLACK else fb s p)\<rparr>)"

text \<open>
  The loop over the string: \<open>x\<close> is the left margin, \<open>i\<close> the column, \<open>y\<close> the line in units of
  16 scaled pixels. A backspace passes \<open>fillrect\<close> the far corner where it takes a size.
\<close>

primrec print_loop :: "u16 \<Rightarrow> i32 \<Rightarrow> byte \<Rightarrow> byte list \<Rightarrow> color \<Rightarrow> screen \<Rightarrow> screen" where
  "print_loop x i y [] colour s = s\<lparr>posX := ucast x + i * of_nat FONT_WIDTH * fontSize s, y_char := y\<rparr>"
| "print_loop x i y (c # cs) colour s =
     (let wrap = (ucast x + fontSize s * (i * of_nat FONT_WIDTH + 4) > ucast (width s) \<or> c = 10);
          down = (wrap \<and> (ucast y + 2) * 16 * fontSize s \<ge> ucast (height s));
          x = (if wrap then 0 else x); i = (if wrap then 0 else i);
          y = (if wrap \<and> \<not> down then y + 1 else y);
          s = (if down then scroll s else s);
          f = fontSize s
      in
      if c = 8
      then
        let i = i - 1 in
        print_loop x i y cs colour
          (fillrect (ucast (ucast x + of_nat FONT_WIDTH * i * f)) (ucast (ucast y * 16 * f))
             (ucast (ucast x + 1 + of_nat FONT_WIDTH * i * f)) (ucast ((ucast y + 1) * 16 * f)) BLACK s)
      else if c = 10 then print_loop x i y cs colour s
      else
        print_loop x (i + 1) y cs colour
          (printChar (ucast (ucast x + of_nat FONT_WIDTH * i * f)) (ucast (ucast y * 16 * f)) c colour s))"

text \<open>The string is given without its terminator.\<close>

definition printStringAt :: "u16 \<Rightarrow> byte \<Rightarrow> byte list \<Rightarrow> color \<Rightarrow> screen \<Rightarrow> screen" where
  "printStringAt x y string colour s = print_loop x 0 y string colour s"

definition draw_string :: "byte list \<Rightarrow> color \<Rightarrow> screen \<Rightarrow> screen" where
  "draw_string string colour s = printStringAt (ucast (posX s)) (y_char s) string colour s"

definition printStringAtX :: "u16 \<Rightarrow> byte list \<Rightarrow> color \<Rightarrow> screen \<Rightarrow> screen" where
  "printStringAtX x string colour s = printStringAt x (y_char s) string colour s"

section \<open>The font size\<close>

definition changeFontSize :: "u32 \<Rightarrow> screen \<Rightarrow> int \<times> screen" where
  "changeFontSize dif s =
     (if fontSize s + dif > 3 \<or> fontSize s + dif < 1 then (0, s)
      else (1, clearScreen (s\<lparr>fontSize := fontSize s + dif\<rparr>)))"

definition getHeight :: "screen \<Rightarrow> u16" where "getHeight s = height s"
definition getWidth :: "screen \<Rightarrow> u16" where "getWidth s = width s"

end
