(* ===== verification/Kernel_State.thy ===== *)
theory Kernel_State
  imports Memory_Manager Keyboard_Buffer Video
begin

text \<open>
  The state the kernel components share, and the results of kernel functions. Nodes and
  processes are objects at the addresses the allocator returned; an address that holds no
  object (never allocated, or freed) faults when it is followed. A kernel function is a
  resumption: it finishes, faults, never returns, or gives up the processor in
  \<open>_force_scheduler\<close>, where \<open>Resched\<close> holds the state at that point and what it does
  with the state it finds when it is resumed.
\<close>

section \<open>Processes and nodes\<close>

datatype states = READY | RUNNING | BLOCKED | NEW | KILLED

record process =
  p_name :: u64
  p_argv :: u64
  p_pid :: u64
  p_ppid :: u64
  p_sp :: u64
  p_bp :: u64
  p_state :: states
  p_stack :: u64
  p_read_fd :: u64
  p_write_fd :: u64
  p_priority :: u64
  p_children :: u64
  p_blocked_by_children :: u64

record node =
  n_quantums :: u64
  n_proc :: u64
  n_next :: u64

text \<open>The frame a new process starts from, popped by the first switch to it.\<close>

record StackFrame =
  sf_r15 :: u64
  sf_r14 :: u64
  sf_r13 :: u64
  sf_r12 :: u64
  sf_r11 :: u64
  sf_r10 :: u64
  sf_r9 :: u64
  sf_r8 :: u64
  sf_rsi :: u64
  sf_rdi :: u64
  sf_rbp :: u64
  sf_rdx :: u64
  sf_rcx :: u64
  sf_rbx :: u64
  sf_rax :: u64
  sf_ip :: u64
  sf_cs :: u64
  sf_eflags :: u64
  sf_sp :: u64
  sf_ss :: u64
  sf_returnAddress :: u64

section \<open>Semaphores and pipes\<close>

text \<open>Character arrays that hold a C string are the bytes before the terminator.\<close>

type_synonym cstring = "byte list"

record sem_ts =
  sem_id :: int
  sem_name :: cstring
  sem_lock :: u64
  sem_value :: u64
  open_count :: u64
  blocked_processes :: "u64 list"
  blocked_first :: u64
  blocked_last :: u64

record pipe_t =
  pi_name :: cstring
  created :: i32
  pi_data :: "byte list"
  rProcesses :: "i32 list"
  wProcesses :: "i32 list"
  nread :: u32
  nwrite :: u32
  usingPipe :: i32
  waitingPid :: i32
  pi_fd :: i32

section \<open>Objects of user programs\<close>

text \<open>The table the philosophers of \<open>phylo.c\<close> share.\<close>

datatype State = THINKING | HUNGRY | EATING | LEAVING

record SharedData =
  sd_count :: u64
  sd_state :: "State list"
  hungry_lock :: "cstring list"
  think_unlock :: "cstring list"

section \<open>The kernel\<close>

text \<open>
  \<open>cells\<close> is memory seen through \<open>char **\<close> pointers, \<open>cstr\<close> the C string at an address,
  \<open>frames\<close> the stack frames written so far, \<open>console\<close> what was printed, with its colour, most
  recent first, \<open>scr\<close> what that made of the screen; \<open>clock_ticks\<close>
  is the tick counter of \<open>Kernel/timer.c\<close>, \<open>registers\<close> the snapshot the interrupt code takes, \<open>port_log\<close>
  what was sent to I/O ports, \<open>port_in\<close> what reading them gives; \<open>shared\<close> holds the tables of
  philosophers and \<open>game_scores\<close> the scores of \<open>tron.c\<close>. The address of \<open>killCurrentProcess\<close> is fixed when the kernel is linked.
\<close>

record kernel =
  nodes :: "u64 \<Rightarrow> node option"
  procs :: "u64 \<Rightarrow> process option"
  first :: u64
  currentNode :: u64
  foreground :: u64
  background :: u64
  counter :: u64
  block_count :: u64
  disable_count :: u64
  force_yield :: u64
  pidc :: u64
  semaphores :: "sem_ts list"
  pipes :: "pipe_t list"
  mm :: mm_state
  cells :: "u64 \<Rightarrow> u64"
  cstr :: "u64 \<Rightarrow> cstring"
  frames :: "u64 \<Rightarrow> StackFrame option"
  kill_address :: u64
  console :: "(cstring \<times> color) list"
  kb_buffer :: CircBuffer
  kb_shift :: bool
  kb_ctrl :: bool
  clock_ticks :: u64
  scr :: screen
  registers :: "u64 list"
  port_log :: "(byte \<times> byte) list"
  port_in :: "byte \<Rightarrow> byte"
  shared :: "u64 \<Rightarrow> SharedData option"
  game_scores :: "int \<times> int"

text \<open>The state before any initialisation: every static object of the kernel is zero.\<close>

definition sem_zero :: sem_ts where
  "sem_zero = \<lparr>sem_id = 0, sem_name = [], sem_lock = 0, sem_value = 0, open_count = 0,
     blocked_processes = replicate 50 0, blocked_first = 0, blocked_last = 0\<rparr>"

definition pipe_zero :: pipe_t where
  "pipe_zero = \<lparr>pi_name = [], created = 0, pi_data = replicate 4096 0, rProcesses = replicate 10 0,
     wProcesses = replicate 10 0, nread = 0, nwrite = 0, usingPipe = 0, waitingPid = 0, pi_fd = 0\<rparr>"

definition kernel_zero :: kernel where
  "kernel_zero = \<lparr>nodes = (\<lambda>_. None), procs = (\<lambda>_. None), first = 0, currentNode = 0,
     foreground = 0, background = 0, counter = 0, block_count = 0, disable_count = 0,
     force_yield = 0, pidc = 0, semaphores = replicate 256 sem_zero, pipes = replicate 10 pipe_zero,
     mm = mm_zero, cells = (\<lambda>_. 0), cstr = (\<lambda>_. []), frames = (\<lambda>_. None),
     kill_address = 0, console = [], kb_buffer = buffer_zero, kb_shift = False, kb_ctrl = False,
     clock_ticks = 0, scr = screen_zero, registers = replicate 17 0, port_log = [],
     port_in = (\<lambda>_. 0), shared = (\<lambda>_. None), game_scores = (0, 0)\<rparr>"

section \<open>Results\<close>

codatatype 'a res =
    Fault
  | Loop
  | Done 'a kernel
  | Resched kernel "kernel \<Rightarrow> 'a res"

text \<open>Sequential composition: the second function runs when the first one is done.\<close>

primcorec bind :: "'a res \<Rightarrow> ('a \<Rightarrow> kernel \<Rightarrow> 'b res) \<Rightarrow> 'b res" where
  "bind m f =
     (case m of
        Fault \<Rightarrow> Fault
      | Loop \<Rightarrow> Loop
      | Done a k \<Rightarrow>
          (case f a k of
             Fault \<Rightarrow> Fault
           | Loop \<Rightarrow> Loop
           | Done b k' \<Rightarrow> Done b k'
           | Resched k' c \<Rightarrow> Resched k' c)
      | Resched k c \<Rightarrow> Resched k (\<lambda>k'. bind (c k') f))"

lemma bind_simps [simp]:
  "bind Fault f = Fault"
  "bind Loop f = Loop"
  "bind (Done a k) f = f a k"
  "bind (Resched k c) f = Resched k (\<lambda>k'. bind (c k') f)"
  by (subst bind.code; simp split: res.split)+

lemma bind_assoc: "bind (bind m f) g = bind m (\<lambda>a k. bind (f a k) g)"
proof (coinduction arbitrary: m rule: res.coinduct_strong)
  case Eq_res
  show ?case by (cases m) auto
qed

text \<open>\<open>_force_scheduler\<close>: the state is handed over, and the caller goes on with the one it gets back.\<close>

definition force_scheduler :: "kernel \<Rightarrow> unit res" where
  "force_scheduler k = Resched k (Done ())"

lemma bind_force_scheduler [simp]: "bind (force_scheduler k) f = Resched k (f ())"
  by (simp add: force_scheduler_def)

section \<open>Objects\<close>

definition with_node :: "kernel \<Rightarrow> u64 \<Rightarrow> (node \<Rightarrow> 'a res) \<Rightarrow> 'a res" where
  "with_node k p f = (case nodes k p of None \<Rightarrow> Fault | Some n \<Rightarrow> f n)"

definition with_proc :: "kernel \<Rightarrow> u64 \<Rightarrow> (process \<Rightarrow> 'a res) \<Rightarrow> 'a res" where
  "with_proc k p f = (case procs k p of None \<Rightarrow> Fault | Some r \<Rightarrow> f r)"

text \<open>The process of a node, \<open>node->proc\<close>, as a value; and an update of it in place.\<close>

definition proc_at :: "kernel \<Rightarrow> u64 \<Rightarrow> process option" where
  "proc_at k p = (case nodes k p of None \<Rightarrow> None | Some n \<Rightarrow> procs k (n_proc n))"

definition next_of :: "kernel \<Rightarrow> u64 \<Rightarrow> u64" where
  "next_of k p = (case nodes k p of None \<Rightarrow> 0 | Some n \<Rightarrow> n_next n)"

definition upd_proc :: "kernel \<Rightarrow> u64 \<Rightarrow> (process \<Rightarrow> process) \<Rightarrow> kernel" where
  "upd_proc k p f = k\<lparr>procs := (procs k)(p := map_option f (procs k p))\<rparr>"

definition upd_node :: "kernel \<Rightarrow> u64 \<Rightarrow> (node \<Rightarrow> node) \<Rightarrow> kernel" where
  "upd_node k p f = k\<lparr>nodes := (nodes k)(p := map_option f (nodes k p))\<rparr>"

definition with_node_proc :: "kernel \<Rightarrow> u64 \<Rightarrow> (u64 \<Rightarrow> process \<Rightarrow> 'a res) \<Rightarrow> 'a res" where
  "with_node_proc k p f = with_node k p (\<lambda>n. with_proc k (n_proc n) (f (n_proc n)))"

text \<open>
  The \<open>do .. while (_cmpxchg(..) != count)\<close> increment of a \<open>uint64_t\<close> through an \<open>int\<close>
  copy: it never ends on a value that an \<open>int\<close> cannot hold, and overflows on \<open>INT_MAX\<close>.
\<close>

definition atomic_inc :: "u64 \<Rightarrow> (u64 \<Rightarrow> 'a res) \<Rightarrow> 'a res" where
  "atomic_inc c f =
     (if scast (ucast c :: i32) \<noteq> c then Loop
      else if c = 0x7FFFFFFF then Fault
      else f (c + 1))"

end
