(* ===== verification/Scheduler_Core.thy ===== *)
theory Scheduler_Core
  imports Kernel_State
begin

text \<open>
  The part of \<open>Kernel/scheduler.c\<close> that semaphores, pipes and process creation call back
  into: walks of the ring of nodes, process states, the scheduler lock and node creation.
\<close>

section \<open>Walks of the ring\<close>

text \<open>Follow \<open>nx\<close> from \<open>p\<close> until \<open>stop\<close> holds; \<open>None\<close> is a walk that never stops.\<close>

partial_function (option) walk :: "(u64 \<Rightarrow> bool) \<Rightarrow> (u64 \<Rightarrow> u64) \<Rightarrow> u64 \<Rightarrow> u64 option" where
  "walk stop nx p = (if stop p then Some p else walk stop nx (nx p))"

declare walk.simps [code]

text \<open>A node whose process cannot be read: the walk faults there.\<close>

definition broken :: "kernel \<Rightarrow> u64 \<Rightarrow> bool" where
  "broken k p \<longleftrightarrow> proc_at k p = None"

definition state_at :: "kernel \<Rightarrow> u64 \<Rightarrow> states option" where
  "state_at k p = map_option p_state (proc_at k p)"

definition pid_at :: "kernel \<Rightarrow> u64 \<Rightarrow> u64 option" where
  "pid_at k p = map_option p_pid (proc_at k p)"

definition can_run :: "kernel \<Rightarrow> u64 \<Rightarrow> bool" where
  "can_run k p \<longleftrightarrow> state_at k p = Some READY \<or> state_at k p = Some NEW"

definition find_next_ready :: "u64 \<Rightarrow> kernel \<Rightarrow> u64 res" where
  "find_next_ready current k =
     (case walk (\<lambda>p. broken k p \<or> can_run k p) (next_of k) current of
        None \<Rightarrow> Loop
      | Some p \<Rightarrow> if broken k p then Fault else Done p k)"

text \<open>The result is the node, 0 when no process of the ring has the pid.\<close>

definition find_node :: "u64 \<Rightarrow> kernel \<Rightarrow> u64 res" where
  "find_node pid k =
     (if broken k (first k) then Fault
      else if pid_at k (first k) = Some pid then Done (first k) k
      else
        case walk (\<lambda>p. p = first k \<or> broken k p \<or> pid_at k p = Some pid) (next_of k)
               (next_of k (first k)) of
          None \<Rightarrow> Loop
        | Some p \<Rightarrow> if p = first k then Done 0 k else if broken k p then Fault else Done p k)"

section \<open>The current process\<close>

definition get_running_pid :: "kernel \<Rightarrow> u64 res" where
  "get_running_pid k =
     (if currentNode k = 0 then Done 0 k
      else with_node_proc k (currentNode k) (\<lambda>_ r. Done (p_pid r) k))"

definition get_current_proc :: "kernel \<Rightarrow> u64 res" where
  "get_current_proc k = with_node k (currentNode k) (\<lambda>n. Done (n_proc n) k)"

definition get_current_read :: "kernel \<Rightarrow> u64 res" where
  "get_current_read k = with_node_proc k (currentNode k) (\<lambda>_ r. Done (p_read_fd r) k)"

definition get_current_write :: "kernel \<Rightarrow> u64 res" where
  "get_current_write k = with_node_proc k (currentNode k) (\<lambda>_ r. Done (p_write_fd r) k)"

section \<open>Process states\<close>

definition set_state :: "kernel \<Rightarrow> u64 \<Rightarrow> states \<Rightarrow> kernel" where
  "set_state k p st = upd_proc k p (\<lambda>r. r\<lparr>p_state := st\<rparr>)"

text \<open>The result of an operation on a pid that is not in the ring is \<open>-1\<close>.\<close>

definition ready_process :: "u64 \<Rightarrow> kernel \<Rightarrow> u64 res" where
  "ready_process pid k =
     bind (find_node pid k) (\<lambda>node k.
       if node = 0 then Done (- 1) k
       else with_node_proc k node (\<lambda>pr r.
         Done (p_pid r) ((set_state k pr READY)\<lparr>block_count := block_count k - 1\<rparr>)))"

definition block_process :: "u64 \<Rightarrow> kernel \<Rightarrow> u64 res" where
  "block_process pid k =
     bind (find_node pid k) (\<lambda>node k.
       if node = 0 then Done (- 1) k
       else with_node_proc k node (\<lambda>pr _.
         bind (force_scheduler (set_state k pr BLOCKED)) (\<lambda>_ k.
           with_node_proc k node (\<lambda>_ r. Done (p_pid r) k))))"

definition block_current_process :: "kernel \<Rightarrow> unit res" where
  "block_current_process k =
     with_node_proc k (currentNode k) (\<lambda>pr _.
       force_scheduler ((set_state k pr BLOCKED)\<lparr>block_count := block_count k + 1\<rparr>))"

definition change_priority :: "u64 \<Rightarrow> u64 \<Rightarrow> kernel \<Rightarrow> u64 res" where
  "change_priority pid priority k =
     bind (find_node pid k) (\<lambda>node k.
       if node = 0 then Done (- 1) k
       else with_node_proc k node (\<lambda>pr r.
         Done (p_pid r) (upd_proc k pr (\<lambda>r. r\<lparr>p_priority := priority\<rparr>))))"

definition killCurrentProcess :: "kernel \<Rightarrow> unit res" where
  "killCurrentProcess k =
     with_node_proc k (currentNode k) (\<lambda>pr _. force_scheduler (set_state k pr KILLED))"

definition ready_foreground_proc :: "kernel \<Rightarrow> unit res" where
  "ready_foreground_proc k =
     with_node_proc k (foreground k) (\<lambda>pr r.
       Done () (set_state k pr (if p_state r = BLOCKED then READY else p_state r)))"

definition force_current_yield :: "kernel \<Rightarrow> unit res" where
  "force_current_yield k = force_scheduler (k\<lparr>force_yield := 1\<rparr>)"

text \<open>\<open>Kernel/process.c\<close>: a process with children blocks until the last one is gone.\<close>

definition wait_pid :: "kernel \<Rightarrow> unit res" where
  "wait_pid k =
     bind (get_current_proc k) (\<lambda>pr k. with_proc k pr (\<lambda>r.
       if p_children r \<noteq> 0
       then block_current_process (upd_proc k pr (\<lambda>r. r\<lparr>p_blocked_by_children := 1\<rparr>))
       else Done () k))"

section \<open>The scheduler lock\<close>

definition scheduler_enable :: "kernel \<Rightarrow> unit res" where
  "scheduler_enable k =
     Done () (if disable_count k > 0 then k\<lparr>disable_count := disable_count k - 1\<rparr> else k)"

definition scheduler_disable :: "kernel \<Rightarrow> unit res" where
  "scheduler_disable k = atomic_inc (disable_count k) (\<lambda>c. Done () (k\<lparr>disable_count := c\<rparr>))"

section \<open>Allocation of kernel objects\<close>

text \<open>
  \<open>malloc\<close> and \<open>free\<close> of the memory manager on the kernel's state. A search of the
  allocator that does not return is \<open>Loop\<close>.
\<close>

definition kmalloc :: "u64 \<Rightarrow> kernel \<Rightarrow> u64 res" where
  "kmalloc n k = (case mm_malloc (mm k) n of None \<Rightarrow> Loop | Some (s, p) \<Rightarrow> Done p (k\<lparr>mm := s\<rparr>))"

text \<open>
  The memory given back stops being a node or a process. A pointer the manager does not
  know is ignored, and what is there stays.
\<close>

definition is_allocated :: "mm_state \<Rightarrow> u64 \<Rightarrow> bool" where
  "is_allocated s p =
     (case seek (\<lambda>b. b \<noteq> p - sizeof_BlockData) (\<lambda>b. bd_next (mm_heap s b)) 0 (alloc_list s) of
        None \<Rightarrow> False
      | Some (_, b) \<Rightarrow> b \<noteq> 0)"

definition kfree :: "u64 \<Rightarrow> kernel \<Rightarrow> unit res" where
  "kfree p k =
     (case mm_free (mm k) p of
        None \<Rightarrow> Loop
      | Some s \<Rightarrow>
          Done () (if is_allocated (mm k) p
            then k\<lparr>mm := s, nodes := (nodes k)(p := None), procs := (procs k)(p := None)\<rparr>
            else k\<lparr>mm := s\<rparr>))"

abbreviation sizeof_Node :: u64 where "sizeof_Node \<equiv> 24"

definition printString :: "cstring \<Rightarrow> color \<Rightarrow> kernel \<Rightarrow> unit res" where
  "printString s colour k =
     Done () (k\<lparr>console := (s, colour) # console k, scr := draw_string s colour (scr k)\<rparr>)"

definition ascii :: "string \<Rightarrow> cstring" where
  "ascii s = map of_char s"

definition add_node :: "u64 \<Rightarrow> kernel \<Rightarrow> u64 res" where
  "add_node process k =
     bind (kmalloc sizeof_Node k) (\<lambda>new k.
       if new = 0
       then bind (printString (ascii ''MemError'') RED k) (\<lambda>_ k. Done 0 k)
       else with_proc k process (\<lambda>r. with_node k (currentNode k) (\<lambda>cur.
         Done new (k\<lparr>nodes := (nodes k)
           (new \<mapsto> \<lparr>n_quantums = p_priority r, n_proc = process, n_next = n_next cur\<rparr>,
            currentNode k \<mapsto> cur\<lparr>n_next := new\<rparr>)\<rparr>))))"

end
