(* ===== verification/Scheduler_Ring.thy ===== *)
theory Scheduler_Ring
  imports Scheduler_Core
begin

text \<open>
  The ring of nodes: a ghost list of the nodes from a given one back to itself. On a ring the
  walks of the scheduler end, and their results are read off the list.
\<close>

section \<open>Walks\<close>

lemma walk_stop [simp]: "stop p \<Longrightarrow> walk stop nx p = Some p"
  by (subst walk.simps) simp

lemma walk_segment:
  "segment nx p xs q \<Longrightarrow> \<forall>x\<in>set xs. \<not> stop x \<Longrightarrow> walk stop nx p = walk stop nx q"
  by (induction xs arbitrary: p) (auto simp: walk.simps [of stop nx])

lemma walk_result_aux:
  assumes "walk stop nx p = Some q"
  shows "p \<in> S \<longrightarrow> (\<forall>x\<in>S. nx x \<in> S) \<longrightarrow> stop q \<and> q \<in> S"
proof (rule walk.raw_induct [OF _ assms])
  fix wk stop nx p q
  assume IH: "\<And>stop nx p q. wk stop nx p = Some q \<Longrightarrow> p \<in> S \<longrightarrow> (\<forall>x\<in>S. nx x \<in> S) \<longrightarrow> stop q \<and> q \<in> S"
    and "(if stop p then Some p else wk stop nx (nx p)) = Some q"
  then show "p \<in> S \<longrightarrow> (\<forall>x\<in>S. nx x \<in> S) \<longrightarrow> stop q \<and> q \<in> S"
    using IH [of stop nx "nx p" q] by (cases "stop p") auto
qed

lemma walk_result: "walk stop nx p = Some q \<Longrightarrow> p \<in> S \<Longrightarrow> \<forall>x\<in>S. nx x \<in> S \<Longrightarrow> stop q \<and> q \<in> S"
  using walk_result_aux by blast

section \<open>Rings\<close>

text \<open>The nodes from \<open>p\<close> round to \<open>p\<close> again, each with a process of its own.\<close>

definition nproc :: "kernel \<Rightarrow> u64 \<Rightarrow> u64" where
  "nproc k p = (case nodes k p of None \<Rightarrow> 0 | Some n \<Rightarrow> n_proc n)"

definition ring :: "kernel \<Rightarrow> u64 list \<Rightarrow> bool" where
  "ring k ns \<longleftrightarrow> ns \<noteq> [] \<and> segment (next_of k) (hd ns) ns (hd ns) \<and> distinct ns \<and>
     (\<forall>n\<in>set ns. \<not> broken k n) \<and> distinct (map (nproc k) ns)"

lemma ringD:
  assumes "ring k ns"
  shows "ns \<noteq> []" "segment (next_of k) (hd ns) ns (hd ns)" "distinct ns"
    "n \<in> set ns \<Longrightarrow> \<not> broken k n" "distinct (map (nproc k) ns)"
  using assms by (auto simp: ring_def)

lemma segment_nonzero: "segment nx p xs q \<Longrightarrow> 0 \<notin> set xs"
  by (induction xs arbitrary: p) auto

lemma segment_start: "segment nx p (x # xs) q \<Longrightarrow> p = x"
  by simp

text \<open>A ring can be read from any of its nodes.\<close>

lemma ring_rotate:
  assumes "ring k (xs @ c # ys)"
  shows "ring k (c # ys @ xs)"
proof -
  let ?h = "hd (xs @ c # ys)"
  from ringD(2) [OF assms] have s: "segment (next_of k) ?h xs c" "segment (next_of k) c (c # ys) ?h"
    by (auto simp: segment_append)
  then have "segment (next_of k) c (c # ys @ xs) c" by (auto simp: segment_append)
  with assms show ?thesis by (auto simp: ring_def)
qed

lemma ring_from:
  assumes "ring k ns" and "c \<in> set ns"
  obtains ms where "ring k (c # ms)" "set (c # ms) = set ns" "length (c # ms) = length ns"
proof -
  from assms(2) obtain xs ys where "ns = xs @ c # ys" by (meson split_list)
  with ring_rotate [of k xs c ys] assms(1) show ?thesis by (intro that [of "ys @ xs"]) auto
qed

lemma ring_nonzero: "ring k ns \<Longrightarrow> n \<in> set ns \<Longrightarrow> n \<noteq> 0"
  using ringD(2) segment_nonzero by metis

lemma not_broken:
  assumes "\<not> broken k n"
  obtains m r where "nodes k n = Some m" "procs k (n_proc m) = Some r" "proc_at k n = Some r"
    "next_of k n = n_next m" "nproc k n = n_proc m" "state_at k n = Some (p_state r)"
    "pid_at k n = Some (p_pid r)"
  using assms
  by (auto simp: broken_def proc_at_def next_of_def nproc_def state_at_def pid_at_def
      split: option.splits)

lemma with_node_proc_simp [simp]:
  "nodes k p = Some n \<Longrightarrow> procs k (n_proc n) = Some r \<Longrightarrow> with_node_proc k p f = f (n_proc n) r"
  by (simp add: with_node_proc_def with_node_def with_proc_def)

section \<open>The walks on a ring\<close>

lemma segment_next_closed:
  "segment nx p xs q \<Longrightarrow> x \<in> set xs \<Longrightarrow> nx x \<in> set xs \<union> {q}"
  by (induction xs arbitrary: p) (auto, (metis list.set_intros(1) segment.elims(2))+)

lemma ring_next_closed: "ring k ns \<Longrightarrow> n \<in> set ns \<Longrightarrow> next_of k n \<in> set ns"
  using ringD(1,2) [of k ns] segment_next_closed [of "next_of k" "hd ns" ns "hd ns" n] by auto

lemma walk_dropWhile:
  assumes "segment nx p xs q" and "x \<in> set xs" "stop x"
  shows "walk stop nx p = Some (hd (dropWhile (\<lambda>y. \<not> stop y) xs))"
  using assms
proof (induction xs arbitrary: p)
  case Nil
  then show ?case by simp
next
  case (Cons y ys)
  show ?case
  proof (cases "stop y")
    case True
    with Cons.prems show ?thesis by simp
  next
    case False
    with Cons have "walk stop nx (nx y) = Some (hd (dropWhile (\<lambda>y. \<not> stop y) ys))" by auto
    with False Cons.prems show ?thesis by (simp add: walk.simps [of stop nx y])
  qed
qed

lemma find_Some_first:
  "find P xs = Some n \<Longrightarrow> n \<in> set xs \<and> P n \<and> n = hd (dropWhile (\<lambda>n. \<not> P n) xs)"
  by (induction xs) (auto split: if_splits)

lemma find_next_ready_ring:
  assumes "ring k (c # ms)"
  shows "find_next_ready c k =
    (if \<exists>n\<in>set (c # ms). can_run k n then Done (hd (dropWhile (\<lambda>n. \<not> can_run k n) (c # ms))) k else Loop)"
proof -
  let ?stop = "\<lambda>p. broken k p \<or> can_run k p" and ?ns = "c # ms"
  have nb: "\<not> broken k n" if "n \<in> set ?ns" for n using ringD(4) [OF assms that] .
  have seg: "segment (next_of k) c ?ns c" using ringD(2) [OF assms] by simp
  show ?thesis
  proof (cases "\<exists>n\<in>set ?ns. can_run k n")
    case True
    then obtain n where n: "n \<in> set ?ns" "can_run k n" by blast
    then have "walk ?stop (next_of k) c = Some (hd (dropWhile (\<lambda>y. \<not> ?stop y) ?ns))"
      using walk_dropWhile [OF seg n(1), of ?stop] by blast
    moreover have "dropWhile (\<lambda>y. \<not> ?stop y) ?ns = dropWhile (\<lambda>n. \<not> can_run k n) ?ns"
      using nb by (intro dropWhile_cong refl) blast
    moreover have "hd (dropWhile (\<lambda>n. \<not> can_run k n) ?ns) \<in> set ?ns"
      using n by (metis dropWhile_eq_Nil_conv hd_in_set set_dropWhileD)
    ultimately show ?thesis using True nb unfolding find_next_ready_def by simp
  next
    case False
    have "walk ?stop (next_of k) c = None"
    proof (rule ccontr)
      assume "walk ?stop (next_of k) c \<noteq> None"
      then obtain q where "walk ?stop (next_of k) c = Some q" by auto
      then have "?stop q \<and> q \<in> set ?ns"
        by (rule walk_result) (use ring_next_closed [OF assms] in auto)
      with False nb show False by blast
    qed
    with False show ?thesis by (simp add: find_next_ready_def)
  qed
qed

lemma find_node_ring:
  assumes "ring k ns" and "hd ns = first k"
  shows "find_node pid k =
    Done (case find (\<lambda>n. pid_at k n = Some pid) ns of None \<Rightarrow> 0 | Some n \<Rightarrow> n) k"
proof -
  from ringD(1) [OF assms(1)] assms(2) obtain ms where ns: "ns = first k # ms" by (cases ns) auto
  have nb: "\<not> broken k n" if "n \<in> set ns" for n using ringD(4) [OF assms(1) that] .
  have seg: "segment (next_of k) (next_of k (first k)) ms (first k)"
    using ringD(2) [OF assms(1)] ns by simp
  have nf: "first k \<notin> set ms" using ringD(3) [OF assms(1)] ns by simp
  show ?thesis
  proof (cases "pid_at k (first k) = Some pid")
    case True
    then show ?thesis using nb ns by (simp add: find_node_def)
  next
    case False
    let ?stop = "\<lambda>p. p = first k \<or> broken k p \<or> pid_at k p = Some pid"
    show ?thesis
    proof (cases "find (\<lambda>n. pid_at k n = Some pid) ms")
      case None
      then have "\<forall>x\<in>set ms. \<not> ?stop x" using nf nb ns by (auto simp: find_None_iff)
      from walk_segment [OF seg this]
      have "walk ?stop (next_of k) (next_of k (first k)) = Some (first k)" by simp
      with False None nb ns show ?thesis by (simp add: find_node_def)
    next
      case (Some n)
      have n: "n \<in> set ms" "pid_at k n = Some pid" "n = hd (dropWhile (\<lambda>n. pid_at k n \<noteq> Some pid) ms)"
        using find_Some_first [OF Some] by auto
      then have "walk ?stop (next_of k) (next_of k (first k)) = Some (hd (dropWhile (\<lambda>y. \<not> ?stop y) ms))"
        using walk_dropWhile [OF seg n(1), of ?stop] by blast
      moreover have "dropWhile (\<lambda>y. \<not> ?stop y) ms = dropWhile (\<lambda>n. pid_at k n \<noteq> Some pid) ms"
        using nb ns nf by (intro dropWhile_cong refl) auto
      ultimately have "walk ?stop (next_of k) (next_of k (first k)) = Some n" using n(3) by simp
      with False Some n nb ns nf show ?thesis by (auto simp: find_node_def)
    qed
  qed
qed

section \<open>A small ring\<close>

text \<open>The idle process (pid 0, running) and a blocked process with pid 1.\<close>

definition proc_ex :: "u64 \<Rightarrow> states \<Rightarrow> process" where
  "proc_ex pid st = \<lparr>p_name = 0, p_argv = 0, p_pid = pid, p_ppid = 0, p_sp = 0, p_bp = 0, p_state = st,
     p_stack = 0, p_read_fd = 0, p_write_fd = 1, p_priority = 5, p_children = 0, p_blocked_by_children = 0\<rparr>"

definition ring_ex :: kernel where
  "ring_ex = kernel_zero\<lparr>
     nodes := [0x100 \<mapsto> \<lparr>n_quantums = 5, n_proc = 0x180, n_next = 0x200\<rparr>,
       0x200 \<mapsto> \<lparr>n_quantums = 5, n_proc = 0x280, n_next = 0x100\<rparr>],
     procs := [0x180 \<mapsto> proc_ex 0 RUNNING, 0x280 \<mapsto> proc_ex 1 BLOCKED],
     first := 0x100, currentNode := 0x100, counter := 2\<rparr>"

lemma ring_ex_views:
  "proc_at ring_ex 0x100 = Some (proc_ex 0 RUNNING)" "proc_at ring_ex 0x200 = Some (proc_ex 1 BLOCKED)"
  "pid_at ring_ex 0x100 = Some 0" "pid_at ring_ex 0x200 = Some 1"
  "next_of ring_ex 0x100 = 0x200" "next_of ring_ex 0x200 = 0x100"
  "nproc ring_ex 0x100 = 0x180" "nproc ring_ex 0x200 = 0x280"
  "state_at ring_ex 0x100 = Some RUNNING" "state_at ring_ex 0x200 = Some BLOCKED"
  by (simp_all add: proc_at_def pid_at_def next_of_def nproc_def state_at_def ring_ex_def proc_ex_def)

lemma ring_ex_ring: "ring ring_ex [0x100, 0x200]"
  by (simp add: ring_def ring_ex_views broken_def)

end
