(* ===== verification/Semaphore.thy ===== *)
theory Semaphore
  imports Scheduler_Ring
begin

text \<open>
  The named semaphores of \<open>Kernel/semaphore.c\<close>: a table of 256 entries, opened and closed
  by name, with a spin lock, a value and a queue of the processes that found it at 0.
\<close>

definition MAX_SEMS :: nat where "MAX_SEMS = 256"
definition MAX_PROC :: nat where "MAX_PROC = 50"
definition NAME_CHAR_LIMIT :: nat where "NAME_CHAR_LIMIT = 1024"

section \<open>The table\<close>

text \<open>An odd id marks an entry in use.\<close>

definition is_in_use :: "int \<Rightarrow> bool" where
  "is_in_use i \<longleftrightarrow> i mod 2 \<noteq> 0"

text \<open>The first index of the table that satisfies \<open>P\<close>; \<open>None\<close> is \<open>OUT_OF_BOUNDS\<close>.\<close>

definition first_sem :: "(sem_ts \<Rightarrow> bool) \<Rightarrow> kernel \<Rightarrow> nat option" where
  "first_sem P k = find (\<lambda>i. P (semaphores k ! i)) [0..<MAX_SEMS]"

definition get_sem_by_name :: "cstring \<Rightarrow> kernel \<Rightarrow> nat option" where
  "get_sem_by_name name k = first_sem (\<lambda>s. sem_name s = name \<and> is_in_use (sem_id s)) k"

definition get_new_sem :: "kernel \<Rightarrow> nat option" where
  "get_new_sem k = first_sem (\<lambda>s. \<not> is_in_use (sem_id s)) k"

definition upd_sem :: "nat \<Rightarrow> (sem_ts \<Rightarrow> sem_ts) \<Rightarrow> kernel \<Rightarrow> kernel" where
  "upd_sem i f k = k\<lparr>semaphores := (semaphores k)[i := f (semaphores k ! i)]\<rparr>"

text \<open>
  \<open>sem_init\<close> returns \<open>SUCCESS_SIGNAL\<close> (0), not the index. A name that does not fit the
  array runs over the fields that follow it.
\<close>

definition sem_init :: "cstring \<Rightarrow> i32 \<Rightarrow> kernel \<Rightarrow> int res" where
  "sem_init name value k =
     (case get_new_sem k of
        None \<Rightarrow> Done (- 1) k
      | Some idx \<Rightarrow>
          if length name \<ge> NAME_CHAR_LIMIT then Fault
          else Done 0 (upd_sem idx (\<lambda>s. s\<lparr>sem_id := int idx * 2 + 1, open_count := 0,
            sem_value := scast value, blocked_first := 0, blocked_last := 0, sem_lock := 0,
            sem_name := name, blocked_processes := replicate MAX_PROC (- 1)\<rparr>) k))"

definition sem_open :: "cstring \<Rightarrow> i32 \<Rightarrow> kernel \<Rightarrow> int res" where
  "sem_open name value k =
     bind (case get_sem_by_name name k of Some i \<Rightarrow> Done (int i) k | None \<Rightarrow> sem_init name value k)
       (\<lambda>idx k. if idx = - 1 then Done (- 1) k
         else atomic_inc (open_count (semaphores k ! nat idx)) (\<lambda>c.
           Done 0 (upd_sem (nat idx) (\<lambda>s. s\<lparr>open_count := c\<rparr>) k)))"

definition sem_close :: "cstring \<Rightarrow> kernel \<Rightarrow> int res" where
  "sem_close name k =
     (case get_sem_by_name name k of
        None \<Rightarrow> Done (- 1) k
      | Some idx \<Rightarrow>
          let c = open_count (semaphores k ! idx) - 1;
              k = upd_sem idx (\<lambda>s. s\<lparr>open_count := c\<rparr>) k
          in Done 0 (if sint (ucast c :: i32) < 1
            then upd_sem idx (\<lambda>s. s\<lparr>sem_id := 2 * int idx, sem_name := []\<rparr>) k else k))"

text \<open>The caller's buffer is an argument, and part of the result.\<close>

definition get_sem_info :: "int \<Rightarrow> sem_ts \<Rightarrow> kernel \<Rightarrow> (int \<times> sem_ts) res" where
  "get_sem_info idx buffer k =
     (if idx < 0 \<or> idx \<ge> int MAX_SEMS then Done (- 1, buffer) k
      else
        let s = semaphores k ! nat idx; n = unat (open_count s) in
        if n > MAX_PROC then Fault
        else Done (0, buffer\<lparr>sem_id := sem_id s, sem_name := sem_name s, sem_value := sem_value s,
          blocked_processes := take n (blocked_processes s) @ drop n (blocked_processes buffer),
          open_count := open_count buffer + open_count s\<rparr>) k)"

definition get_sem_count :: "kernel \<Rightarrow> nat" where
  "get_sem_count k = length (filter (\<lambda>i. is_in_use (sem_id (semaphores k ! i))) [0..<MAX_SEMS])"

section \<open>Waiting\<close>

text \<open>
  The macro \<open>cond\<close>: exchange the lock with 1; if it was free, keep it when the value is
  positive and release it otherwise.
\<close>

definition sem_cond :: "nat \<Rightarrow> kernel \<Rightarrow> bool \<times> kernel" where
  "sem_cond i k =
     (if sem_lock (semaphores k ! i) \<noteq> 0 then (False, upd_sem i (\<lambda>s. s\<lparr>sem_lock := 1\<rparr>) k)
      else if sem_value (semaphores k ! i) > 0 then (True, upd_sem i (\<lambda>s. s\<lparr>sem_lock := 1\<rparr>) k)
      else (False, upd_sem i (\<lambda>s. s\<lparr>sem_lock := 0\<rparr>) k))"

definition enqueue_waiter :: "nat \<Rightarrow> u64 \<Rightarrow> kernel \<Rightarrow> kernel" where
  "enqueue_waiter i pid k =
     upd_sem i (\<lambda>s. s\<lparr>blocked_processes := (blocked_processes s)[unat (blocked_last s) mod MAX_PROC := pid],
       blocked_last := blocked_last s + 1\<rparr>) k"

definition dequeue_last :: "nat \<Rightarrow> kernel \<Rightarrow> kernel" where
  "dequeue_last i k =
     upd_sem i (\<lambda>s. if blocked_last s - blocked_first s > 0
       then s\<lparr>blocked_last := blocked_last s - 1\<rparr> else s) k"

text \<open>A pid that went through an \<open>int\<close>.\<close>

definition int_pid :: "u64 \<Rightarrow> u64" where
  "int_pid p = scast (ucast p :: i32)"

text \<open>
  One turn of the sleeping loop, from the test of \<open>cond\<close> to the call of
  \<open>_force_scheduler\<close>: whether the semaphore was taken.
\<close>

definition sem_pass :: "nat \<Rightarrow> kernel \<Rightarrow> bool res" where
  "sem_pass i k =
     (let (taken, k) = sem_cond i k in
      if taken then Done True k
      else
        bind (get_running_pid k) (\<lambda>p k.
        bind (scheduler_disable k) (\<lambda>_ k.
          let pid = int_pid p; (taken, k) = sem_cond i (enqueue_waiter i pid k) in
          if taken
          then bind (ready_process pid (dequeue_last i k)) (\<lambda>_ k.
               bind (scheduler_enable k) (\<lambda>_ k. Done True k))
          else bind (scheduler_enable k) (\<lambda>_ k. Done False k))))"

definition sem_take :: "nat \<Rightarrow> kernel \<Rightarrow> kernel" where
  "sem_take i k = upd_sem i (\<lambda>s. s\<lparr>sem_value := sem_value s - 1, sem_lock := 0\<rparr>) k"

text \<open>A turn gives up the processor only at its end (\<open>sem_pass_returns\<close>), so the last case is idle.\<close>

primcorec sem_loop :: "nat \<Rightarrow> kernel \<Rightarrow> int res" where
  "sem_loop i k =
     (case sem_pass i k of
        Fault \<Rightarrow> Fault
      | Loop \<Rightarrow> Loop
      | Done taken k' \<Rightarrow>
          if taken then Done 0 (sem_take i k') else Resched k' (\<lambda>k''. sem_loop i k'')
      | Resched _ _ \<Rightarrow> Fault)"

definition sem_wait :: "cstring \<Rightarrow> kernel \<Rightarrow> int res" where
  "sem_wait name k =
     (case get_sem_by_name name k of None \<Rightarrow> Done (- 1) k | Some idx \<Rightarrow> sem_loop idx k)"

section \<open>Posting\<close>

definition update_sem_processes :: "nat \<Rightarrow> kernel \<Rightarrow> unit res" where
  "update_sem_processes i k =
     (let s = semaphores k ! i; idx = blocked_first s in
      if blocked_last s - idx > 0
      then bind (ready_process (int_pid (blocked_processes s ! (unat idx mod MAX_PROC)))
             (upd_sem i (\<lambda>s. s\<lparr>blocked_first := idx + 1\<rparr>) k)) (\<lambda>_ k. Done () k)
      else Done () k)"

definition sem_post :: "cstring \<Rightarrow> kernel \<Rightarrow> int res" where
  "sem_post name k =
     (case get_sem_by_name name k of
        None \<Rightarrow> Done (- 1) k
      | Some idx \<Rightarrow>
          bind (scheduler_disable k) (\<lambda>_ k.
          bind (update_sem_processes idx (upd_sem idx (\<lambda>s. s\<lparr>sem_value := sem_value s + 1\<rparr>) k)) (\<lambda>_ k.
          bind (scheduler_enable k) (\<lambda>_ k. Done 0 k))))"

section \<open>Turns end\<close>

text \<open>A result that did not give up the processor.\<close>

definition settled :: "'a res \<Rightarrow> bool" where
  "settled m \<longleftrightarrow> (case m of Resched _ _ \<Rightarrow> False | _ \<Rightarrow> True)"

lemma settled_simps [simp]:
  "settled Fault" "settled Loop" "settled (Done a k)" "\<not> settled (Resched k c)"
  by (simp_all add: settled_def)

lemma settled_bind: "settled m \<Longrightarrow> (\<And>a k. settled (f a k)) \<Longrightarrow> settled (bind m f)"
  by (cases m) auto

lemma settled_atomic_inc: "(\<And>c. settled (f c)) \<Longrightarrow> settled (atomic_inc c f)"
  by (simp add: atomic_inc_def)

lemma settled_ops [simp]:
  "settled (find_node pid k)" "settled (get_running_pid k)"
  "settled (scheduler_disable k)" "settled (scheduler_enable k)" "settled (ready_process pid k)"
proof -
  show f: "settled (find_node pid k)" for pid k
    by (auto simp: find_node_def split: option.split)
  show "settled (get_running_pid k)" "settled (scheduler_disable k)" "settled (scheduler_enable k)"
    by (auto simp: get_running_pid_def with_node_proc_def with_node_def with_proc_def
        scheduler_disable_def scheduler_enable_def atomic_inc_def split: option.split)
  show "settled (ready_process pid k)"
    by (auto simp: ready_process_def with_node_proc_def with_node_def with_proc_def
        intro!: settled_bind f split: option.split)
qed

lemma sem_pass_returns: "settled (sem_pass i k)"
  by (auto simp: sem_pass_def Let_def split: prod.split intro!: settled_bind)

lemma sem_loop_taken:
  "sem_pass i k = Done True k' \<Longrightarrow> sem_loop i k = Done 0 (sem_take i k')"
  by (subst sem_loop.code) simp

lemma sem_loop_sleeps:
  "sem_pass i k = Done False k' \<Longrightarrow> sem_loop i k = Resched k' (sem_loop i)"
  by (subst sem_loop.code) simp

end
