(* ===== verification/Semaphore_Laws.thy ===== *)
theory Semaphore_Laws
  imports Semaphore
begin

text \<open>
  Lemmas on the semaphore table: what an update leaves alone, the table invariant, lookups by
  name, and the effect of one turn of \<open>sem_wait\<close> and of \<open>sem_post\<close>.
\<close>

section \<open>What updates leave alone\<close>

lemma upd_sem_fields [simp]:
  "nodes (upd_sem i f k) = nodes k" "procs (upd_sem i f k) = procs k"
  "first (upd_sem i f k) = first k" "currentNode (upd_sem i f k) = currentNode k"
  "disable_count (upd_sem i f k) = disable_count k" "block_count (upd_sem i f k) = block_count k"
  "mm (upd_sem i f k) = mm k" "pipes (upd_sem i f k) = pipes k" "counter (upd_sem i f k) = counter k"
  "foreground (upd_sem i f k) = foreground k" "background (upd_sem i f k) = background k"
  "length (semaphores (upd_sem i f k)) = length (semaphores k)"
  by (simp_all add: upd_sem_def)

lemma upd_sem_nth [simp]:
  "semaphores (upd_sem i f k) ! j =
    (if i = j \<and> j < length (semaphores k) then f (semaphores k ! i) else semaphores k ! j)"
  by (cases "i = j"; cases "i < length (semaphores k)") (auto simp: upd_sem_def list_update_beyond)

lemma upd_sem_comp [simp]: "upd_sem i f (upd_sem i g k) = upd_sem i (\<lambda>s. f (g s)) k"
  by (cases "i < length (semaphores k)") (simp_all add: upd_sem_def list_update_beyond)

lemma upd_sem_same: "f (semaphores k ! i) = semaphores k ! i \<Longrightarrow> upd_sem i f k = k"
  by (simp add: upd_sem_def)

lemma upd_sem_cong:
  "f (semaphores k ! i) = g (semaphores k ! i) \<Longrightarrow> upd_sem i f k = upd_sem i g k"
  by (simp add: upd_sem_def)

text \<open>What the ring shows depends on the nodes and the processes only.\<close>

lemma view_cong:
  assumes "nodes k' = nodes k" and "procs k' = procs k"
  shows "proc_at k' = proc_at k" "next_of k' = next_of k" "nproc k' = nproc k"
    "broken k' = broken k" "state_at k' = state_at k" "pid_at k' = pid_at k"
    "can_run k' = can_run k" "ring k' ns = ring k ns"
proof -
  show a: "proc_at k' = proc_at k" "next_of k' = next_of k" "nproc k' = nproc k"
    unfolding proc_at_def [abs_def] next_of_def [abs_def] nproc_def [abs_def] assms by simp_all
  then show b: "broken k' = broken k" "state_at k' = state_at k" "pid_at k' = pid_at k"
    by (auto simp: fun_eq_iff broken_def state_at_def pid_at_def)
  then show "can_run k' = can_run k" by (auto simp: fun_eq_iff can_run_def)
  show "ring k' ns = ring k ns" using a b by (simp add: ring_def)
qed

section \<open>The table\<close>

text \<open>
  The invariant of the table: 256 entries, each with its own id, odd when in use; the names
  of the entries in use are distinct.
\<close>

definition sem_table :: "kernel \<Rightarrow> bool" where
  "sem_table k \<longleftrightarrow> length (semaphores k) = MAX_SEMS \<and>
     (\<forall>i<MAX_SEMS. length (blocked_processes (semaphores k ! i)) = MAX_PROC \<or> \<not> is_in_use (sem_id (semaphores k ! i))) \<and>
     (\<forall>i<MAX_SEMS. \<forall>j<MAX_SEMS. is_in_use (sem_id (semaphores k ! i)) \<longrightarrow> is_in_use (sem_id (semaphores k ! j)) \<longrightarrow>
        sem_name (semaphores k ! i) = sem_name (semaphores k ! j) \<longrightarrow> i = j)"

lemma first_sem_Some: "first_sem P k = Some i \<Longrightarrow> i < MAX_SEMS \<and> P (semaphores k ! i)"
  by (auto simp: first_sem_def find_Some_iff)

lemma first_sem_None: "first_sem P k = None \<longleftrightarrow> (\<forall>i<MAX_SEMS. \<not> P (semaphores k ! i))"
  by (auto simp: first_sem_def find_None_iff)

lemma is_in_use_ids [simp]: "is_in_use (int i * 2 + 1)" "is_in_use (2 * int i + 1)" "\<not> is_in_use (2 * int i)"
  by (simp_all add: is_in_use_def mod_add_left_eq [symmetric])

lemma get_sem_by_name_unique:
  assumes "sem_table k" and "i < MAX_SEMS" "is_in_use (sem_id (semaphores k ! i))" "sem_name (semaphores k ! i) = nm"
  shows "get_sem_by_name nm k = Some i"
proof -
  have "get_sem_by_name nm k \<noteq> None"
    using assms by (auto simp: get_sem_by_name_def first_sem_None)
  then obtain j where j: "get_sem_by_name nm k = Some j" by auto
  then have "j < MAX_SEMS \<and> sem_name (semaphores k ! j) = nm \<and> is_in_use (sem_id (semaphores k ! j))"
    unfolding get_sem_by_name_def by (rule first_sem_Some)
  with assms j show ?thesis by (auto simp: sem_table_def)
qed

lemma get_sem_by_nameD:
  assumes "get_sem_by_name nm k = Some i"
  shows "i < MAX_SEMS" "sem_name (semaphores k ! i) = nm" "is_in_use (sem_id (semaphores k ! i))"
  using first_sem_Some [OF assms [unfolded get_sem_by_name_def]] by auto

text \<open>A lookup sees names and ids only.\<close>

lemma lookup_cong:
  assumes "\<And>j. sem_name (semaphores k' ! j) = sem_name (semaphores k ! j)"
    and "\<And>j. sem_id (semaphores k' ! j) = sem_id (semaphores k ! j)"
  shows "get_sem_by_name nm k' = get_sem_by_name nm k"
  by (simp add: get_sem_by_name_def first_sem_def assms)

section \<open>One turn of \<open>sem_wait\<close>\<close>

definition current_pid :: "kernel \<Rightarrow> u64 option" where
  "current_pid k = (if currentNode k = 0 then Some 0 else pid_at k (currentNode k))"

lemma get_running_pid_current: "current_pid k = Some p \<Longrightarrow> get_running_pid k = Done p k"
  by (auto simp: current_pid_def get_running_pid_def pid_at_def proc_at_def with_node_proc_def
      with_node_def with_proc_def split: if_splits option.splits)

definition lock_room :: "kernel \<Rightarrow> bool" where
  "lock_room k \<longleftrightarrow> disable_count k < 0x7FFFFFFF"

lemma atomic_inc_small: "c < 0x7FFFFFFF \<Longrightarrow> atomic_inc c f = f (c + 1)"
  using scast_ucast_small [of c] by (auto simp: atomic_inc_def word_less_nat_alt)

lemma disable_enable:
  assumes "lock_room k"
  shows "scheduler_disable k = Done () (k\<lparr>disable_count := disable_count k + 1\<rparr>)"
    and "scheduler_enable (k'\<lparr>disable_count := disable_count k + 1\<rparr>) =
      Done () (k'\<lparr>disable_count := disable_count k\<rparr>)"
proof -
  have "disable_count k + 1 \<noteq> 0"
    using assms by (auto simp: lock_room_def word_less_nat_alt dest!: arg_cong [where f = unat] simp: unat_plus)
  then show "scheduler_enable (k'\<lparr>disable_count := disable_count k + 1\<rparr>) =
      Done () (k'\<lparr>disable_count := disable_count k\<rparr>)"
    by (simp add: scheduler_enable_def word_gt_0)
  show "scheduler_disable k = Done () (k\<lparr>disable_count := disable_count k + 1\<rparr>)"
    using assms by (simp add: scheduler_disable_def atomic_inc_small lock_room_def)
qed

lemma sem_pass_free:
  assumes "sem_lock (semaphores k ! i) = 0" and "sem_value (semaphores k ! i) > 0"
  shows "sem_loop i k = Done 0 (upd_sem i (\<lambda>s. s\<lparr>sem_value := sem_value s - 1, sem_lock := 0\<rparr>) k)"
proof -
  have "sem_pass i k = Done True (upd_sem i (\<lambda>s. s\<lparr>sem_lock := 1\<rparr>) k)"
    using assms by (simp add: sem_pass_def sem_cond_def)
  then show ?thesis by (simp add: sem_loop_taken sem_take_def)
qed

lemma sem_wait_free:
  assumes "get_sem_by_name nm k = Some i" and "sem_lock (semaphores k ! i) = 0"
    and "sem_value (semaphores k ! i) > 0"
  shows "sem_wait nm k = Done 0 (upd_sem i (\<lambda>s. s\<lparr>sem_value := sem_value s - 1, sem_lock := 0\<rparr>) k)"
  using assms sem_pass_free by (simp add: sem_wait_def)

lemma lock_same: "sem_lock s = 0 \<Longrightarrow> s\<lparr>sem_lock := 0\<rparr> = s"
  by (cases s) simp

lemma sem_pass_waits:
  assumes "i < length (semaphores k)" and "current_pid k = Some p" and "lock_room k"
    and "sem_lock (semaphores k ! i) = 0" and "sem_value (semaphores k ! i) = 0"
  shows "sem_pass i k = Done False (enqueue_waiter i (int_pid p) k)"
proof -
  have same: "upd_sem i (\<lambda>s. s\<lparr>sem_lock := 0\<rparr>) k = k"
    using assms(4) by (intro upd_sem_same) simp
  let ?k1 = "k\<lparr>disable_count := disable_count k + 1\<rparr>"
  let ?e = "enqueue_waiter i (int_pid p) ?k1"
  have c: "sem_cond i ?e = (False, ?e)"
  proof -
    have l: "sem_lock (semaphores ?e ! i) = 0" "sem_value (semaphores ?e ! i) = 0"
      using assms by (simp_all add: enqueue_waiter_def)
    have "upd_sem i (\<lambda>s. s\<lparr>sem_lock := 0\<rparr>) ?e = ?e"
      by (rule upd_sem_same, rule lock_same) (rule l)
    with l show ?thesis by (simp add: sem_cond_def)
  qed
  have e: "?e = (enqueue_waiter i (int_pid p) k)\<lparr>disable_count := disable_count k + 1\<rparr>"
    by (simp add: enqueue_waiter_def upd_sem_def)
  have "sem_cond i k = (False, k)" using assms(4,5) same by (simp add: sem_cond_def)
  then have "sem_pass i k = bind (scheduler_enable ?e) (\<lambda>_ k. Done False k)"
    using c disable_enable(1) [OF assms(3)] get_running_pid_current [OF assms(2)]
    by (simp add: sem_pass_def)
  then show ?thesis
    unfolding e disable_enable(2) [OF assms(3)] by (simp add: enqueue_waiter_def upd_sem_def)
qed

section \<open>Readying a process, and \<open>sem_post\<close>\<close>

definition ready_at :: "kernel \<Rightarrow> u64 \<Rightarrow> kernel" where
  "ready_at k n = (set_state k (nproc k n) READY)\<lparr>block_count := block_count k - 1\<rparr>"

definition node_of :: "kernel \<Rightarrow> u64 list \<Rightarrow> u64 \<Rightarrow> u64 option" where
  "node_of k ns pid = find (\<lambda>n. pid_at k n = Some pid) ns"

lemma node_of_Some: "node_of k ns pid = Some n \<Longrightarrow> n \<in> set ns \<and> pid_at k n = Some pid"
  unfolding node_of_def using find_Some_first by fastforce

lemma ready_process_ring:
  assumes "ring k ns" and "hd ns = first k"
  shows "ready_process pid k =
    (case node_of k ns pid of None \<Rightarrow> Done (- 1) k | Some n \<Rightarrow> Done pid (ready_at k n))"
proof (cases "node_of k ns pid")
  case None
  then show ?thesis using find_node_ring [OF assms, of pid]
    by (simp add: ready_process_def node_of_def)
next
  case (Some n)
  then have n: "n \<in> set ns" "pid_at k n = Some pid" using node_of_Some by blast+
  from ringD(4) [OF assms(1) n(1)] obtain m r where m: "nodes k n = Some m"
    "procs k (n_proc m) = Some r" "nproc k n = n_proc m" "pid_at k n = Some (p_pid r)"
    by (rule not_broken)
  have "n \<noteq> 0" by (rule ring_nonzero [OF assms(1) n(1)])
  then show ?thesis using find_node_ring [OF assms, of pid] Some m n(2)
    by (simp add: ready_process_def node_of_def ready_at_def)
qed

lemma view_upd_proc [simp]:
  "nodes (upd_proc k p f) = nodes k" "next_of (upd_proc k p f) = next_of k"
  "nproc (upd_proc k p f) = nproc k" "first (upd_proc k p f) = first k"
  "currentNode (upd_proc k p f) = currentNode k" "semaphores (upd_proc k p f) = semaphores k"
  "disable_count (upd_proc k p f) = disable_count k"
  by (auto simp: upd_proc_def next_of_def nproc_def fun_eq_iff)

lemma proc_at_upd_proc:
  "proc_at (upd_proc k p f) n = (if nproc k n = p then map_option f (proc_at k n) else proc_at k n)"
  by (auto simp: upd_proc_def proc_at_def nproc_def split: option.splits)

lemma broken_upd_proc [simp]: "broken (upd_proc k p f) = broken k"
  by (auto simp: fun_eq_iff broken_def proc_at_upd_proc)

lemma ring_upd_proc [simp]: "ring (upd_proc k p f) ns = ring k ns"
  by (simp add: ring_def)

lemma ready_at_fields [simp]:
  "nodes (ready_at k n) = nodes k" "first (ready_at k n) = first k"
  "currentNode (ready_at k n) = currentNode k" "semaphores (ready_at k n) = semaphores k"
  "disable_count (ready_at k n) = disable_count k" "block_count (ready_at k n) = block_count k - 1"
  "procs (ready_at k n) = procs (set_state k (nproc k n) READY)"
  by (simp_all add: ready_at_def set_state_def)

lemma state_at_set_state:
  "state_at (set_state k p st) m = (if nproc k m = p \<and> \<not> broken k m then Some st else state_at k m)"
  by (auto simp: set_state_def state_at_def proc_at_upd_proc broken_def option.map_comp comp_def
      split: option.split)

text \<open>What one \<open>sem_post\<close> does: one more unit, and the head of the queue is made READY.\<close>

definition posted :: "nat \<Rightarrow> u64 list \<Rightarrow> kernel \<Rightarrow> kernel" where
  "posted i ns k =
     (let s = semaphores k ! i in
      if blocked_last s = blocked_first s then upd_sem i (\<lambda>s. s\<lparr>sem_value := sem_value s + 1\<rparr>) k
      else
        let k' = upd_sem i (\<lambda>s. s\<lparr>sem_value := sem_value s + 1, blocked_first := blocked_first s + 1\<rparr>) k
        in case node_of k ns (int_pid (blocked_processes s ! (unat (blocked_first s) mod MAX_PROC))) of
             None \<Rightarrow> k' | Some n \<Rightarrow> ready_at k' n)"

lemma sem_post_ring:
  assumes "get_sem_by_name nm k = Some i" and "i < length (semaphores k)" and "lock_room k"
    and "ring k ns" and "hd ns = first k"
  shows "sem_post nm k = Done 0 (posted i ns k)"
proof -
  let ?d = "disable_count k + 1"
  let ?k1 = "k\<lparr>disable_count := ?d\<rparr>"
  let ?v = "upd_sem i (\<lambda>s. s\<lparr>sem_value := sem_value s + 1\<rparr>) ?k1"
  let ?s = "semaphores k ! i"
  have "update_sem_processes i ?v = Done () ((posted i ns k)\<lparr>disable_count := ?d\<rparr>)"
  proof (cases "blocked_last ?s = blocked_first ?s")
    case True
    then show ?thesis using assms(2)
      by (simp add: update_sem_processes_def posted_def upd_sem_def Let_def)
  next
    case False
    let ?pid = "int_pid (blocked_processes ?s ! (unat (blocked_first ?s) mod MAX_PROC))"
    let ?w = "upd_sem i (\<lambda>s. s\<lparr>sem_value := sem_value s + 1, blocked_first := blocked_first s + 1\<rparr>) ?k1"
    have v: "nodes ?w = nodes k" "procs ?w = procs k" by simp_all
    have r: "ring ?w ns" "hd ns = first ?w" using assms(4,5) view_cong(8) [OF v] by simp_all
    have n: "node_of ?w ns ?pid = node_of k ns ?pid" by (simp add: node_of_def view_cong(6) [OF v])
    have "update_sem_processes i ?v = bind (ready_process ?pid ?w) (\<lambda>_ k. Done () k)"
      using False assms(2) unfolding update_sem_processes_def
      by (simp add: word_gt_0 Let_def) (simp add: upd_sem_def)
    then show ?thesis
      unfolding ready_process_ring [OF r] n using False assms(2)
      by (simp add: posted_def Let_def ready_at_def set_state_def upd_proc_def upd_sem_def nproc_def
          split: option.split)
  qed
  moreover have "(posted i ns k)\<lparr>disable_count := disable_count k\<rparr> = posted i ns k"
    by (simp add: posted_def Let_def ready_at_def set_state_def upd_proc_def upd_sem_def
        split: option.split)
  ultimately show ?thesis
    using assms(1) disable_enable [OF assms(3)] by (simp add: sem_post_def)
qed

text \<open>A post that undoes a wait: the table is as it was before.\<close>

lemma leave_sem:
  assumes "get_sem_by_name nm k = Some s" and "s < length (semaphores k)" and "lock_room k"
    and "ring k ns" and "hd ns = first k" and "semaphores k = (semaphores k0)[s := (semaphores k0 ! s)
      \<lparr>sem_value := sem_value (semaphores k0 ! s) - 1, sem_lock := 0\<rparr>]"
    and "sem_lock (semaphores k0 ! s) = 0"
    and "blocked_first (semaphores k0 ! s) = blocked_last (semaphores k0 ! s)"
  shows "sem_post nm k = Done 0 (k\<lparr>semaphores := semaphores k0\<rparr>)"
proof -
  have "sem_post nm k = Done 0 (posted s ns k)" by (rule sem_post_ring [OF assms(1-5)])
  moreover have "semaphores k ! s = (semaphores k0 ! s)
      \<lparr>sem_value := sem_value (semaphores k0 ! s) - 1, sem_lock := 0\<rparr>"
    using assms(2,6) by simp
  moreover have "(semaphores k0 ! s)\<lparr>sem_value := sem_value (semaphores k0 ! s) - 1 + 1, sem_lock := 0\<rparr> = semaphores k0 ! s"
    using assms(7) by (cases "semaphores k0 ! s") simp
  ultimately show ?thesis
    using assms(6,8) by (simp add: posted_def Let_def upd_sem_def)
qed

end
