(* ===== verification/Semaphore_Properties.thy ===== *)
theory Semaphore_Properties
  imports Semaphore_Laws
begin

text \<open>
  The properties of \<open>Kernel/semaphore.c\<close>: a semaphore as a state machine whose critical
  section never holds more processes than its initial value, the table of names, and the
  behaviour of the wait queue.
\<close>

section \<open>A semaphore as a state machine\<close>

text \<open>
  Processes act on semaphore \<open>i\<close> one kernel call at a time; \<open>h\<close> counts those that took it
  and have not posted yet. A call of \<open>sem_wait\<close>, or a sleeper that is resumed, runs
  \<open>sem_loop\<close>; between calls the rest of the kernel may do anything that leaves entry
  \<open>i\<close> of the table alone.
\<close>

inductive sem_step :: "nat \<Rightarrow> kernel \<times> nat \<Rightarrow> kernel \<times> nat \<Rightarrow> bool" for i :: nat where
  enter: "sem_loop i k = Done r k' \<Longrightarrow> sem_step i (k, h) (k', h + 1)"
| sleep: "sem_loop i k = Resched k' c \<Longrightarrow> sem_step i (k, h) (k', h)"
| leave: "get_sem_by_name nm k = Some i \<Longrightarrow> sem_post nm k = Done r k' \<Longrightarrow> sem_step i (k, h + 1) (k', h)"
| other: "semaphores k' ! i = semaphores k ! i \<Longrightarrow> length (semaphores k') = length (semaphores k) \<Longrightarrow>
    sem_step i (k, h) (k', h)"

inductive_cases sem_stepE: "sem_step i (k, h) (k', h')"

text \<open>The lock is free between calls, and units in the semaphore plus holders make up \<open>v\<close>.\<close>

definition sem_conserved :: "nat \<Rightarrow> nat \<Rightarrow> kernel \<times> nat \<Rightarrow> bool" where
  "sem_conserved i v w \<longleftrightarrow>
     i < length (semaphores (fst w)) \<and> sem_lock (semaphores (fst w) ! i) = 0 \<and>
     unat (sem_value (semaphores (fst w) ! i)) + snd w = v"

lemma ready_process_semaphores:
  "ready_process pid k = Done r k' \<Longrightarrow> semaphores k' = semaphores k"
  by (auto simp: ready_process_def find_node_def with_node_proc_def with_node_def with_proc_def
      set_state_def split: if_splits option.splits)

lemma scheduler_lock_semaphores:
  "scheduler_disable k = Done u k' \<Longrightarrow> semaphores k' = semaphores k"
  "scheduler_enable k = Done u k' \<Longrightarrow> semaphores k' = semaphores k"
  "get_running_pid k = Done p k' \<Longrightarrow> semaphores k' = semaphores k"
  by (auto simp: scheduler_disable_def scheduler_enable_def atomic_inc_def get_running_pid_def
      with_node_proc_def with_node_def with_proc_def split: if_splits option.splits)

lemma bind_DoneE:
  assumes "bind m f = Done b k'" and "settled m"
  obtains a k where "m = Done a k" "f a k = Done b k'"
  using assms by (cases m) auto

text \<open>The two results of a turn on a free lock.\<close>

lemma sem_pass_cases:
  assumes "sem_lock (semaphores k ! i) = 0" and "i < length (semaphores k)"
    and "sem_pass i k = Done taken k'"
  shows "if sem_value (semaphores k ! i) > 0
    then taken \<and> k' = upd_sem i (\<lambda>s. s\<lparr>sem_lock := 1\<rparr>) k
    else \<not> taken \<and> length (semaphores k') = length (semaphores k) \<and>
      sem_lock (semaphores k' ! i) = 0 \<and> sem_value (semaphores k' ! i) = 0"
proof (cases "sem_value (semaphores k ! i) > 0")
  case True
  with assms show ?thesis by (auto simp: sem_pass_def sem_cond_def)
next
  case False
  let ?k0 = "upd_sem i (\<lambda>s. s\<lparr>sem_lock := 0\<rparr>) k"
  have v: "sem_value (semaphores k ! i) = 0" using False by (simp add: word_gt_0)
  have "sem_cond i k = (False, ?k0)" using assms(1) False by (simp add: sem_cond_def)
  with assms(3) have "bind (get_running_pid ?k0) (\<lambda>p k. bind (scheduler_disable k) (\<lambda>_ k.
      let pid = int_pid p; (taken, k) = sem_cond i (enqueue_waiter i pid k) in
      if taken then bind (ready_process pid (dequeue_last i k)) (\<lambda>_ k. bind (scheduler_enable k) (\<lambda>_ k. Done True k))
      else bind (scheduler_enable k) (\<lambda>_ k. Done False k))) = Done taken k'"
    by (simp add: sem_pass_def)
  then obtain p k1 where p: "get_running_pid ?k0 = Done p k1" and
    1: "bind (scheduler_disable k1) (\<lambda>_ k.
      let pid = int_pid p; (taken, k) = sem_cond i (enqueue_waiter i pid k) in
      if taken then bind (ready_process pid (dequeue_last i k)) (\<lambda>_ k. bind (scheduler_enable k) (\<lambda>_ k. Done True k))
      else bind (scheduler_enable k) (\<lambda>_ k. Done False k)) = Done taken k'"
    by (rule bind_DoneE) simp_all
  from 1 obtain u k2 where d: "scheduler_disable k1 = Done u k2" and
    2: "(let pid = int_pid p; (taken, k) = sem_cond i (enqueue_waiter i pid k2) in
      if taken then bind (ready_process pid (dequeue_last i k)) (\<lambda>_ k. bind (scheduler_enable k) (\<lambda>_ k. Done True k))
      else bind (scheduler_enable k) (\<lambda>_ k. Done False k)) = Done taken k'"
    by (rule bind_DoneE) simp_all
  have s2: "semaphores k2 = semaphores ?k0"
    using scheduler_lock_semaphores(1) [OF d] scheduler_lock_semaphores(3) [OF p] by simp
  let ?e = "enqueue_waiter i (int_pid p) k2"
  have e: "sem_lock (semaphores ?e ! i) = 0" "sem_value (semaphores ?e ! i) = 0"
    "length (semaphores ?e) = length (semaphores k)"
    using s2 v assms(2) by (simp_all add: enqueue_waiter_def)
  then have "sem_cond i ?e = (False, upd_sem i (\<lambda>s. s\<lparr>sem_lock := 0\<rparr>) ?e)"
    by (simp add: sem_cond_def)
  with 2 have "bind (scheduler_enable (upd_sem i (\<lambda>s. s\<lparr>sem_lock := 0\<rparr>) ?e)) (\<lambda>_ k. Done False k) = Done taken k'"
    by simp
  then have "\<not> taken \<and> semaphores k' = semaphores (upd_sem i (\<lambda>s. s\<lparr>sem_lock := 0\<rparr>) ?e)"
    using scheduler_lock_semaphores(2) by (auto elim!: bind_DoneE)
  with False e assms(2) show ?thesis by simp
qed

lemma sem_loop_cases:
  assumes "sem_lock (semaphores k ! i) = 0" and "i < length (semaphores k)"
  obtains "sem_loop i k = Fault" | "sem_loop i k = Loop"
  | "sem_value (semaphores k ! i) > 0"
    "sem_loop i k = Done 0 (upd_sem i (\<lambda>s. s\<lparr>sem_value := sem_value s - 1, sem_lock := 0\<rparr>) k)"
  | k' where "sem_loop i k = Resched k' (sem_loop i)" "sem_value (semaphores k ! i) = 0"
    "length (semaphores k') = length (semaphores k)"
    "sem_lock (semaphores k' ! i) = 0" "sem_value (semaphores k' ! i) = 0"
proof (cases "sem_pass i k")
  case Fault
  then have "sem_loop i k = Fault" by (subst sem_loop.code) simp
  then show ?thesis by (rule that)
next
  case Loop
  then have "sem_loop i k = Loop" by (subst sem_loop.code) simp
  then show ?thesis by (rule that)
next
  case (Done taken k')
  show ?thesis
  proof (cases "sem_value (semaphores k ! i) > 0")
    case True
    then show ?thesis using sem_pass_free [OF assms(1)] that by blast
  next
    case False
    with sem_pass_cases [OF assms Done] Done
    show ?thesis using that(4) [of k'] sem_loop_sleeps [of i k k'] by (simp add: word_gt_0)
  qed
next
  case (Resched k' c)
  with sem_pass_returns [of i k] show ?thesis by simp
qed

lemma sem_post_effect:
  assumes "get_sem_by_name nm k = Some i" and "sem_post nm k = Done r k'" and "i < length (semaphores k)"
  shows "length (semaphores k') = length (semaphores k)"
    "sem_value (semaphores k' ! i) = sem_value (semaphores k ! i) + 1"
    "sem_lock (semaphores k' ! i) = sem_lock (semaphores k ! i)"
proof -
  let ?up = "\<lambda>k. upd_sem i (\<lambda>s. s\<lparr>sem_value := sem_value s + 1\<rparr>) k"
  from assms(1,2) have "bind (scheduler_disable k) (\<lambda>_ k. bind (update_sem_processes i (?up k))
      (\<lambda>_ k. bind (scheduler_enable k) (\<lambda>_ k. Done 0 k))) = Done r k'"
    by (simp add: sem_post_def)
  then obtain u k1 where d: "scheduler_disable k = Done u k1"
    and 1: "bind (update_sem_processes i (?up k1)) (\<lambda>_ k. bind (scheduler_enable k) (\<lambda>_ k. Done 0 k)) = Done r k'"
    by (rule bind_DoneE) simp_all
  from 1 obtain u k2 where p: "update_sem_processes i (?up k1) = Done u k2"
    and 2: "bind (scheduler_enable k2) (\<lambda>_ k. Done 0 k) = Done r k'"
    by (rule bind_DoneE) (auto simp: update_sem_processes_def Let_def intro!: settled_bind)
  from 2 have s: "semaphores k' = semaphores k2"
    using scheduler_lock_semaphores(2) by (auto elim!: bind_DoneE)
  have k1: "semaphores k1 = semaphores k" by (rule scheduler_lock_semaphores(1) [OF d])
  from p have "\<exists>f. semaphores k2 = semaphores (upd_sem i (\<lambda>s. s\<lparr>blocked_first := f s\<rparr>) (?up k1))"
  proof (cases "blocked_last (semaphores (?up k1) ! i) - blocked_first (semaphores (?up k1) ! i) > 0")
    case True
    with p show ?thesis
      by (auto simp: update_sem_processes_def Let_def simp del: upd_sem_nth upd_sem_comp
          elim!: bind_DoneE dest!: ready_process_semaphores intro!: exI [of _ "\<lambda>s. _"])
  next
    case False
    with p have "k2 = ?up k1" by (simp add: update_sem_processes_def Let_def del: upd_sem_nth)
    then show ?thesis by (intro exI [of _ blocked_first]) (simp add: upd_sem_same del: upd_sem_comp)
  qed
  with s k1 assms(3) show "length (semaphores k') = length (semaphores k)"
    "sem_value (semaphores k' ! i) = sem_value (semaphores k ! i) + 1"
    "sem_lock (semaphores k' ! i) = sem_lock (semaphores k ! i)"
    by auto
qed

lemma sem_step_conserved:
  assumes "sem_step i w w'" and "sem_conserved i v w" and "v < 2 ^ 64"
  shows "sem_conserved i v w'"
  using assms
proof cases
  case (enter k r k' h)
  then have c: "sem_lock (semaphores k ! i) = 0" "i < length (semaphores k)"
    "unat (sem_value (semaphores k ! i)) + h = v"
    using assms(2) by (simp_all add: sem_conserved_def)
  show ?thesis
  proof (rule sem_loop_cases [OF c(1,2)])
    assume gt: "sem_value (semaphores k ! i) > 0"
      and "sem_loop i k = Done 0 (upd_sem i (\<lambda>s. s\<lparr>sem_value := sem_value s - 1, sem_lock := 0\<rparr>) k)"
    with enter have k': "k' = upd_sem i (\<lambda>s. s\<lparr>sem_value := sem_value s - 1, sem_lock := 0\<rparr>) k" by simp
    from gt have "1 \<le> unat (sem_value (semaphores k ! i))" by (simp add: word_less_nat_alt)
    then have "unat (sem_value (semaphores k ! i) - 1) = unat (sem_value (semaphores k ! i)) - 1"
      by (simp add: unat_minus)
    with c k' enter gt show ?thesis by (simp add: sem_conserved_def word_less_nat_alt)
  qed (use enter in auto)
next
  case (sleep k k' c h)
  then have c: "sem_lock (semaphores k ! i) = 0" "i < length (semaphores k)"
    "unat (sem_value (semaphores k ! i)) + h = v"
    using assms(2) by (simp_all add: sem_conserved_def)
  show ?thesis by (rule sem_loop_cases [OF c(1,2)]) (use sleep c in \<open>auto simp: sem_conserved_def\<close>)
next
  case (leave nm k r k' h)
  then have c: "i < length (semaphores k)" "unat (sem_value (semaphores k ! i)) + (h + 1) = v"
    using assms(2) by (simp_all add: sem_conserved_def)
  then have "unat (sem_value (semaphores k ! i) + 1) = unat (sem_value (semaphores k ! i)) + 1"
    using assms(3) by (simp add: unat_plus)
  with c leave assms(2) sem_post_effect [OF leave(3,4) c(1)] show ?thesis
    by (simp add: sem_conserved_def)
next
  case (other k' k h)
  with assms(2) show ?thesis by (simp add: sem_conserved_def)
qed

lemma sem_reachable_conserved:
  assumes "(sem_step i)\<^sup>*\<^sup>* w w'" and "sem_conserved i v w" and "v < 2 ^ 64"
  shows "sem_conserved i v w'"
  using assms(1,2) by (induction rule: rtranclp_induct) (auto intro: sem_step_conserved assms(3))

section \<open>Opening and closing\<close>

lemma first_semI:
  assumes "i < MAX_SEMS" and "P (semaphores k ! i)" and "\<forall>j<i. \<not> P (semaphores k ! j)"
  shows "first_sem P k = Some i"
  using assms by (auto simp: first_sem_def find_Some_iff intro!: exI [of _ i])

lemma first_sem_least: "first_sem P k = Some i \<Longrightarrow> j < i \<Longrightarrow> \<not> P (semaphores k ! j)"
  by (auto simp: first_sem_def find_Some_iff)

text \<open>Lookup of a name, on tables that satisfy the invariant.\<close>

lemma get_sem_by_name_iff:
  assumes "sem_table k"
  shows "get_sem_by_name nm k = Some i \<longleftrightarrow>
    i < MAX_SEMS \<and> is_in_use (sem_id (semaphores k ! i)) \<and> sem_name (semaphores k ! i) = nm"
  using get_sem_by_name_unique [OF assms] get_sem_by_nameD by blast

lemma get_sem_by_name_None:
  "get_sem_by_name nm k = None \<longleftrightarrow>
    (\<forall>i<MAX_SEMS. is_in_use (sem_id (semaphores k ! i)) \<longrightarrow> sem_name (semaphores k ! i) \<noteq> nm)"
  by (auto simp: get_sem_by_name_def first_sem_None)

definition new_sem :: "nat \<Rightarrow> cstring \<Rightarrow> i32 \<Rightarrow> sem_ts \<Rightarrow> sem_ts" where
  "new_sem idx nm v s = s\<lparr>sem_id := int idx * 2 + 1, open_count := 0, sem_value := scast v,
     blocked_first := 0, blocked_last := 0, sem_lock := 0, sem_name := nm,
     blocked_processes := replicate MAX_PROC (- 1)\<rparr>"

lemma sem_open_new:
  assumes "get_sem_by_name nm k = None" and "get_new_sem k = Some idx" and "length nm < NAME_CHAR_LIMIT"
    and "open_count (semaphores (upd_sem idx (new_sem idx nm v) k) ! 0) < 0x7FFFFFFF"
  shows "sem_open nm v k =
    Done 0 (upd_sem 0 (\<lambda>s. s\<lparr>open_count := open_count s + 1\<rparr>) (upd_sem idx (new_sem idx nm v) k))"
proof -
  let ?k = "upd_sem idx (new_sem idx nm v) k"
  have "sem_init nm v k = Done 0 ?k"
    using assms(2,3) by (simp add: sem_init_def new_sem_def [abs_def])
  then have "sem_open nm v k = atomic_inc (open_count (semaphores ?k ! 0)) (\<lambda>c. Done 0 (upd_sem 0 (\<lambda>s. s\<lparr>open_count := c\<rparr>) ?k))"
    using assms(1) by (simp add: sem_open_def del: upd_sem_comp upd_sem_nth)
  also have "\<dots> = Done 0 (upd_sem 0 (\<lambda>s. s\<lparr>open_count := open_count (semaphores ?k ! 0) + 1\<rparr>) ?k)"
    by (rule atomic_inc_small [OF assms(4)])
  finally show ?thesis by (simp only: upd_sem_def)
qed

lemma sem_open_known:
  assumes "get_sem_by_name nm k = Some i" and "open_count (semaphores k ! i) < 0x7FFFFFFF"
  shows "sem_open nm v k = Done 0 (upd_sem i (\<lambda>s. s\<lparr>open_count := open_count s + 1\<rparr>) k)"
  using assms by (simp add: sem_open_def atomic_inc_small upd_sem_def)

lemma sem_close_last:
  assumes "get_sem_by_name nm k = Some i" and "open_count (semaphores k ! i) = 1"
  shows "sem_close nm k = Done 0 (upd_sem i (\<lambda>s. s\<lparr>sem_id := 2 * int i, sem_name := []\<rparr>)
    (upd_sem i (\<lambda>s. s\<lparr>open_count := 0\<rparr>) k))"
  using assms by (simp add: sem_close_def Let_def)

lemma sem_table_new:
  assumes "sem_table k" and "get_sem_by_name nm k = None" and "get_new_sem k = Some idx"
  shows "sem_table (upd_sem idx (new_sem idx nm v) k)"
proof -
  have idx: "idx < MAX_SEMS" using assms(3) first_sem_Some unfolding get_new_sem_def by blast
  have "sem_name (semaphores k ! i) \<noteq> nm" if "i < MAX_SEMS" "is_in_use (sem_id (semaphores k ! i))" for i
    using assms(2) that by (auto simp: get_sem_by_name_None)
  with assms(1) idx show ?thesis by (auto simp: sem_table_def new_sem_def)
qed

lemma sem_table_count: "sem_table k \<Longrightarrow> sem_table (upd_sem i (\<lambda>s. s\<lparr>open_count := c s\<rparr>) k)"
  by (auto simp: sem_table_def)

lemma lookup_count [simp]:
  "get_sem_by_name nm (upd_sem i (\<lambda>s. s\<lparr>open_count := c s\<rparr>) k) = get_sem_by_name nm k"
  by (rule lookup_cong) simp_all

lemma lookup_new:
  assumes "sem_table k" and "get_sem_by_name nm k = None" and "get_new_sem k = Some idx"
  shows "get_sem_by_name n (upd_sem idx (new_sem idx nm v) k) =
    (if n = nm then Some idx else get_sem_by_name n k)"
proof -
  let ?k = "upd_sem idx (new_sem idx nm v) k"
  have t: "sem_table ?k" by (rule sem_table_new [OF assms])
  have idx: "idx < MAX_SEMS" "\<not> is_in_use (sem_id (semaphores k ! idx))"
    using assms(3) first_sem_Some unfolding get_new_sem_def by blast+
  have len: "length (semaphores k) = MAX_SEMS" using assms(1) by (simp add: sem_table_def)
  show ?thesis
  proof (cases "n = nm")
    case True
    then show ?thesis using idx len by (simp add: get_sem_by_name_iff [OF t] new_sem_def)
  next
    case False
    have "(get_sem_by_name n ?k = Some j) = (get_sem_by_name n k = Some j)" for j
      using False idx len by (auto simp: get_sem_by_name_iff [OF t] get_sem_by_name_iff [OF assms(1)] new_sem_def)
    with False show ?thesis by (metis option.exhaust)
  qed
qed

section \<open>A small table\<close>

text \<open>The states of the witnesses: one semaphore, entry 0, and two, entries 0 and 1.\<close>

abbreviation nmA :: cstring where "nmA \<equiv> [65]"
abbreviation nmB :: cstring where "nmB \<equiv> [66]"

definition sem_ex1 :: kernel where
  "sem_ex1 = upd_sem 0 (new_sem 0 nmA 1) kernel_zero"

lemma kernel_zero_sems:
  "length (semaphores kernel_zero) = MAX_SEMS" "i < MAX_SEMS \<Longrightarrow> semaphores kernel_zero ! i = sem_zero"
  by (simp_all add: kernel_zero_def MAX_SEMS_def)

lemma kernel_zero_table: "sem_table kernel_zero"
  by (simp add: sem_table_def kernel_zero_sems sem_zero_def is_in_use_def)

lemma kernel_zero_lookup: "get_sem_by_name nm kernel_zero = None" "get_new_sem kernel_zero = Some 0"
proof -
  show "get_sem_by_name nm kernel_zero = None"
    by (simp add: get_sem_by_name_None kernel_zero_sems sem_zero_def is_in_use_def)
  show "get_new_sem kernel_zero = Some 0" unfolding get_new_sem_def
    by (rule first_semI) (simp_all add: MAX_SEMS_def kernel_zero_def sem_zero_def is_in_use_def)
qed

lemma sem_ex1_lookup:
  "sem_table sem_ex1" "get_sem_by_name nmA sem_ex1 = Some 0" "get_sem_by_name nmB sem_ex1 = None"
  "get_new_sem sem_ex1 = Some 1" "length (semaphores sem_ex1) = MAX_SEMS"
  "semaphores sem_ex1 ! 0 = new_sem 0 nmA 1 sem_zero"
proof -
  show "sem_table sem_ex1" "get_sem_by_name nmA sem_ex1 = Some 0" "get_sem_by_name nmB sem_ex1 = None"
    unfolding sem_ex1_def
    using sem_table_new [OF kernel_zero_table kernel_zero_lookup(1,2)]
      lookup_new [OF kernel_zero_table kernel_zero_lookup(1,2)] kernel_zero_lookup(1) by simp_all
  show "length (semaphores sem_ex1) = MAX_SEMS" by (simp add: sem_ex1_def kernel_zero_sems)
  show z: "semaphores sem_ex1 ! 0 = new_sem 0 nmA 1 sem_zero"
    by (simp add: sem_ex1_def kernel_zero_sems MAX_SEMS_def)
  show "get_new_sem sem_ex1 = Some 1" unfolding get_new_sem_def
  proof (rule first_semI)
    show "\<forall>j<1. \<not> \<not> is_in_use (sem_id (semaphores sem_ex1 ! j))"
      using z by (simp add: new_sem_def is_in_use_def)
  qed (simp_all add: MAX_SEMS_def sem_ex1_def kernel_zero_def sem_zero_def is_in_use_def)
qed


section \<open>Properties\<close>

text \<open>
  C7. Conservation and mutual exclusion: from a semaphore with a free lock and value \<open>v\<close>,
  whatever calls of \<open>sem_wait\<close> and \<open>sem_post\<close> (by those that took it) follow, in whatever
  order, with sleepers resumed at any point, the lock is free again after each, and the value
  plus the processes inside is \<open>v\<close>: a semaphore opened with 1 never lets two in.
\<close>
theorem sem_mutual_exclusion:
  assumes "(sem_step i)\<^sup>*\<^sup>* (k0, 0) (k, h)" and "i < length (semaphores k0)"
    and "sem_lock (semaphores k0 ! i) = 0"
  shows "unat (sem_value (semaphores k ! i)) + h = unat (sem_value (semaphores k0 ! i)) \<and>
    h \<le> unat (sem_value (semaphores k0 ! i)) \<and> sem_lock (semaphores k ! i) = 0"
proof -
  have "sem_conserved i (unat (sem_value (semaphores k0 ! i))) (k0, 0)"
    using assms by (simp add: sem_conserved_def)
  from sem_reachable_conserved [OF assms(1) this unat_lt64] show ?thesis
    by (simp add: sem_conserved_def)
qed

theorem sem_mutual_exclusion_witness:
  "\<exists>k. (sem_step 0)\<^sup>*\<^sup>* (sem_ex1, 0) (k, 1) \<and> sem_value (semaphores k ! 0) = 0"
proof -
  let ?k = "upd_sem 0 (\<lambda>s. s\<lparr>sem_value := sem_value s - 1, sem_lock := 0\<rparr>) sem_ex1"
  have v: "sem_lock (semaphores sem_ex1 ! 0) = 0" "sem_value (semaphores sem_ex1 ! 0) = 1"
    by (simp_all add: sem_ex1_lookup(6) new_sem_def)
  have "sem_step 0 (sem_ex1, 0) (?k, 0 + 1)"
    by (rule enter, rule sem_pass_free) (simp_all add: v)
  then have s: "(sem_step 0)\<^sup>*\<^sup>* (sem_ex1, 0) (?k, 1)" by simp
  have "unat (sem_value (semaphores ?k ! 0)) + 1 = unat (sem_value (semaphores sem_ex1 ! 0))"
    using sem_mutual_exclusion [OF s] v(1) by (simp add: sem_ex1_lookup(5) MAX_SEMS_def)
  then have "sem_value (semaphores ?k ! 0) = 0" unfolding v by (simp flip: unat_eq_zero)
  with s show ?thesis by blast
qed



text \<open>
  Opening a new name: the semaphore is found by that name afterwards, in a free entry,
  with the given value and an empty queue, no other name is found anywhere else than before,
  and the table stays well formed. The use it is opened for is counted in entry 0, whatever
  entry was taken: \<open>sem_init\<close> returns 0, the success code, where \<open>sem_open\<close> expects the index.
\<close>
theorem sem_open_new_correct:
  assumes "sem_table k" and "get_sem_by_name nm k = None" and "get_new_sem k = Some idx"
    and "idx \<noteq> 0" and "length nm < 1024" and "open_count (semaphores k ! 0) < 0x7FFFFFFF"
  shows "\<exists>k'. sem_open nm v k = Done 0 k' \<and> sem_table k' \<and>
    (\<forall>n. get_sem_by_name n k' = (if n = nm then Some idx else get_sem_by_name n k)) \<and>
    sem_value (semaphores k' ! idx) = scast v \<and>
    blocked_first (semaphores k' ! idx) = blocked_last (semaphores k' ! idx) \<and>
    open_count (semaphores k' ! idx) = 0 \<and>
    open_count (semaphores k' ! 0) = open_count (semaphores k ! 0) + 1"
proof -
  let ?k1 = "upd_sem idx (new_sem idx nm v) k"
  let ?k2 = "upd_sem 0 (\<lambda>s. s\<lparr>open_count := open_count s + 1\<rparr>) ?k1"
  have len: "length (semaphores k) = MAX_SEMS" using assms(1) by (simp add: sem_table_def)
  have idx: "idx < MAX_SEMS" using assms(3) first_sem_Some unfolding get_new_sem_def by blast
  have "sem_open nm v k = Done 0 ?k2"
    by (rule sem_open_new) (use assms in \<open>simp_all add: NAME_CHAR_LIMIT_def\<close>)
  moreover have "sem_table ?k2"
    by (rule sem_table_count) (rule sem_table_new [OF assms(1-3)])
  moreover have "get_sem_by_name n ?k2 = (if n = nm then Some idx else get_sem_by_name n k)" for n
    using lookup_new [OF assms(1-3)] by (simp del: upd_sem_comp)
  ultimately show ?thesis using assms(4) idx len
    by (intro exI [of _ ?k2]) (simp add: new_sem_def MAX_SEMS_def)
qed

theorem sem_open_new_correct_witness:
  "\<exists>k'. sem_open nmB 1 sem_ex1 = Done 0 k' \<and> get_sem_by_name nmB k' = Some 1 \<and>
    open_count (semaphores k' ! 1) = 0 \<and> open_count (semaphores k' ! 0) = 1"
  using sem_open_new_correct [OF sem_ex1_lookup(1,3,4), of 1]
  by (auto simp: sem_ex1_lookup(6) new_sem_def)

text \<open>
  The consequence: a semaphore that two users opened is gone as soon as one of them
  closes it, unless it lives in entry 0. The next \<open>sem_wait\<close> of the other user fails.
\<close>
theorem sem_close_drops_shared:
  assumes "sem_table k" and "get_sem_by_name nm k = None" and "get_new_sem k = Some idx"
    and "idx \<noteq> 0" and "length nm < 1024" and "open_count (semaphores k ! 0) < 0x7FFFFFFF"
  shows "\<exists>k1 k2 k3. sem_open nm v k = Done 0 k1 \<and> sem_open nm w k1 = Done 0 k2 \<and>
    sem_close nm k2 = Done 0 k3 \<and> get_sem_by_name nm k3 = None \<and> sem_wait nm k3 = Done (- 1) k3"
proof -
  let ?k0 = "upd_sem idx (new_sem idx nm v) k"
  let ?k1 = "upd_sem 0 (\<lambda>s. s\<lparr>open_count := open_count s + 1\<rparr>) ?k0"
  let ?k2 = "upd_sem idx (\<lambda>s. s\<lparr>open_count := open_count s + 1\<rparr>) ?k1"
  let ?k3 = "upd_sem idx (\<lambda>s. s\<lparr>sem_id := 2 * int idx, sem_name := []\<rparr>)
    (upd_sem idx (\<lambda>s. s\<lparr>open_count := 0\<rparr>) ?k2)"
  have len: "length (semaphores k) = MAX_SEMS" using assms(1) by (simp add: sem_table_def)
  have idx: "idx < MAX_SEMS" using assms(3) first_sem_Some unfolding get_new_sem_def by blast
  have 1: "sem_open nm v k = Done 0 ?k1"
    by (rule sem_open_new) (use assms in \<open>simp_all add: NAME_CHAR_LIMIT_def\<close>)
  have l1: "get_sem_by_name nm ?k1 = Some idx"
    using lookup_new [OF assms(1-3)] by (simp del: upd_sem_comp)
  have c1: "open_count (semaphores ?k1 ! idx) = 0" using idx len assms(4) by (simp add: new_sem_def)
  have 2: "sem_open nm w ?k1 = Done 0 ?k2" by (rule sem_open_known [OF l1]) (simp only: c1, simp)
  have l2: "get_sem_by_name nm ?k2 = Some idx" using l1 by (simp del: upd_sem_comp)
  have c2: "open_count (semaphores ?k2 ! idx) = 1" using c1 idx len by (simp del: upd_sem_comp)
  have 3: "sem_close nm ?k2 = Done 0 ?k3"
    by (rule sem_close_last [OF l2 c2])
  have t2: "sem_table ?k2"
    by (intro sem_table_count sem_table_new [OF assms(1-3)])
  have "get_sem_by_name nm ?k3 = None"
    unfolding get_sem_by_name_None
  proof (intro allI impI)
    fix i assume i: "i < MAX_SEMS" "is_in_use (sem_id (semaphores ?k3 ! i))"
    then have "i \<noteq> idx" using idx len by auto
    then have "semaphores ?k3 ! i = semaphores ?k2 ! i" by simp
    with i have "is_in_use (sem_id (semaphores ?k2 ! i))" "sem_name (semaphores ?k3 ! i) = sem_name (semaphores ?k2 ! i)"
      by simp_all
    with l2 \<open>i \<noteq> idx\<close> i(1) show "sem_name (semaphores ?k3 ! i) \<noteq> nm"
      using get_sem_by_name_unique [OF t2] by fastforce
  qed
  with 1 2 3 show ?thesis by (auto simp: sem_wait_def)
qed

theorem sem_close_drops_shared_witness:
  "\<exists>k1 k2 k3. sem_open nmB 1 sem_ex1 = Done 0 k1 \<and> sem_open nmB 1 k1 = Done 0 k2 \<and>
    sem_close nmB k2 = Done 0 k3 \<and> sem_wait nmB k3 = Done (- 1) k3"
  using sem_close_drops_shared [OF sem_ex1_lookup(1,3,4), of 1 1]
  by (auto simp: sem_ex1_lookup(6) new_sem_def)



end
