(* ===== verification/C_Strings.thy ===== *)
theory C_Strings
  imports Kernel_Prelude "HOL-Library.Signed_Division"
begin

text \<open>
  The string and number routines of \<open>Kernel/lib.c\<close> and \<open>Userland/uCodeModule/lib.c\<close>. A
  character array is the list of its bytes; a routine that reads or writes past the end of an
  array is \<open>None\<close>. Source and destination are different arrays. An \<open>int\<close> or \<open>long\<close> is
  an integer, and a result that does not fit it is \<open>None\<close> too.
\<close>

type_synonym buffer = "byte list"

section \<open>Strings\<close>

fun strlen :: "buffer \<Rightarrow> nat option" where
  "strlen [] = None"
| "strlen (c # cs) = (if c = 0 then Some 0 else map_option Suc (strlen cs))"

fun strcpy :: "buffer \<Rightarrow> buffer \<Rightarrow> buffer option" where
  "strcpy (d # ds) (c # cs) = (if c = 0 then Some (0 # ds) else map_option ((#) c) (strcpy ds cs))"
| "strcpy _ _ = None"

fun strncpy :: "buffer \<Rightarrow> buffer \<Rightarrow> nat \<Rightarrow> buffer option" where
  "strncpy (d # ds) (c # cs) n =
     (if c = 0 \<or> n = 0 then Some (0 # ds) else map_option ((#) c) (strncpy ds cs (n - 1)))"
| "strncpy _ _ _ = None"

fun strcat :: "buffer \<Rightarrow> buffer \<Rightarrow> buffer option" where
  "strcat [] src = None"
| "strcat (d # ds) src = (if d = 0 then strcpy (d # ds) src else map_option ((#) d) (strcat ds src))"

fun strncat :: "buffer \<Rightarrow> buffer \<Rightarrow> nat \<Rightarrow> buffer option" where
  "strncat [] src n = None"
| "strncat (d # ds) src n =
     (if d = 0 then strncpy (d # ds) src n else map_option ((#) d) (strncat ds src n))"

text \<open>The kernel compares the bytes where the strings part as unsigned, the user library as signed.\<close>

fun strcmp_with :: "(byte \<Rightarrow> int) \<Rightarrow> buffer \<Rightarrow> buffer \<Rightarrow> int option" where
  "strcmp_with val (c # cs) (d # ds) =
     (if c \<noteq> 0 \<and> c = d then strcmp_with val cs ds else Some (val c - val d))"
| "strcmp_with val _ _ = None"

definition strcmp_kernel :: "buffer \<Rightarrow> buffer \<Rightarrow> int option" where
  "strcmp_kernel = strcmp_with uint"

definition strcmp_user :: "buffer \<Rightarrow> buffer \<Rightarrow> int option" where
  "strcmp_user = strcmp_with sint"

text \<open>At most \<open>n\<close> characters, at least one.\<close>

fun strncmp :: "buffer \<Rightarrow> buffer \<Rightarrow> nat \<Rightarrow> int option" where
  "strncmp (c # cs) (d # ds) n =
     (if n > 1 \<and> c \<noteq> 0 \<and> c = d then strncmp cs ds (n - 1) else Some (sint c - sint d))"
| "strncmp _ _ _ = None"

text \<open>The offset of the first occurrence, \<open>Some None\<close> when there is none.\<close>

fun strchr :: "buffer \<Rightarrow> byte \<Rightarrow> nat option option" where
  "strchr [] c = None"
| "strchr (d # ds) c =
     (if d = 0 then Some None else if d = c then Some (Some 0)
      else map_option (map_option Suc) (strchr ds c))"

section \<open>Memory\<close>

fun memset :: "buffer \<Rightarrow> byte \<Rightarrow> nat \<Rightarrow> buffer option" where
  "memset dst chr 0 = Some dst"
| "memset dst chr (Suc n) = (if n < length dst then memset (dst[n := chr]) chr n else None)"

text \<open>The loop over bytes, and the loop over 4-byte words for aligned arguments.\<close>

fun copy_bytes :: "buffer \<Rightarrow> buffer \<Rightarrow> nat \<Rightarrow> nat \<Rightarrow> buffer option" where
  "copy_bytes d s i 0 = Some d"
| "copy_bytes d s i (Suc n) =
     (if i < length d \<and> i < length s then copy_bytes (d[i := s ! i]) s (Suc i) n else None)"

fun copy_words :: "buffer \<Rightarrow> buffer \<Rightarrow> nat \<Rightarrow> nat \<Rightarrow> buffer option" where
  "copy_words d s i 0 = Some d"
| "copy_words d s i (Suc n) =
     (if 4 * i + 3 < length d \<and> 4 * i + 3 < length s
      then copy_words (d[4 * i := s ! (4 * i), 4 * i + 1 := s ! (4 * i + 1),
        4 * i + 2 := s ! (4 * i + 2), 4 * i + 3 := s ! (4 * i + 3)]) s (Suc i) n
      else None)"

definition memcpy :: "u64 \<Rightarrow> u64 \<Rightarrow> buffer \<Rightarrow> buffer \<Rightarrow> nat \<Rightarrow> buffer option" where
  "memcpy destination source d s len =
     (if destination mod 4 = 0 \<and> source mod 4 = 0 \<and> len mod 4 = 0
      then copy_words d s 0 (len div 4)
      else copy_bytes d s 0 len)"

section \<open>Numbers to strings\<close>

text \<open>The in-place reversal shared by the conversions: swap the ends, move inwards.\<close>

function swap_ends :: "buffer \<Rightarrow> nat \<Rightarrow> nat \<Rightarrow> buffer" where
  "swap_ends b i j = (if i < j then swap_ends (b[i := b ! j, j := b ! i]) (i + 1) (j - 1) else b)"
  by pat_completeness auto
termination by (relation "measure (\<lambda>(b, i, j). j - i)") auto

definition reverse :: "buffer \<Rightarrow> nat \<Rightarrow> buffer" where
  "reverse b n = swap_ends b 0 (n - 1)"

definition digit_char :: "int \<Rightarrow> int \<Rightarrow> byte" where
  "digit_char letter r = of_int (if r < 10 then r + 48 else r + letter - 10)"

lemma sdiv_smaller:
  fixes v b :: int
  assumes "2 \<le> b" and "v \<noteq> 0"
  shows "\<bar>v sdiv b\<bar> < \<bar>v\<bar>"
proof -
  have "\<bar>v\<bar> div b < \<bar>v\<bar>" using assms by (intro int_div_less_self) auto
  moreover have "0 \<le> \<bar>v\<bar> div b" using assms by (simp add: pos_imp_zdiv_nonneg_iff)
  ultimately show ?thesis using assms by (simp add: signed_divide_int_def abs_mult)
qed

lemma sdiv_zero [simp]: "(0 :: int) sdiv b = 0"
  by (simp add: signed_divide_int_def)

text \<open>
  The digits of a number as the \<open>do .. while (value /= base)\<close> loop stores them, last one
  first. A base below 2 would never end; the callers use 2, 8, 10 and 16.
\<close>

function digits_loop :: "int \<Rightarrow> int \<Rightarrow> int \<Rightarrow> byte list" where
  "digits_loop letter base value =
     digit_char letter (value smod base) #
       (if base \<ge> 2 \<and> value sdiv base \<noteq> 0 then digits_loop letter base (value sdiv base) else [])"
  by pat_completeness auto
termination
proof (relation "measure (\<lambda>(l, b, v). nat \<bar>v\<bar>)")
  fix letter base v :: int
  assume a: "2 \<le> base \<and> v sdiv base \<noteq> 0"
  then have "\<bar>v sdiv base\<bar> < \<bar>v\<bar>" by (intro sdiv_smaller) auto
  then show "((letter, base, v sdiv base), letter, base, v) \<in> measure (\<lambda>(l, b, v). nat \<bar>v\<bar>)"
    by simp
qed simp

text \<open>Store a list of bytes from index \<open>i\<close> on.\<close>

fun store :: "buffer \<Rightarrow> nat \<Rightarrow> byte list \<Rightarrow> buffer option" where
  "store b i [] = Some b"
| "store b i (c # cs) = (if i < length b then store (b[i := c]) (Suc i) cs else None)"

text \<open>The buffer and the number of digits. The letters above 9 are capital.\<close>

definition numToBase :: "int \<Rightarrow> buffer \<Rightarrow> int \<Rightarrow> (buffer \<times> nat) option" where
  "numToBase value b base =
     (let ds = digits_loop 65 base value in
      if base < 2 then None
      else map_option (\<lambda>b. (swap_ends b 0 (length ds - 1), length ds)) (store b 0 (ds @ [0])))"

definition uintToBase :: "u64 \<Rightarrow> buffer \<Rightarrow> int \<Rightarrow> (buffer \<times> nat) option" where
  "uintToBase value b base = numToBase (uint value) b base"

function count_digits :: "int \<Rightarrow> nat" where
  "count_digits n = (if n sdiv 10 = 0 then 1 else Suc (count_digits (n sdiv 10)))"
  by pat_completeness auto
termination
proof (relation "measure (\<lambda>v. nat \<bar>v\<bar>)")
  fix n :: int
  assume "n sdiv 10 \<noteq> 0"
  then have "\<bar>n sdiv 10\<bar> < \<bar>n\<bar>" by (intro sdiv_smaller) auto
  then show "(n sdiv 10, n) \<in> measure (\<lambda>v. nat \<bar>v\<bar>)" by simp
qed simp

fun fill_digits :: "nat \<Rightarrow> int \<Rightarrow> buffer \<Rightarrow> buffer" where
  "fill_digits 0 n b = b"
| "fill_digits (Suc i) n b = fill_digits i (n sdiv 10) (b[i := of_int (n smod 10 + 48)])"

text \<open>\<open>itoa\<close> gives a number of one digit a leading 0.\<close>

definition itoa :: "int \<Rightarrow> buffer \<Rightarrow> (buffer \<times> nat) option" where
  "itoa number str =
     (let digits = count_digits number in
      if digits = 1
      then map_option (\<lambda>b. (b, digits)) (store str 0 [48, of_int (number + 48), 0])
      else if digits < length str
        then Some (fill_digits digits number (str[digits := 0]), digits) else None)"

text \<open>\<open>ultoa\<close> counts the digits of the quotient as a \<open>long\<close>.\<close>

definition ultoa :: "u64 \<Rightarrow> buffer \<Rightarrow> (buffer \<times> nat) option" where
  "ultoa number str =
     (let digits = (if sint (number div 10) = 0 then 1 else Suc (count_digits (sint (number div 10)))) in
      if digits = 1 then map_option (\<lambda>b. (b, digits)) (store str 0 [of_int (48 + uint number), 0])
      else if digits < length str
        then Some (fill_digits digits (uint number) (str[digits := 0]), digits) else None)"

abbreviation INT_MIN :: int where "INT_MIN \<equiv> - (2 ^ 31)"
abbreviation INT_MAX :: int where "INT_MAX \<equiv> 2 ^ 31 - 1"

definition fits_int :: "int \<Rightarrow> bool" where
  "fits_int n \<longleftrightarrow> INT_MIN \<le> n \<and> n \<le> INT_MAX"

text \<open>Negation of \<open>INT_MIN\<close> overflows. Letters are small, and only base 10 has a sign.\<close>

definition sitoa :: "int \<Rightarrow> buffer \<Rightarrow> int \<Rightarrow> buffer option" where
  "sitoa num str base =
     (if num = 0 then store str 0 [48, 0]
      else
        let neg = (num < 0 \<and> base = 10); n = (if neg then - num else num) in
        if base < 2 \<or> \<not> fits_int n then None
        else
          let ds = digits_loop 97 base n @ (if neg then [45] else []) in
          map_option (\<lambda>b. reverse b (length ds)) (store str 0 (ds @ [0])))"

section \<open>Strings to numbers\<close>

definition is_digit :: "byte \<Rightarrow> bool" where
  "is_digit c \<longleftrightarrow> 48 \<le> sint c \<and> sint c \<le> 57"

fun parse_digits :: "int \<Rightarrow> buffer \<Rightarrow> int option" where
  "parse_digits result [] = None"
| "parse_digits result (c # cs) =
     (if c \<noteq> 0 \<and> is_digit c
      then let r = result * 10 + (sint c - 48) in if fits_int r then parse_digits r cs else None
      else Some result)"

definition atoi :: "buffer \<Rightarrow> int option" where
  "atoi str =
     (case str of
        [] \<Rightarrow> None
      | c # cs \<Rightarrow>
          if c = 45 \<or> c = 43
          then map_option (\<lambda>r. r * (if c = 45 then - 1 else 1)) (parse_digits 0 cs)
          else parse_digits 0 str)"

definition atoul :: "buffer \<Rightarrow> u64 option" where
  "atoul str = map_option of_int (parse_digits 0 str)"

text \<open>The recursive equations of the loops would unfold without end.\<close>

declare swap_ends.simps [simp del] digits_loop.simps [simp del] count_digits.simps [simp del]

end
