(* ===== verification/C_Strings_Properties.thy ===== *)
theory C_Strings_Properties
  imports C_Strings
begin

text \<open>
  The properties of the string and number routines: what they compute when the arrays are
  large enough, that they run past the end exactly when they are not, and the round trip
  from numbers to strings and back.
\<close>

section \<open>Copies\<close>

lemma strcpy_spec:
  assumes "0 \<notin> set s"
  shows "strcpy d (s @ 0 # r) = (if length s < length d then Some (s @ 0 # drop (length s + 1) d) else None)"
  using assms
proof (induction s arbitrary: d)
  case Nil
  then show ?case by (cases d) auto
next
  case (Cons c s)
  then show ?case by (cases d) auto
qed

lemma strlen_spec: "0 \<notin> set s \<Longrightarrow> strlen (s @ 0 # r) = Some (length s)"
  by (induction s) auto

lemma strcat_spec:
  assumes "0 \<notin> set a" and "0 \<notin> set s"
  shows "strcat (a @ 0 # x) (s @ 0 # r) =
    (if length s \<le> length x then Some (a @ s @ 0 # drop (length s) x) else None)"
  using assms(1) strcpy_spec [OF assms(2), of "0 # x" r] by (induction a) auto

lemma take_upd_append: "i < length d \<Longrightarrow> take (Suc i) (d[i := c]) = take i d @ [c]"
  by (simp add: take_Suc_conv_app_nth)

lemma copy_bytes_spec:
  "copy_bytes d s i n =
    (if n = 0 \<or> i + n \<le> length d \<and> i + n \<le> length s
     then Some (take i d @ take n (drop i s) @ drop (i + n) d) else None)"
proof (induction n arbitrary: d i)
  case 0
  then show ?case by simp
next
  case (Suc n)
  have "take (Suc n) (drop i s) = s ! i # take n (drop (Suc i) s)" if "i < length s"
    using that by (metis Cons_nth_drop_Suc take_Suc_Cons)
  with Suc show ?case by (auto simp: take_upd_append)
qed

lemma copy_words_bytes: "copy_words d s i n = copy_bytes d s (4 * i) (4 * n)"
proof (induction n arbitrary: d i)
  case 0
  then show ?case by simp
next
  case (Suc n)
  define j where "j = 4 * i"
  have e: "4 * Suc n = Suc (Suc (Suc (Suc (4 * n))))" "4 * Suc i = Suc (Suc (Suc (Suc j)))"
    "4 * i + 1 = Suc j" "4 * i + 2 = Suc (Suc j)" "4 * i + 3 = Suc (Suc (Suc j))" "4 * i = j"
    by (simp_all add: j_def)
  show ?case
    unfolding copy_words.simps Suc.IH e copy_bytes.simps by (auto simp: numeral_3_eq_3)
qed

section \<open>Conversions\<close>

lemma store_spec: "i \<le> length b \<Longrightarrow>
  store b i cs = (if i + length cs \<le> length b then Some (take i b @ cs @ drop (i + length cs) b) else None)"
proof (induction cs arbitrary: b i)
  case Nil
  then show ?case by simp
next
  case (Cons c cs)
  then show ?case by (auto simp: take_upd_append Suc_le_eq)
qed

lemma swap_ends_spec:
  "i \<le> j + 1 \<Longrightarrow> j < length b \<Longrightarrow>
   swap_ends b i j = take i b @ rev (drop i (take (j + 1) b)) @ drop (j + 1) b"
proof (induction b i j rule: swap_ends.induct)
  case (1 b i j)
  show ?case
  proof (cases "i < j")
    case False
    with "1.prems" have "i = j + 1 \<or> i = j" by auto
    then show ?thesis
    proof
      assume "i = j"
      with "1.prems" have "drop i (take (j + 1) b) = [b ! j]"
        by (simp add: drop_take Cons_nth_drop_Suc [symmetric])
      with \<open>i = j\<close> "1.prems" show ?thesis
        by (simp add: swap_ends.simps Cons_nth_drop_Suc)
    qed (simp add: swap_ends.simps)
  next
    case True
    let ?b = "b[i := b ! j, j := b ! i]"
    have m: "drop i (take (j + 1) b) = b ! i # drop (i + 1) (take j b) @ [b ! j]"
      using True "1.prems" by (simp add: take_Suc_conv_app_nth Cons_nth_drop_Suc [symmetric])
    have "swap_ends b i j = swap_ends ?b (i + 1) (j - 1)"
      using True by (simp add: swap_ends.simps [of b])
    also have "\<dots> = take (i + 1) ?b @ rev (drop (i + 1) (take j ?b)) @ drop j ?b"
      using "1.IH" True "1.prems" by simp
    also have "take (i + 1) ?b = take i b @ [b ! j]"
      using True "1.prems" by (simp add: take_upd_append)
    also have "drop (i + 1) (take j ?b) = drop (i + 1) (take j b)"
      using True by (simp add: drop_take)
    also have "drop j ?b = b ! i # drop (j + 1) b"
      using True "1.prems" by (simp add: Cons_nth_drop_Suc [symmetric])
    finally show ?thesis using True "1.prems" m by simp
  qed
qed

text \<open>Storing \<open>cs\<close> with a terminator and reversing the first \<open>length cs\<close> bytes.\<close>

lemma store_reverse:
  assumes "cs \<noteq> []"
  shows "map_option (\<lambda>b. swap_ends b 0 (length cs - 1)) (store b 0 (cs @ [0])) =
    (if length cs < length b then Some (rev cs @ 0 # drop (length cs + 1) b) else None)"
proof (cases "length cs < length b")
  case True
  let ?b = "cs @ 0 # drop (Suc (length cs)) b"
  have "swap_ends ?b 0 (length cs - 1) = rev (take (length cs) ?b) @ drop (length cs) ?b"
    using assms swap_ends_spec [of 0 "length cs - 1" ?b] by (cases cs) simp_all
  with True show ?thesis by (simp add: store_spec)
next
  case False
  then show ?thesis by (simp add: store_spec)
qed

lemma digits_loop_nonempty [simp]: "digits_loop l base v \<noteq> []"
  by (subst digits_loop.simps) simp

lemma sdiv_nonneg: "(0 :: int) \<le> v \<Longrightarrow> 2 \<le> b \<Longrightarrow> v sdiv b = v div b"
  by (cases "v = 0") (simp_all add: signed_divide_int_def)

lemma smod_nonneg: "(0 :: int) \<le> v \<Longrightarrow> 2 \<le> b \<Longrightarrow> v smod b = v mod b"
  by (cases "v = 0") (simp_all add: signed_modulo_int_def)

lemma digits_loop_nonneg:
  assumes "0 \<le> v" and "2 \<le> base"
  shows "digits_loop l base v =
    digit_char l (v mod base) # (if v < base then [] else digits_loop l base (v div base))"
proof -
  have "v div base \<noteq> 0 \<longleftrightarrow> \<not> v < base"
    using assms by (auto simp: zdiv_eq_0_iff)
  then show ?thesis using assms
    by (subst digits_loop.simps) (simp add: sdiv_nonneg smod_nonneg)
qed

lemma digit_char_decimal:
  assumes "0 \<le> r" "r < 10"
  shows "sint (digit_char l r) = r + 48" "is_digit (digit_char l r)" "digit_char l r \<noteq> 0"
proof -
  from assms have "r = 0 \<or> r = 1 \<or> r = 2 \<or> r = 3 \<or> r = 4 \<or> r = 5 \<or> r = 6 \<or> r = 7 \<or> r = 8 \<or> r = 9"
    by presburger
  then show "sint (digit_char l r) = r + 48" "is_digit (digit_char l r)" "digit_char l r \<noteq> 0"
    by (elim disjE; simp add: digit_char_def is_digit_def)+
qed

text \<open>Parsing reads the digits back.\<close>

lemma parse_digits_loop:
  assumes "0 \<le> v" and "0 \<le> acc" and "acc * 10 ^ length (digits_loop l 10 v) + v \<le> INT_MAX"
  shows "parse_digits acc (rev (digits_loop l 10 v) @ cs) =
    parse_digits (acc * 10 ^ length (digits_loop l 10 v) + v) cs"
  using assms
proof (induction "nat v" arbitrary: v cs rule: less_induct)
  case less
  show ?case
  proof (cases "v < 10")
    case True
    with less.prems have d: "digits_loop l 10 v = [digit_char l v]"
      by (subst digits_loop_nonneg) simp_all
    have "sint (digit_char l v) = v + 48" "is_digit (digit_char l v)" "digit_char l v \<noteq> 0"
      using True less.prems(1) digit_char_decimal by simp_all
    with less.prems d show ?thesis by (simp add: fits_int_def Let_def)
  next
    case False
    let ?q = "v div 10" and ?r = "v mod 10"
    let ?n = "length (digits_loop l 10 ?q)"
    have d: "digits_loop l 10 v = digit_char l ?r # digits_loop l 10 ?q"
      using False less.prems by (subst digits_loop_nonneg) simp_all
    have qr: "10 * ?q + ?r = v" "0 \<le> ?r" "?r < 10" "0 \<le> ?q" using less.prems(1) by simp_all
    have eq: "acc * 10 ^ Suc ?n + v = (acc * 10 ^ ?n + ?q) * 10 + ?r" using qr by simp
    have nn: "0 \<le> acc * 10 ^ ?n + ?q" using less.prems(2) qr by simp
    have max: "(acc * 10 ^ ?n + ?q) * 10 + ?r \<le> INT_MAX" using less.prems(3) d eq by simp
    have "parse_digits acc (rev (digits_loop l 10 v) @ cs) =
      parse_digits acc (rev (digits_loop l 10 ?q) @ digit_char l ?r # cs)"
      using d by simp
    also have "\<dots> = parse_digits (acc * 10 ^ ?n + ?q) (digit_char l ?r # cs)"
      using False qr nn max less.prems(2) by (intro less.hyps) simp_all
    also have "\<dots> = parse_digits ((acc * 10 ^ ?n + ?q) * 10 + ?r) cs"
    proof -
      have "0 \<le> (acc * 10 ^ ?n + ?q) * 10 + ?r" using nn qr(2) by simp
      with max have "fits_int ((acc * 10 ^ ?n + ?q) * 10 + ?r)" unfolding fits_int_def by linarith
      with digit_char_decimal [OF qr(2,3)] show ?thesis by (simp only: parse_digits.simps Let_def) simp
    qed
    finally show ?thesis using d eq by (simp add: ac_simps)
  qed
qed

lemma digits_loop_digits: "0 \<le> v \<Longrightarrow> \<forall>c\<in>set (digits_loop l 10 v). is_digit c"
proof (induction "nat v" arbitrary: v rule: less_induct)
  case less
  have c: "is_digit (digit_char l (v mod 10))" by (rule digit_char_decimal(2)) simp_all
  show ?case
  proof (cases "v < 10")
    case True
    with less.prems c show ?thesis by (subst digits_loop_nonneg) simp_all
  next
    case False
    then have "\<forall>c\<in>set (digits_loop l 10 (v div 10)). is_digit c"
      using less.prems by (intro less.hyps) simp_all
    with False less.prems c show ?thesis by (subst digits_loop_nonneg) simp_all
  qed
qed

lemma digits_loop_length:
  "0 \<le> v \<Longrightarrow> 2 \<le> b \<Longrightarrow> v < b ^ Suc k \<Longrightarrow> length (digits_loop l b v) \<le> Suc k"
proof (induction k arbitrary: v)
  case 0
  then show ?case by (subst digits_loop_nonneg) simp_all
next
  case (Suc k)
  show ?case
  proof (cases "v < b")
    case True
    with Suc.prems show ?thesis by (subst digits_loop_nonneg) simp_all
  next
    case False
    have "v div b * b + v mod b = v" by (rule div_mult_mod_eq)
    moreover have "0 \<le> v mod b" using Suc.prems(2) by simp
    moreover have "v < b ^ Suc k * b" using Suc.prems(3) by (simp add: mult_ac)
    ultimately have "v div b * b < b ^ Suc k * b" by linarith
    then have "v div b < b ^ Suc k" using Suc.prems(2) by (simp only: mult_less_cancel_right)
    moreover have "0 \<le> v div b" using Suc.prems by (simp add: pos_imp_zdiv_nonneg_iff)
    ultimately have "length (digits_loop l b (v div b)) \<le> Suc k"
      using Suc.prems(2) by (intro Suc.IH)
    with False Suc.prems show ?thesis by (subst digits_loop_nonneg) simp_all
  qed
qed

lemma strcmp_zero:
  assumes "0 \<notin> set a" and "0 \<notin> set s"
  shows "strcmp_kernel (a @ 0 # x) (s @ 0 # r) = Some 0 \<longleftrightarrow> a = s"
proof -
  have "strcmp_with uint (a @ 0 # x) (s @ 0 # r) = Some 0 \<longleftrightarrow> a = s"
    using assms
  proof (induction a arbitrary: s)
    case Nil
    then show ?case by (cases s) (auto simp: uint_0_iff)
  next
    case (Cons c a)
    then show ?case by (cases s) (auto simp: uint_0_iff word_uint_eq_iff [symmetric])
  qed
  then show ?thesis by (simp add: strcmp_kernel_def)
qed

lemma sitoa_spec:
  assumes "n \<noteq> 0" and "n \<noteq> INT_MIN" and "fits_int n"
  shows "sitoa n str 10 =
    (let ds = digits_loop 97 10 \<bar>n\<bar> @ (if n < 0 then [45] else []) in
     if length ds < length str then Some (rev ds @ 0 # drop (length ds + 1) str) else None)"
proof -
  let ?ds = "digits_loop 97 10 \<bar>n\<bar> @ (if n < 0 then [45] else [])"
  have a: "(if n < 0 \<and> 10 = (10 :: int) then - n else n) = \<bar>n\<bar>" "fits_int \<bar>n\<bar>"
    using assms by (auto simp: fits_int_def)
  have "sitoa n str 10 = map_option (\<lambda>b. swap_ends b 0 (length ?ds - 1)) (store str 0 (?ds @ [0]))"
    using assms(1) a by (simp add: sitoa_def reverse_def Let_def)
  then show ?thesis by (simp only: store_reverse Let_def append_is_Nil_conv digits_loop_nonempty simp_thms not_False_eq_True)
qed

lemma numToBase_spec:
  assumes "0 \<le> v" and "2 \<le> base"
  shows "numToBase v b base =
    (let ds = digits_loop 65 base v in
     if length ds < length b then Some (rev ds @ 0 # drop (length ds + 1) b, length ds) else None)"
proof -
  let ?ds = "digits_loop 65 base v"
  have "numToBase v b base = map_option (\<lambda>b. (b, length ?ds))
    (map_option (\<lambda>b. swap_ends b 0 (length ?ds - 1)) (store b 0 (?ds @ [0])))"
    using assms(2) by (simp add: numToBase_def Let_def option.map_comp comp_def)
  then show ?thesis unfolding store_reverse [OF digits_loop_nonempty] by (simp add: Let_def)
qed

text \<open>Reading a number back from its digits, for any base.\<close>

definition digit_value :: "int \<Rightarrow> byte \<Rightarrow> int" where
  "digit_value l c = (if sint c < 58 then sint c - 48 else sint c - l + 10)"

fun read_number :: "int \<Rightarrow> int \<Rightarrow> byte list \<Rightarrow> int" where
  "read_number l base [] = 0"
| "read_number l base (c # cs) = digit_value l c + base * read_number l base cs"

lemma digit_value_char:
  assumes "0 \<le> r" "r < 16" and "l = 65 \<or> l = 97"
  shows "digit_value l (digit_char l r) = r"
proof -
  from assms(1,2) have "r = 0 \<or> r = 1 \<or> r = 2 \<or> r = 3 \<or> r = 4 \<or> r = 5 \<or> r = 6 \<or> r = 7 \<or>
    r = 8 \<or> r = 9 \<or> r = 10 \<or> r = 11 \<or> r = 12 \<or> r = 13 \<or> r = 14 \<or> r = 15"
    by presburger
  with assms(3) show ?thesis by (elim disjE; simp add: digit_char_def digit_value_def)
qed

lemma read_digits_loop:
  assumes "0 \<le> v" and "2 \<le> base" "base \<le> 16" and "l = 65 \<or> l = 97"
  shows "read_number l base (digits_loop l base v) = v"
  using assms(1)
proof (induction "nat v" arbitrary: v rule: less_induct)
  case less
  have r: "0 \<le> v mod base" "v mod base < 16"
    using assms(2,3) pos_mod_bound [of base v] pos_mod_sign [of base v] by linarith+
  show ?case
  proof (cases "v < base")
    case True
    with less.prems assms show ?thesis
      by (subst digits_loop_nonneg) (simp_all add: digit_value_char)
  next
    case False
    then have "v div base < v" using assms(2) less.prems by (intro int_div_less_self) auto
    moreover have "0 \<le> v div base" using less.prems assms(2) by (simp add: pos_imp_zdiv_nonneg_iff)
    ultimately have "read_number l base (digits_loop l base (v div base)) = v div base"
      by (intro less.hyps) auto
    with False r less.prems assms show ?thesis
      by (subst digits_loop_nonneg) (simp_all add: digit_value_char)
  qed
qed

section \<open>Properties\<close>

text \<open>
  C13. Round trip of the user library: for every \<open>int\<close> but \<open>INT_MIN\<close> (whose negation
  overflows), \<open>sitoa\<close> writes the decimal form, sign included, into any buffer of 12 bytes, and
  \<open>atoi\<close> reads the same number back.
\<close>
theorem sitoa_atoi_round_trip:
  assumes "fits_int n" and "n \<noteq> INT_MIN" and "12 \<le> length str"
  shows "\<exists>b. sitoa n str 10 = Some b \<and> length b = length str \<and> atoi b = Some n"
proof (cases "n = 0")
  case True
  let ?b = "48 # 0 # drop 2 str"
  have "sitoa n str 10 = Some ?b"
    using True assms(3) store_spec [of 0 str "[48, 0]"]
    by (simp add: sitoa_def numeral_2_eq_2 del: store.simps)
  with True assms(3) show ?thesis by (simp add: atoi_def is_digit_def fits_int_def)
next
  case False
  let ?ds = "digits_loop 97 10 \<bar>n\<bar>"
  let ?b = "rev (?ds @ (if n < 0 then [45] else [])) @ 0 # drop (length (?ds @ (if n < 0 then [45] else [])) + 1) str"
  have len: "length ?ds \<le> 10"
    using assms(1,2) digits_loop_length [of "\<bar>n\<bar>" 10 9 97] by (auto simp: fits_int_def)
  then have b: "sitoa n str 10 = Some ?b" "length ?b = length str"
    unfolding sitoa_spec [OF False assms(2,1)] Let_def using assms(3) by auto
  have parse: "parse_digits 0 (rev ?ds @ 0 # r) = Some \<bar>n\<bar>" for r
    using parse_digits_loop [of "\<bar>n\<bar>" 0 97 "0 # r"] assms(1,2) by (auto simp: fits_int_def)
  have "atoi ?b = Some n"
  proof (cases "n < 0")
    case True
    with parse show ?thesis by (simp add: atoi_def)
  next
    case False
    obtain c cs where cs: "rev ?ds = c # cs" using digits_loop_nonempty by (cases "rev ?ds") auto
    have "is_digit c"
    proof -
      from cs have "c \<in> set ?ds" by (metis list.set_intros(1) set_rev)
      then show ?thesis using digits_loop_digits [of "\<bar>n\<bar>" 97] by simp
    qed
    then have "c \<noteq> 45" "c \<noteq> 43" by (auto simp: is_digit_def)
    with False cs parse [of "drop (length ?ds + 1) str"] show ?thesis by (simp add: atoi_def)
  qed
  with b show ?thesis by blast
qed

theorem sitoa_atoi_round_trip_witness:
  "\<exists>b. sitoa (- 120) (replicate 12 7) 10 = Some b \<and> atoi b = Some (- 120)"
  using sitoa_atoi_round_trip [of "- 120" "replicate 12 7"] by (auto simp: fits_int_def)

text \<open>
  \<open>numToBase\<close> (and so \<open>uintToBase\<close>) on a non-negative value and a base from 2 to 16: it
  succeeds exactly when the buffer holds the digits and the terminator, writes nothing after
  them, and the digits, most significant first, denote the value.
\<close>
theorem numToBase_correct:
  assumes "0 \<le> v" and "2 \<le> base" and "base \<le> 16"
  shows "\<exists>ds. read_number 65 base (rev ds) = v \<and>
    numToBase v b base =
      (if length ds < length b then Some (ds @ 0 # drop (length ds + 1) b, length ds) else None)"
proof -
  let ?ds = "digits_loop 65 base v"
  show ?thesis using numToBase_spec [OF assms(1,2), of b] read_digits_loop [OF assms(1-3), of 65]
    by (intro exI [of _ "rev ?ds"]) (simp add: Let_def)
qed

theorem numToBase_correct_witness:
  "\<exists>ds. read_number 65 8 (rev ds) = 64 \<and> numToBase 64 (replicate 27 0) 8 =
    (if length ds < 27 then Some (ds @ 0 # drop (length ds + 1) (replicate 27 0), length ds) else None)"
  using numToBase_correct [of 64 8 "replicate 27 0"] by simp

lemma memcpy_spec:
  "memcpy p q d s len =
    (if len = 0 \<or> len \<le> length d \<and> len \<le> length s then Some (take len s @ drop len d) else None)"
proof -
  have "memcpy p q d s len = copy_bytes d s 0 len"
  proof (cases "len mod 4 = 0")
    case True
    then have "4 * (len div 4) = len" using mult_div_mod_eq [of 4 len] by simp
    then show ?thesis by (simp add: memcpy_def copy_words_bytes)
  qed (simp add: memcpy_def)
  then show ?thesis by (simp add: copy_bytes_spec)
qed

text \<open>
  C14. \<open>memcpy\<close> copies exactly \<open>len\<close> bytes, whichever of its two loops the alignment of the
  pointers and of the length selects, and faults when one of the arrays is too short.
\<close>
theorem memcpy_correct:
  "memcpy p q d s len =
    (if len = 0 \<or> len \<le> length d \<and> len \<le> length s then Some (take len s @ drop len d) else None)"
  by (rule memcpy_spec)

text \<open>
  \<open>strcat\<close> appends the source, terminator included, to the string in the destination when
  there is room, and writes past the array otherwise; \<open>strcmp\<close> of the kernel is 0 exactly on
  equal strings.
\<close>
theorem strcat_strcmp_correct:
  assumes "0 \<notin> set a" and "0 \<notin> set s"
  shows "strcat (a @ 0 # x) (s @ 0 # r) =
      (if length s \<le> length x then Some (a @ s @ 0 # drop (length s) x) else None) \<and>
    (strcmp_kernel (a @ 0 # x) (s @ 0 # r) = Some 0 \<longleftrightarrow> a = s)"
  using strcat_spec [OF assms] strcmp_zero [OF assms] by blast

theorem strcat_strcmp_correct_witness:
  "strcat [65, 0, 9, 9] [66, 0] = Some [65, 66, 0, 9] \<and> strcmp_kernel [65, 0, 9, 9] [66, 0] \<noteq> Some 0"
  using strcat_strcmp_correct [of "[65]" "[66]" "[9, 9]" "[]"] by simp

text \<open>
  \<open>itoa\<close> of a number from 0 to 9 writes a leading \<open>0\<close>, three bytes in all, while it
  returns 1: two bytes, enough for one digit and its terminator, are overrun. A negative
  number comes out without a sign, as characters below \<open>0\<close>.
\<close>
theorem itoa_single_digit:
  assumes "0 \<le> n" and "n \<le> 9"
  shows "itoa n (x # y # z # r) = Some (48 # of_int (n + 48) # 0 # r, 1) \<and>
    itoa n [x, y] = None \<and> numToBase (- 5) [x, y, z] 10 = Some ([43, 0, z], 1)"
proof -
  have "count_digits n = 1"
    using assms by (subst count_digits.simps) (simp add: sdiv_nonneg)
  moreover have "digits_loop 65 10 (- 5) = [43]"
    by (subst digits_loop.simps) (simp add: signed_divide_int_def signed_modulo_int_def digit_char_def)
  ultimately show ?thesis by (simp add: itoa_def numToBase_def swap_ends.simps)
qed

theorem itoa_single_digit_witness: "itoa 7 [0, 0] = None"
  using itoa_single_digit [of 7] by simp

end
