(* ===== verification/Pipe.thy ===== *)
theory Pipe
  imports Semaphore_Laws C_Strings
begin

text \<open>
  The pipes of \<open>Kernel/pipe.c\<close>: ten named byte queues of 4096 bytes, read and written under
  a semaphore of the same name, with lists of the processes that are at them.
\<close>

definition MAX_PIPES :: nat where "MAX_PIPES = 10"
definition PIPE_SIZE :: nat where "PIPE_SIZE = 4096"
definition PROCS :: nat where "PROCS = 10"
definition NAME_MAX :: nat where "NAME_MAX = 100"

text \<open>The end marker, the \<open>char\<close> \<open>-1\<close>.\<close>

abbreviation END :: byte where "END \<equiv> - 1"

definition upd_pipe :: "nat \<Rightarrow> (pipe_t \<Rightarrow> pipe_t) \<Rightarrow> kernel \<Rightarrow> kernel" where
  "upd_pipe i f k = k\<lparr>pipes := (pipes k)[i := f (pipes k ! i)]\<rparr>"

text \<open>An index outside the table faults.\<close>

definition with_pipe :: "int \<Rightarrow> kernel \<Rightarrow> (nat \<Rightarrow> pipe_t \<Rightarrow> 'a res) \<Rightarrow> 'a res" where
  "with_pipe index k f =
     (if 0 \<le> index \<and> index < int MAX_PIPES then f (nat index) (pipes k ! nat index) else Fault)"

definition fill0 :: "byte list \<Rightarrow> byte list" where
  "fill0 arr = replicate (length arr) 0"

section \<open>The data\<close>

definition slot :: "u32 \<Rightarrow> nat" where
  "slot n = unat n mod PIPE_SIZE"

definition put_byte :: "byte \<Rightarrow> pipe_t \<Rightarrow> pipe_t" where
  "put_byte c p = p\<lparr>pi_data := (pi_data p)[slot (nwrite p) := c], nwrite := nwrite p + 1\<rparr>"

text \<open>The loop of \<open>pipe_write\<close>: \<open>n\<close> turns are left, \<open>i\<close> bytes were written.\<close>

fun write_loop :: "buffer \<Rightarrow> nat \<Rightarrow> nat \<Rightarrow> pipe_t \<Rightarrow> (nat \<times> pipe_t) option" where
  "write_loop addr 0 i p = Some (i, p)"
| "write_loop [] (Suc n) i p = None"
| "write_loop (c # cs) (Suc n) i p =
     (if c \<noteq> 0 \<and> nread p \<noteq> nwrite p + 1 then write_loop cs n (Suc i) (put_byte c p) else Some (i, p))"

text \<open>The loop of \<open>pipe_read\<close>, into the reader's array.\<close>

fun read_loop :: "buffer \<Rightarrow> nat \<Rightarrow> nat \<Rightarrow> pipe_t \<Rightarrow> (buffer \<times> nat \<times> pipe_t) option" where
  "read_loop addr 0 i p = Some (addr, i, p)"
| "read_loop addr (Suc n) i p =
     (if pi_data p ! slot (nread p) \<noteq> END \<and> nread p + 1 \<noteq> nwrite p
      then
        if i < length addr
        then read_loop (addr[i := pi_data p ! slot (nread p)]) n (Suc i) (p\<lparr>nread := nread p + 1\<rparr>)
        else None
      else Some (addr, i, p))"

text \<open>What follows the loop: the last byte, if one is left, and the terminator.\<close>

definition read_end :: "buffer \<Rightarrow> nat \<Rightarrow> pipe_t \<Rightarrow> (buffer \<times> pipe_t) option" where
  "read_end addr i p =
     map_option (\<lambda>(addr, p).
        (addr, if pi_data p ! slot (nread p) = END then p\<lparr>pi_data := (pi_data p)[slot (nread p) := 0]\<rparr> else p))
       (if nread p + 1 = nwrite p
        then map_option (\<lambda>b. (b, p\<lparr>nread := nread p + 1\<rparr>)) (store addr i [pi_data p ! slot (nread p), 0])
        else map_option (\<lambda>b. (b, p)) (store addr i [0]))"

section \<open>The processes at a pipe\<close>

text \<open>\<open>rProcesses\<close> or \<open>wProcesses\<close> of a pipe.\<close>

datatype side = Reading | Writing

definition side_list :: "side \<Rightarrow> pipe_t \<Rightarrow> i32 list" where
  "side_list d p = (case d of Reading \<Rightarrow> rProcesses p | Writing \<Rightarrow> wProcesses p)"

definition set_side :: "side \<Rightarrow> nat \<Rightarrow> i32 \<Rightarrow> pipe_t \<Rightarrow> pipe_t" where
  "set_side d j v p =
     (case d of
        Reading \<Rightarrow> p\<lparr>rProcesses := (rProcesses p)[j := v]\<rparr>
      | Writing \<Rightarrow> p\<lparr>wProcesses := (wProcesses p)[j := v]\<rparr>)"

text \<open>
  The caller is blocked when the first occupied entry is another process; an entry that is
  already its own is skipped.
\<close>

definition block_process_pipe :: "nat \<Rightarrow> side \<Rightarrow> i32 \<Rightarrow> kernel \<Rightarrow> unit res" where
  "block_process_pipe i d pid k =
     (let busy = takeWhile (\<lambda>x. x \<noteq> 0) (side_list d (pipes k ! i)) in
      if \<exists>x\<in>set busy. x \<noteq> pid then bind (block_process (scast pid) k) (\<lambda>_ k. Done () k)
      else if length busy = PROCS then Done () k
      else Done () (upd_pipe i (set_side d (length busy) pid) k))"

definition index_of :: "i32 \<Rightarrow> i32 list \<Rightarrow> nat option" where
  "index_of x xs = find (\<lambda>j. xs ! j = x) [0..<length xs]"

definition release_process_pipe :: "nat \<Rightarrow> side \<Rightarrow> i32 \<Rightarrow> kernel \<Rightarrow> unit res" where
  "release_process_pipe i d pid k =
     (case index_of pid (side_list d (pipes k ! i)) of
        None \<Rightarrow> Done () k
      | Some j \<Rightarrow> bind (ready_process (scast pid) k) (\<lambda>_ k. Done () (upd_pipe i (set_side d j 0) k)))"

section \<open>Reading and writing\<close>

text \<open>A length of 0 stands for the length of the string. The result is \<open>-1\<close> or the bytes written.\<close>

definition pipe_write :: "int \<Rightarrow> buffer \<Rightarrow> int \<Rightarrow> kernel \<Rightarrow> int res" where
  "pipe_write index addr n k =
     (case (if n = 0 then map_option int (strlen addr) else Some n) of
        None \<Rightarrow> Fault
      | Some n \<Rightarrow>
          with_pipe index k (\<lambda>i p.
            if created p = 0 then Done (- 1) k
            else
              bind (get_running_pid k) (\<lambda>pid k.
              bind (block_process_pipe i Writing (ucast pid) k) (\<lambda>_ k.
              bind (sem_wait (pi_name (pipes k ! i)) k) (\<lambda>_ k.
              bind (get_running_pid k) (\<lambda>pid k.
              bind (release_process_pipe i Writing (ucast pid) k) (\<lambda>_ k.
                case write_loop addr (nat n) 0 (pipes k ! i) of
                  None \<Rightarrow> Fault
                | Some (m, p) \<Rightarrow>
                    bind (sem_post (pi_name p)
                      (upd_pipe i (\<lambda>_. p\<lparr>pi_data := (pi_data p)[slot (nwrite p) := END]\<rparr>) k)) (\<lambda>_ k.
                    Done (int m) k))))))))"

text \<open>The reader's array is an argument, and comes back with what was written to it.\<close>

definition pipe_read :: "int \<Rightarrow> buffer \<Rightarrow> int \<Rightarrow> kernel \<Rightarrow> (int \<times> buffer) res" where
  "pipe_read index addr n k =
     with_pipe index k (\<lambda>i p.
       if created p = 0 then Done (- 1, addr) k
       else
         bind (get_running_pid k) (\<lambda>pid k.
         bind (block_process_pipe i Reading (ucast pid) k) (\<lambda>_ k.
         bind (sem_wait (pi_name (pipes k ! i)) k) (\<lambda>_ k.
         bind (get_running_pid k) (\<lambda>pid k.
         bind (release_process_pipe i Writing (ucast pid) k) (\<lambda>_ k.
           case read_loop addr (nat n) 0 (pipes k ! i) of
             None \<Rightarrow> Fault
           | Some (addr, m, p) \<Rightarrow>
               (case read_end addr m p of
                  None \<Rightarrow> Fault
                | Some (addr, p) \<Rightarrow>
                    bind (sem_post (pi_name p) (upd_pipe i (\<lambda>_. p) k)) (\<lambda>_ k.
                    Done (int m, addr) k))))))))"

section \<open>Opening and closing\<close>

definition next_pipe :: "kernel \<Rightarrow> nat option" where
  "next_pipe k = find (\<lambda>i. created (pipes k ! i) = 0) [0..<MAX_PIPES]"

text \<open>The comparison looks at every entry, in use or not; the name of a free one is empty.\<close>

definition look_pipe :: "cstring \<Rightarrow> kernel \<Rightarrow> nat option" where
  "look_pipe name k = find (\<lambda>i. name = pi_name (pipes k ! i)) [0..<MAX_PIPES]"

text \<open>The result is a file descriptor, the index plus 3.\<close>

definition pipe_open :: "cstring \<Rightarrow> kernel \<Rightarrow> int res" where
  "pipe_open name k =
     (case look_pipe name k of
        Some i \<Rightarrow> Done (sint (pi_fd (pipes k ! i))) k
      | None \<Rightarrow>
          (case next_pipe k of
             None \<Rightarrow> Done (- 1) k
           | Some i \<Rightarrow>
               bind (sem_open name 1 (upd_pipe i (\<lambda>p. p\<lparr>pi_fd := of_nat i + 3, created := 1, usingPipe := 0,
                 waitingPid := - 1, nread := 0, nwrite := 0, pi_data := fill0 (pi_data p)\<rparr>) k)) (\<lambda>_ k.
               if length name < NAME_MAX
               then Done (int i + 3) (upd_pipe i (\<lambda>p. p\<lparr>pi_name := name\<rparr>) k)
               else Fault)))"

definition pipe_close :: "int \<Rightarrow> kernel \<Rightarrow> unit res" where
  "pipe_close index k =
     with_pipe index k (\<lambda>i p.
       bind (sem_close (pi_name p) k) (\<lambda>_ k.
       Done () (upd_pipe i (\<lambda>p. p\<lparr>rProcesses := replicate PROCS 0, wProcesses := replicate PROCS 0,
         pi_name := [], pi_data := fill0 (pi_data p), nread := 0, nwrite := 0, created := 0\<rparr>) k)))"

section \<open>The report\<close>

text \<open>String constants, with their terminator; a pid is written in an array of 5 bytes.\<close>

definition lit :: "string \<Rightarrow> buffer" where
  "lit s = ascii s @ [0]"

fun list_blocked_processes :: "i32 list \<Rightarrow> buffer \<Rightarrow> buffer \<Rightarrow> buffer option" where
  "list_blocked_processes [] pid buf = Some buf"
| "list_blocked_processes (x # xs) pid buf =
     (if x = 0 then list_blocked_processes xs pid buf
      else Option.bind (itoa (sint x) pid) (\<lambda>(pid, _).
           Option.bind (strcat buf pid) (\<lambda>buf.
           Option.bind (strcat buf (lit '', '')) (\<lambda>buf.
           list_blocked_processes xs pid buf))))"

fun strcats :: "buffer \<Rightarrow> buffer list \<Rightarrow> buffer option" where
  "strcats dest [] = Some dest"
| "strcats dest (s # ss) = Option.bind (strcat dest s) (\<lambda>d. strcats d ss)"

definition newline :: buffer where "newline = [10, 0]"

text \<open>
  One turn of the loop over the pipes: the report, the arrays of names and of blocked
  processes. The last two are cleared before the loop only, so each pipe adds to them.
\<close>

definition pipe_report :: "pipe_t \<Rightarrow> buffer \<times> buffer \<times> buffer \<times> buffer \<Rightarrow> (buffer \<times> buffer \<times> buffer \<times> buffer) option" where
  "pipe_report p = (\<lambda>(ret, namePipe, brp, bwp).
     if created p = 0 then Some (ret, namePipe, brp, bwp)
     else
       Option.bind (strcpy namePipe (pi_name p @ [0])) (\<lambda>namePipe.
       Option.bind (list_blocked_processes (rProcesses p) (replicate 5 0) brp) (\<lambda>brp.
       Option.bind (list_blocked_processes (wProcesses p) (replicate 5 0) bwp) (\<lambda>bwp.
       Option.bind (strcats ret [lit ''Pipe: '', namePipe, newline, lit ''State: '',
           drop (slot (nread p)) (pi_data p), newline, lit ''Blocked Read Processes: '', brp, newline,
           lit ''Blocked Write Processes: '', bwp, newline]) (\<lambda>ret.
       Some (ret, namePipe, brp, bwp))))))"

fun report_pipes :: "pipe_t list \<Rightarrow> buffer \<times> buffer \<times> buffer \<times> buffer \<Rightarrow> (buffer \<times> buffer \<times> buffer \<times> buffer) option" where
  "report_pipes [] st = Some st"
| "report_pipes (p # ps) st = Option.bind (pipe_report p st) (report_pipes ps)"

definition pipes_info :: "kernel \<Rightarrow> buffer option" where
  "pipes_info k =
     (let ret = replicate (MAX_PIPES * 100) 0 in
      if \<forall>p\<in>set (pipes k). created p = 0 then strcpy ret (ascii ''No pipes available'' @ newline)
      else map_option fst (report_pipes (pipes k) (ret, replicate 10 0, replicate 50 0, replicate 50 0)))"

end
