(* ===== verification/Pipe_Queue.thy ===== *)
theory Pipe_Queue
  imports Pipe
begin

text \<open>
  The abstraction of a pipe to the queue of its unread bytes, and what the loops of
  \<open>pipe_write\<close> and \<open>pipe_read\<close> do to it. The counters are 32-bit and never reset; 4096 divides
  \<open>2 ^ 32\<close>, so the slots stay consistent when they wrap.
\<close>

definition pending :: "pipe_t \<Rightarrow> nat" where
  "pending p = unat (nwrite p - nread p)"

definition content :: "pipe_t \<Rightarrow> byte list" where
  "content p = map (\<lambda>j. pi_data p ! slot (nread p + of_nat j)) [0..<pending p]"

lemma length_content [simp]: "length (content p) = pending p"
  by (simp add: content_def)

lemma slot_less [simp]: "slot n < PIPE_SIZE"
  by (simp add: slot_def PIPE_SIZE_def)

lemma slot_plus: "slot (a + of_nat j) = (unat a + j) mod PIPE_SIZE"
proof -
  have "slot (a + of_nat j) = (unat a + j mod 2 ^ 32) mod 2 ^ 32 mod PIPE_SIZE"
    by (simp add: slot_def unat_word_ariths unat_of_nat)
  also have "\<dots> = (unat a + j mod 2 ^ 32) mod PIPE_SIZE"
    by (simp add: PIPE_SIZE_def mod_mod_cancel)
  also have "\<dots> = (unat a + j mod 2 ^ 32 mod PIPE_SIZE) mod PIPE_SIZE"
    by (simp add: mod_add_right_eq)
  also have "\<dots> = (unat a + j) mod PIPE_SIZE"
    by (simp add: PIPE_SIZE_def mod_mod_cancel mod_add_right_eq)
  finally show ?thesis .
qed

lemma mod_window_le:
  assumes "(a + k) mod n = (a + j) mod (n :: nat)" and "j \<le> k" and "k < n"
  shows "j = k"
proof -
  have "n dvd (a + k) - (a + j)"
    using assms(1,2) by (intro mod_eq_dvd_iff_nat [THEN iffD1]) simp_all
  then have "n dvd k - j" by simp
  with assms(2,3) show ?thesis by (auto dest: dvd_imp_le)
qed

lemma mod_window_inj:
  assumes "(a + j) mod n = (a + k) mod (n :: nat)" and "j < n" and "k < n"
  shows "j = k"
  using mod_window_le [of a k n j] mod_window_le [of a j n k] assms by (cases "j \<le> k") auto

lemma nwrite_pending: "nwrite p = nread p + of_nat (pending p)"
  by (simp add: pending_def)

lemma slot_nwrite: "slot (nwrite p) = (unat (nread p) + pending p) mod PIPE_SIZE"
  by (subst nwrite_pending) (rule slot_plus)

text \<open>Writing a byte in front of the marker, and taking one from the front.\<close>

lemma pending_put:
  assumes "pending p + 1 < 2 ^ 32"
  shows "pending (put_byte c p) = pending p + 1"
proof -
  have "pending (put_byte c p) = unat ((nwrite p - nread p) + 1)"
    by (simp add: pending_def put_byte_def algebra_simps)
  also have "\<dots> = unat (nwrite p - nread p) + 1"
    using assms by (subst unat_plus) (simp_all add: pending_def)
  finally show ?thesis by (simp add: pending_def)
qed

lemma content_put:
  assumes "length (pi_data p) = PIPE_SIZE" and "pending p < PIPE_SIZE"
  shows "content (put_byte c p) = content p @ [c]"
proof -
  have pend: "pending (put_byte c p) = pending p + 1"
    using assms(2) by (intro pending_put) (simp add: PIPE_SIZE_def)
  have "pi_data (put_byte c p) ! slot (nread p + of_nat j) = pi_data p ! slot (nread p + of_nat j)"
    if "j < pending p" for j
  proof -
    have "slot (nwrite p) \<noteq> slot (nread p + of_nat j)"
      using mod_window_inj [of "unat (nread p)" "pending p" PIPE_SIZE j] that assms(2)
      by (auto simp: slot_nwrite slot_plus)
    then show ?thesis by (simp add: put_byte_def)
  qed
  moreover have "pi_data (put_byte c p) ! slot (nread p + of_nat (pending p)) = c"
    using assms(1) by (simp add: put_byte_def flip: nwrite_pending)
  moreover have "nread (put_byte c p) = nread p" by (simp add: put_byte_def)
  ultimately show ?thesis unfolding content_def pend by simp
qed

lemma content_take:
  assumes "content p = c # q"
  shows "pi_data p ! slot (nread p) = c" "content (p\<lparr>nread := nread p + 1\<rparr>) = q"
    "pending (p\<lparr>nread := nread p + 1\<rparr>) = length q" "nread p + 1 = nwrite p \<longleftrightarrow> q = []"
proof -
  have l: "pending p = Suc (length q)" using assms length_content [of p] by simp
  have u: "[0..<pending p] = 0 # map Suc [0..<length q]" by (simp add: l upt_conv_Cons map_Suc_upt del: upt_Suc)
  from assms have m: "pi_data p ! slot (nread p) = c"
    "map (\<lambda>j. pi_data p ! slot (nread p + of_nat (Suc j))) [0..<length q] = q"
    unfolding content_def u by (simp_all add: comp_def)
  have "pending (p\<lparr>nread := nread p + 1\<rparr>) = unat ((nwrite p - nread p) - 1)"
    by (simp add: pending_def algebra_simps)
  also have "\<dots> = unat (nwrite p - nread p) - 1"
    using l by (subst unat_minus) (simp_all add: pending_def)
  finally have q: "pending (p\<lparr>nread := nread p + 1\<rparr>) = length q"
    using l by (simp add: pending_def)
  show "pi_data p ! slot (nread p) = c" by (rule m)
  show "pending (p\<lparr>nread := nread p + 1\<rparr>) = length q" by (rule q)
  show "content (p\<lparr>nread := nread p + 1\<rparr>) = q"
    unfolding content_def q using m(2) by (simp add: add.assoc)
  have "unat (nwrite p - (nread p + 1)) = length q" using q by (simp add: pending_def)
  then show "nread p + 1 = nwrite p \<longleftrightarrow> q = []"
    by (metis eq_iff_diff_eq_0 length_0_conv unat_eq_zero)
qed

section \<open>The loops\<close>

definition put_bytes :: "byte list \<Rightarrow> pipe_t \<Rightarrow> pipe_t" where
  "put_bytes s p = fold put_byte s p"

lemma put_bytes_simps [simp]:
  "put_bytes [] p = p" "put_bytes (c # s) p = put_bytes s (put_byte c p)"
  by (simp_all add: put_bytes_def)

lemma not_full: "pending p + 1 < 2 ^ 32 \<Longrightarrow> nread p \<noteq> nwrite p + 1"
proof
  assume a: "pending p + 1 < 2 ^ 32" and "nread p = nwrite p + 1"
  then have "nwrite p - nread p = - 1" by simp
  moreover have "unat (- 1 :: u32) = 2 ^ 32 - 1" by (simp add: unsigned_minus_1_eq_mask mask_eq_exp_minus_1)
  ultimately show False using a by (simp add: pending_def)
qed

lemma write_loop_accepts:
  assumes "\<forall>c\<in>set s. c \<noteq> 0" and "length s \<le> n" and "pending p + length s < 2 ^ 32"
    and "n = length s \<or> (\<exists>r'. r = 0 # r')"
  shows "write_loop (s @ r) n i p = Some (i + length s, put_bytes s p)"
  using assms
proof (induction s arbitrary: n i p)
  case Nil
  then show ?case by (cases n) auto
next
  case (Cons c s)
  then obtain m where n: "n = Suc m" by (cases n) auto
  have nf: "nread p \<noteq> nwrite p + 1" using Cons.prems(3) by (intro not_full) simp
  have "pending (put_byte c p) = pending p + 1" using Cons.prems(3) by (intro pending_put) simp
  with Cons.IH [of m "put_byte c p" "Suc i"] Cons.prems n nf show ?case by simp
qed

lemma put_bytes_content:
  assumes "length (pi_data p) = PIPE_SIZE" and "pending p + length s \<le> PIPE_SIZE"
  shows "content (put_bytes s p) = content p @ s \<and> length (pi_data (put_bytes s p)) = PIPE_SIZE \<and>
    pending (put_bytes s p) = pending p + length s \<and> nread (put_bytes s p) = nread p \<and>
    put_bytes s p = p\<lparr>pi_data := pi_data (put_bytes s p), nwrite := nwrite (put_bytes s p)\<rparr>"
  using assms
proof (induction s arbitrary: p)
  case Nil
  then show ?case by simp
next
  case (Cons c s)
  then have p: "pending (put_byte c p) = pending p + 1"
    by (intro pending_put) (simp add: PIPE_SIZE_def)
  have c: "content (put_byte c p) = content p @ [c]" using Cons.prems by (intro content_put) simp_all
  have "length (pi_data (put_byte c p)) = PIPE_SIZE" using Cons.prems by (simp add: put_byte_def)
  with Cons.IH [of "put_byte c p"] Cons.prems p c show ?case by (simp add: put_byte_def)
qed

text \<open>The end marker goes in the free slot after the last byte; with 4096 pending there is none.\<close>

lemma content_mark:
  assumes "length (pi_data p) = PIPE_SIZE" and "pending p < PIPE_SIZE"
  shows "content (p\<lparr>pi_data := (pi_data p)[slot (nwrite p) := x]\<rparr>) = content p"
    "pi_data (p\<lparr>pi_data := (pi_data p)[slot (nwrite p) := x]\<rparr>) ! slot (nwrite p) = x"
proof -
  have "slot (nwrite p) \<noteq> slot (nread p + of_nat j)" if "j < pending p" for j
    using mod_window_inj [of "unat (nread p)" "pending p" PIPE_SIZE j] that assms(2)
    by (auto simp: slot_nwrite slot_plus)
  then show "content (p\<lparr>pi_data := (pi_data p)[slot (nwrite p) := x]\<rparr>) = content p"
    by (simp add: content_def pending_def)
  show "pi_data (p\<lparr>pi_data := (pi_data p)[slot (nwrite p) := x]\<rparr>) ! slot (nwrite p) = x"
    using assms(1) by simp
qed

end
