(* ===== verification/Pipe_Properties.thy ===== *)
theory Pipe_Properties
  imports Pipe_Queue C_Strings_Properties Semaphore_Properties
begin

text \<open>
  The properties of \<open>Kernel/pipe.c\<close>: reading and writing as operations of a queue of bytes,
  for a caller that finds the pipe and its semaphore free, and the behaviour when the pipe is
  full, fresh, or read by two processes.
\<close>

section \<open>What updates leave alone\<close>

lemma upd_pipe_fields [simp]:
  "nodes (upd_pipe i f k) = nodes k" "procs (upd_pipe i f k) = procs k"
  "first (upd_pipe i f k) = first k" "currentNode (upd_pipe i f k) = currentNode k"
  "disable_count (upd_pipe i f k) = disable_count k" "semaphores (upd_pipe i f k) = semaphores k"
  "length (pipes (upd_pipe i f k)) = length (pipes k)" "block_count (upd_pipe i f k) = block_count k"
  by (simp_all add: upd_pipe_def)

lemma upd_pipe_nth [simp]:
  "pipes (upd_pipe i f k) ! j = (if i = j \<and> j < length (pipes k) then f (pipes k ! i) else pipes k ! j)"
  by (cases "i = j"; cases "i < length (pipes k)") (auto simp: upd_pipe_def list_update_beyond)

lemma ready_at_pipes [simp]: "pipes (ready_at k n) = pipes k"
  by (simp add: ready_at_def set_state_def upd_proc_def)

section \<open>The loop of \<open>pipe_read\<close>\<close>

lemma read_loop_takes:
  assumes "content p = q @ z # q'" and "END \<notin> set q" and "i + length q \<le> length addr"
    and "n = length q \<or> q' = [] \<and> length q \<le> n"
  shows "read_loop addr n i p =
    Some (take i addr @ q @ drop (i + length q) addr, i + length q, p\<lparr>nread := nread p + of_nat (length q)\<rparr>)"
  using assms
proof (induction q arbitrary: addr n i p)
  case Nil
  then have "nread p + 1 = nwrite p \<or> n = 0" using content_take(4) [of p z q'] by auto
  then show ?case by (cases n) auto
next
  case (Cons c q)
  then obtain m where n: "n = Suc m" by (cases n) auto
  have c: "content p = c # q @ z # q'" using Cons.prems(1) by simp
  let ?p = "p\<lparr>nread := nread p + 1\<rparr>"
  have ne: "nread p + 1 \<noteq> nwrite p" using content_take(4) [OF c] by simp
  have "read_loop (addr[i := c]) m (Suc i) ?p =
    Some (take (Suc i) (addr[i := c]) @ q @ drop (Suc i + length q) (addr[i := c]), Suc i + length q,
      ?p\<lparr>nread := nread ?p + of_nat (length q)\<rparr>)"
    using Cons.prems content_take(2) [OF c] n by (intro Cons.IH) auto
  with ne Cons.prems n content_take(1) [OF c] show ?case
    by (auto simp: take_Suc_conv_app_nth add.assoc)
qed

lemma store_two:
  "i + 1 < length b \<Longrightarrow> store b i [x, y] = Some (take i b @ [x, y] @ drop (i + 2) b)"
  using store_spec [of i b "[x, y]"] by (simp del: store.simps)

lemma content_skip: "content p = q @ r \<Longrightarrow> content (p\<lparr>nread := nread p + of_nat (length q)\<rparr>) = r"
proof (induction q arbitrary: p)
  case Nil
  then show ?case by simp
next
  case (Cons c q)
  then have "content (p\<lparr>nread := nread p + 1\<rparr>) = q @ r" by (intro content_take(2)) simp
  from Cons.IH [OF this] show ?case by (simp add: add.assoc)
qed

lemma read_loop_zeros:
  assumes "pi_data p = replicate 4096 0" and "nread p = nwrite p + of_nat j"
    and "j + n < 2 ^ 31" and "i + n \<le> length addr"
  shows "read_loop addr n i p =
    Some (take i addr @ replicate n 0 @ drop (i + n) addr, i + n, p\<lparr>nread := nread p + of_nat n\<rparr>)"
  using assms
proof (induction n arbitrary: addr i j p)
  case 0
  then show ?case by simp
next
  case (Suc n)
  have z: "pi_data p ! slot (nread p) = 0"
    using slot_less [of "nread p"] Suc.prems(1) by (simp add: PIPE_SIZE_def)
  have "(of_nat (Suc j) :: u32) \<noteq> 0"
    using Suc.prems(3) by (simp add: word_of_nat_eq_0_iff nat_dvd_not_less del: of_nat_Suc)
  then have ne: "nread p + 1 \<noteq> nwrite p" using Suc.prems(2) by (auto simp: add.assoc add.commute)
  have "read_loop (addr[i := 0]) n (Suc i) (p\<lparr>nread := nread p + 1\<rparr>) =
    Some (take (Suc i) (addr[i := 0]) @ replicate n 0 @ drop (Suc i + n) (addr[i := 0]), Suc i + n,
      p\<lparr>nread := nread p + 1 + of_nat n\<rparr>)"
    using Suc.IH [of "p\<lparr>nread := nread p + 1\<rparr>" "Suc j" "Suc i" "addr[i := 0]"] Suc.prems
    by (simp add: add.assoc add.commute)
  with z ne Suc.prems show ?case
    by (simp add: take_Suc_conv_app_nth ac_simps)
qed

lemma read_end_last:
  assumes "content p = [z]" and "i + 1 < length addr" and "length (pi_data p) = PIPE_SIZE"
    and "pi_data p ! slot (nwrite p) = END"
  shows "read_end addr i p = Some (take i addr @ [z, 0] @ drop (i + 2) addr,
    p\<lparr>nread := nwrite p, pi_data := (pi_data p)[slot (nwrite p) := 0]\<rparr>)"
proof -
  have n: "nread p + 1 = nwrite p" and z: "pi_data p ! slot (nread p) = z"
    using content_take(4,1) [of p z "[]"] assms(1) by simp_all
  have "store addr i [z, 0] = Some (take i addr @ [z, 0] @ drop (i + 2) addr)"
    using assms(2) store_two by simp
  with n z assms(4) show ?thesis by (simp add: read_end_def)
qed

lemma read_end_more:
  assumes "content p = z # y # q" and "i < length addr" and "z \<noteq> END"
  shows "read_end addr i p = Some (take i addr @ [0] @ drop (i + 1) addr, p)"
proof -
  have n: "nread p + 1 \<noteq> nwrite p" and z: "pi_data p ! slot (nread p) = z"
    using content_take(4,1) [OF assms(1)] by simp_all
  have "store addr i [0] = Some (take i addr @ [0] @ drop (i + 1) addr)"
    using assms(2) by (simp add: upd_conv_take_nth_drop)
  with n z assms(3) show ?thesis by (simp add: read_end_def)
qed

section \<open>A quiet pipe\<close>

text \<open>
  The caller finds nobody at the pipe and its semaphore free; \<open>s\<close> is the entry of the
  semaphore and \<open>ns\<close> the ring. The pid must not be 0 as an \<open>int\<close>: the lists use 0 for a
  free entry.
\<close>

definition quiet :: "kernel \<Rightarrow> u64 list \<Rightarrow> nat \<Rightarrow> nat \<Rightarrow> u64 \<Rightarrow> bool" where
  "quiet k ns i s pid \<longleftrightarrow>
     i < MAX_PIPES \<and> length (pipes k) = MAX_PIPES \<and> created (pipes k ! i) \<noteq> 0 \<and>
     length (pi_data (pipes k ! i)) = PIPE_SIZE \<and>
     rProcesses (pipes k ! i) = replicate PROCS 0 \<and> wProcesses (pipes k ! i) = replicate PROCS 0 \<and>
     s < length (semaphores k) \<and> get_sem_by_name (pi_name (pipes k ! i)) k = Some s \<and>
     sem_lock (semaphores k ! s) = 0 \<and> sem_value (semaphores k ! s) > 0 \<and>
     blocked_first (semaphores k ! s) = blocked_last (semaphores k ! s) \<and>
     lock_room k \<and> ring k ns \<and> hd ns = first k \<and> current_pid k = Some pid \<and> (ucast pid :: i32) \<noteq> 0"

lemma quietD:
  assumes "quiet k ns i s pid"
  shows "i < MAX_PIPES" "length (pipes k) = MAX_PIPES" "created (pipes k ! i) \<noteq> 0"
    "length (pi_data (pipes k ! i)) = PIPE_SIZE" "rProcesses (pipes k ! i) = replicate PROCS 0"
    "wProcesses (pipes k ! i) = replicate PROCS 0" "s < length (semaphores k)"
    "get_sem_by_name (pi_name (pipes k ! i)) k = Some s" "sem_lock (semaphores k ! s) = 0"
    "sem_value (semaphores k ! s) > 0" "blocked_first (semaphores k ! s) = blocked_last (semaphores k ! s)"
    "lock_room k" "ring k ns" "hd ns = first k" "current_pid k = Some pid" "(ucast pid :: i32) \<noteq> 0"
  using assms unfolding quiet_def by blast+

lemma current_pid_cong:
  "nodes k' = nodes k \<Longrightarrow> procs k' = procs k \<Longrightarrow> currentNode k' = currentNode k \<Longrightarrow> current_pid k' = current_pid k"
  using view_cong(6) [of k' k] by (simp add: current_pid_def)

lemma quiet_upd:
  assumes "quiet k ns i s pid" and "created (f (pipes k ! i)) = created (pipes k ! i)"
    and "pi_name (f (pipes k ! i)) = pi_name (pipes k ! i)"
    and "length (pi_data (f (pipes k ! i))) = length (pi_data (pipes k ! i))"
    and "rProcesses (f (pipes k ! i)) = rProcesses (pipes k ! i)"
    and "wProcesses (f (pipes k ! i)) = wProcesses (pipes k ! i)"
  shows "quiet (upd_pipe i f k) ns i s pid"
proof -
  note q = quietD [OF assms(1)]
  have v: "nodes (upd_pipe i f k) = nodes k" "procs (upd_pipe i f k) = procs k" by simp_all
  have l: "get_sem_by_name n (upd_pipe i f k) = get_sem_by_name n k" for n by (rule lookup_cong) simp_all
  have c: "current_pid (upd_pipe i f k) = current_pid k" by (rule current_pid_cong) simp_all
  show ?thesis
    unfolding quiet_def l c view_cong(8) [OF v] using q assms(2-6) by (simp add: lock_room_def)
qed

text \<open>The steps common to both operations, up to the loop: \<open>k'\<close> is the state inside.\<close>

definition entered :: "side \<Rightarrow> nat \<Rightarrow> nat \<Rightarrow> i32 \<Rightarrow> kernel \<Rightarrow> kernel" where
  "entered d i s pid k = upd_sem s (\<lambda>s. s\<lparr>sem_value := sem_value s - 1, sem_lock := 0\<rparr>)
     (upd_pipe i (set_side d 0 pid) k)"

lemma enter_pipe:
  assumes "quiet k ns i s pid"
  shows "bind (get_running_pid k) (\<lambda>pid k.
      bind (block_process_pipe i d (ucast pid) k) (\<lambda>_ k.
      bind (sem_wait (pi_name (pipes k ! i)) k) (\<lambda>_ k.
      bind (get_running_pid k) f))) = f pid (entered d i s (ucast pid) k)"
proof -
  note q = quietD [OF assms]
  let ?k1 = "upd_pipe i (set_side d 0 (ucast pid)) k"
  have l: "side_list d (pipes k ! i) = replicate PROCS 0"
    using q(5,6) by (cases d) (simp_all add: side_list_def)
  then have b: "block_process_pipe i d (ucast pid) k = Done () ?k1"
    by (simp add: block_process_pipe_def PROCS_def)
  have nm: "pi_name (pipes ?k1 ! i) = pi_name (pipes k ! i)"
    using q(1,2) by (cases d) (simp_all add: set_side_def)
  have "get_sem_by_name (pi_name (pipes ?k1 ! i)) ?k1 = Some s"
    unfolding nm using q(8) lookup_cong [of ?k1 k] by simp
  then have w: "sem_wait (pi_name (pipes ?k1 ! i)) ?k1 = Done 0 (entered d i s (ucast pid) k)"
    using q(9,10) by (simp add: sem_wait_free entered_def)
  have "current_pid (entered d i s (ucast pid) k) = current_pid k"
    by (rule current_pid_cong) (simp_all add: entered_def)
  with q(15) have g: "get_running_pid (entered d i s (ucast pid) k) = Done pid (entered d i s (ucast pid) k)"
    by (intro get_running_pid_current) simp
  from q(15) have "get_running_pid k = Done pid k" by (rule get_running_pid_current)
  with b w g show ?thesis by simp
qed

lemma index_of_hd: "index_of x (x # xs) = Some 0"
  by (simp add: index_of_def upt_conv_Cons del: upt_Suc)

lemma index_of_None: "x \<notin> set xs \<Longrightarrow> index_of x xs = None"
  by (auto simp: index_of_def find_None_iff)

text \<open>Releasing one's own entry makes one READY, running as one is.\<close>

definition readied :: "kernel \<Rightarrow> u64 list \<Rightarrow> u64 \<Rightarrow> kernel" where
  "readied k ns pid = (case node_of k ns pid of None \<Rightarrow> k | Some n \<Rightarrow> ready_at k n)"

lemma readied_fields [simp]:
  "pipes (readied k ns pid) = pipes k" "semaphores (readied k ns pid) = semaphores k"
  "nodes (readied k ns pid) = nodes k" "first (readied k ns pid) = first k"
  "disable_count (readied k ns pid) = disable_count k" "ring (readied k ns pid) ns = ring k ns"
proof -
  show "pipes (readied k ns pid) = pipes k" "semaphores (readied k ns pid) = semaphores k"
    "nodes (readied k ns pid) = nodes k" "first (readied k ns pid) = first k"
    "disable_count (readied k ns pid) = disable_count k"
    by (simp_all add: readied_def split: option.split)
  have "ring (ready_at k n) ns = ring (set_state k (nproc k n) READY) ns" for n
    by (rule view_cong(8)) (simp_all add: set_state_def)
  then show "ring (readied k ns pid) ns = ring k ns"
    by (simp add: readied_def set_state_def split: option.split)
qed

lemma release_writing:
  assumes "wProcesses (pipes k ! i) = v # vs" and "ring k ns" and "hd ns = first k"
  shows "release_process_pipe i Writing v k =
    Done () (upd_pipe i (set_side Writing 0 0) (readied k ns (scast v)))"
  using assms(1) ready_process_ring [OF assms(2,3), of "scast v"]
  by (auto simp: release_process_pipe_def side_list_def index_of_hd readied_def split: option.split)

lemma release_absent:
  assumes "v \<notin> set (wProcesses (pipes k ! i))"
  shows "release_process_pipe i Writing v k = Done () k"
  using assms by (simp add: release_process_pipe_def side_list_def index_of_None)

text \<open>The state inside a quiet pipe.\<close>

lemma entered_facts:
  fixes d :: side
  assumes "quiet k ns i s pid"
  defines "e \<equiv> entered d i s (ucast pid) k"
  shows "ring e ns" "hd ns = first e" "lock_room e" "s < length (semaphores e)"
    "semaphores e = (semaphores k)[s := (semaphores k ! s)\<lparr>sem_value := sem_value (semaphores k ! s) - 1, sem_lock := 0\<rparr>]"
    "pipes e ! i = set_side d 0 (ucast pid) (pipes k ! i)" "j \<noteq> i \<Longrightarrow> pipes e ! j = pipes k ! j"
    "length (pipes e) = MAX_PIPES" "node_of e ns = node_of k ns"
proof -
  note q = quietD [OF assms(1)]
  have v: "nodes e = nodes k" "procs e = procs k" by (simp_all add: e_def entered_def)
  show "ring e ns" using q(13) view_cong(8) [OF v] by simp
  show "node_of e ns = node_of k ns" by (rule ext) (simp add: node_of_def view_cong(6) [OF v])
  show "hd ns = first e" "lock_room e" "s < length (semaphores e)" "length (pipes e) = MAX_PIPES"
    using q by (simp_all add: e_def entered_def lock_room_def)
  show "semaphores e = (semaphores k)[s := (semaphores k ! s)\<lparr>sem_value := sem_value (semaphores k ! s) - 1, sem_lock := 0\<rparr>]"
    by (simp add: e_def entered_def upd_sem_def upd_pipe_def)
  show "pipes e ! i = set_side d 0 (ucast pid) (pipes k ! i)" "j \<noteq> i \<Longrightarrow> pipes e ! j = pipes k ! j"
    using q(1,2) by (simp_all add: e_def entered_def)
qed

lemma lookup_entered:
  assumes "quiet k ns i s pid" and "semaphores k' = semaphores (entered d i s (ucast pid) k)"
  shows "get_sem_by_name (pi_name (pipes k ! i)) k' = Some s"
proof -
  have "get_sem_by_name (pi_name (pipes k ! i)) k' = get_sem_by_name (pi_name (pipes k ! i)) k"
    by (rule lookup_cong) (simp_all add: assms(2) entered_def)
  with quietD(8) [OF assms(1)] show ?thesis by simp
qed

section \<open>Properties\<close>

text \<open>
  C10. Writing a string of at most \<open>4095\<close> bytes less what is pending to a quiet pipe: all of it
  is accepted and queued behind the unread bytes, the end marker follows, and no other pipe
  and no semaphore is changed. The caller, which is running, comes out READY: releasing its
  entry in the list of writers goes through \<open>ready_process\<close>.
\<close>
theorem pipe_write_correct:
  assumes "quiet k ns i s pid" and "0 \<notin> set w" and "n = 0 \<or> int (length w) \<le> n"
    and "pending (pipes k ! i) + length w < 4096"
  shows "\<exists>k'. pipe_write (int i) (w @ 0 # r) n k = Done (int (length w)) k' \<and>
    content (pipes k' ! i) = content (pipes k ! i) @ w \<and>
    pi_data (pipes k' ! i) ! slot (nwrite (pipes k' ! i)) = END \<and>
    wProcesses (pipes k' ! i) = replicate 10 0 \<and>
    (\<forall>j. j \<noteq> i \<longrightarrow> pipes k' ! j = pipes k ! j) \<and> semaphores k' = semaphores k \<and>
    (\<forall>m. node_of k ns (int_pid pid) = Some m \<longrightarrow> state_at k' m = Some READY)"
proof -
  note q = quietD [OF assms(1)]
  let ?v = "ucast pid :: i32" and ?p = "pipes k ! i" and ?e = "entered Writing i s (ucast pid) k"
  let ?k2 = "upd_pipe i (set_side Writing 0 0) (readied ?e ns (scast ?v))"
  let ?p' = "put_bytes w ?p"
  let ?p2 = "?p'\<lparr>pi_data := (pi_data ?p')[slot (nwrite ?p') := END]\<rparr>"
  let ?k3 = "upd_pipe i (\<lambda>_. ?p2) ?k2"
  note e = entered_facts [OF assms(1), where d = Writing]
  have "wProcesses (pipes ?e ! i) = ?v # replicate 9 0"
    using q(6) e(6) by (simp add: set_side_def PROCS_def numeral_eq_Suc)
  from release_writing [OF this e(1,2)]
  have rel: "release_process_pipe i Writing ?v ?e = Done () ?k2" .
  have p2: "pipes ?k2 ! i = ?p"
    using e(6,8) q(1,6) by (cases ?p) (simp add: set_side_def PROCS_def numeral_eq_Suc)
  have strlen: "strlen (w @ 0 # r) = Some (length w)" by (rule strlen_spec [OF assms(2)])
  define n' where "n' = (if n = 0 then int (length w) else n)"
  have n': "int (length w) \<le> n'" using assms(3) by (auto simp: n'_def)
  have wl: "write_loop (w @ 0 # r) (nat n') 0 ?p = Some (length w, ?p')"
  proof -
    have "\<forall>c\<in>set w. c \<noteq> 0" using assms(2) by metis
    moreover have "length w \<le> nat n'" using n' by linarith
    ultimately show ?thesis using write_loop_accepts [of w "nat n'" ?p "0 # r" 0] assms(4) by simp
  qed
  have pb: "content ?p' = content ?p @ w" "length (pi_data ?p') = PIPE_SIZE" "pending ?p' < PIPE_SIZE"
    "?p' = ?p\<lparr>pi_data := pi_data ?p', nwrite := nwrite ?p'\<rparr>"
    using put_bytes_content [of ?p w] q(4) assms(4) by (simp_all add: PIPE_SIZE_def)
  have nm: "pi_name ?p' = pi_name ?p" "wProcesses ?p' = wProcesses ?p" by (subst pb(4), simp)+
  have s3: "semaphores ?k3 = semaphores ?e" by simp
  have v3: "nodes ?k3 = nodes (readied ?e ns (scast ?v))" "procs ?k3 = procs (readied ?e ns (scast ?v))" by simp_all
  have post: "sem_post (pi_name ?p') ?k3 = Done 0 (?k3\<lparr>semaphores := semaphores k\<rparr>)"
  proof (rule leave_sem)
    show "get_sem_by_name (pi_name ?p') ?k3 = Some s"
      unfolding nm by (rule lookup_entered [OF assms(1) s3])
    show "ring ?k3 ns" using e(1) view_cong(8) [OF v3] by simp
  qed (use e q s3 in \<open>simp_all add: lock_room_def\<close>)
  have "pipe_write (int i) (w @ 0 # r) n k = Done (int (length w)) (?k3\<lparr>semaphores := semaphores k\<rparr>)"
  proof -
    have c: "(if n = 0 then map_option int (strlen (w @ 0 # r)) else Some n) = Some n'"
      by (simp add: strlen n'_def)
    have ix: "(0 \<le> int i \<and> int i < int MAX_PIPES) = True" using q(1) by simp
    show ?thesis
      by (simp only: pipe_write_def with_pipe_def c ix option.case if_True nat_int q(3) if_False
          enter_pipe [OF assms(1), where d = Writing] rel bind_simps p2 wl prod.case post pipe_t.simps)
  qed
  moreover have "state_at (?k3\<lparr>semaphores := semaphores k\<rparr>) m = Some READY"
    if "node_of k ns (int_pid pid) = Some m" for m
  proof -
    have "m \<in> set ns" using node_of_Some that by blast
    then have nb: "\<not> broken ?e m" using ringD(4) [OF e(1)] by blast
    have "readied ?e ns (scast ?v) = ready_at ?e m"
      using that e(9) by (simp add: readied_def int_pid_def)
    then have v4: "nodes (?k3\<lparr>semaphores := semaphores k\<rparr>) = nodes (set_state ?e (nproc ?e m) READY)"
      "procs (?k3\<lparr>semaphores := semaphores k\<rparr>) = procs (set_state ?e (nproc ?e m) READY)"
      by (simp_all add: set_state_def)
    show ?thesis unfolding view_cong(5) [OF v4] using nb by (simp add: state_at_set_state)
  qed
  ultimately show ?thesis
    using pb q(6) e(7,8) q(1) content_mark [OF pb(2,3), of END] nm(2)
    by (intro exI [of _ "?k3\<lparr>semaphores := semaphores k\<rparr>"]) (simp add: PROCS_def)
qed

text \<open>
  C11. Reading all that is pending, \<open>q\<close> and a last byte \<open>z\<close>, from a quiet pipe: the array gets
  the bytes in order and a terminator, the pipe is empty afterwards, no other pipe and no
  semaphore is changed. The result is one less than the number of bytes delivered. The entry
  of the reader in the list of readers stays: the release looks in the list of writers.
\<close>
theorem pipe_read_correct:
  assumes "quiet k ns i s pid" and "content (pipes k ! i) = q @ [z]" and "END \<notin> set q"
    and "pi_data (pipes k ! i) ! slot (nwrite (pipes k ! i)) = END"
    and "int (length q) \<le> n" and "length q + 1 < length addr"
  shows "\<exists>k'. pipe_read (int i) addr n k =
      Done (int (length q), q @ [z, 0] @ drop (length q + 2) addr) k' \<and>
    content (pipes k' ! i) = [] \<and> rProcesses (pipes k' ! i) = ucast pid # replicate 9 0 \<and>
    (\<forall>j. j \<noteq> i \<longrightarrow> pipes k' ! j = pipes k ! j) \<and> semaphores k' = semaphores k"
proof -
  note qd = quietD [OF assms(1)]
  let ?v = "ucast pid :: i32" and ?e = "entered Reading i s (ucast pid) k"
  let ?p = "pipes ?e ! i"
  note e = entered_facts [OF assms(1), where d = Reading]
  have p: "?p = (pipes k ! i)\<lparr>rProcesses := ?v # replicate 9 0\<rparr>"
    using qd(5) e(6) by (simp add: set_side_def PROCS_def numeral_eq_Suc)
  have pf: "content ?p = q @ [z]" "length (pi_data ?p) = PIPE_SIZE" "pi_name ?p = pi_name (pipes k ! i)"
    "pi_data ?p ! slot (nwrite ?p) = END"
    using assms(2,4) qd(4) unfolding p by (simp_all add: content_def pending_def)
  have rel: "release_process_pipe i Writing ?v ?e = Done () ?e"
    using qd(6,16) unfolding release_process_pipe_def side_list_def
    by (intro release_absent [unfolded release_process_pipe_def side_list_def])
      (simp add: p)
  let ?p1 = "?p\<lparr>nread := nread ?p + of_nat (length q)\<rparr>"
  have rl: "read_loop addr (nat n) 0 ?p = Some (q @ drop (length q) addr, length q, ?p1)"
  proof -
    have "length q = nat n \<or> length q \<le> nat n" using assms(5) by linarith
    then show ?thesis
      using read_loop_takes [of ?p q z "[]" 0 addr "nat n"] pf(1) assms(3,6) by auto
  qed
  have c1: "content ?p1 = [z]" by (rule content_skip) (rule pf(1))
  let ?p2 = "?p1\<lparr>nread := nwrite ?p, pi_data := (pi_data ?p)[slot (nwrite ?p) := 0]\<rparr>"
  have re: "read_end (q @ drop (length q) addr) (length q) ?p1 =
    Some (q @ [z, 0] @ drop (length q + 2) addr, ?p2)"
    using read_end_last [OF c1, of "length q" "q @ drop (length q) addr"] pf(2,4) assms(6) by simp
  let ?k3 = "upd_pipe i (\<lambda>_. ?p2) ?e"
  have s3: "semaphores ?k3 = semaphores ?e" by simp
  have v3: "nodes ?k3 = nodes ?e" "procs ?k3 = procs ?e" by simp_all
  have post: "sem_post (pi_name ?p2) ?k3 = Done 0 (?k3\<lparr>semaphores := semaphores k\<rparr>)"
  proof (rule leave_sem)
    show "get_sem_by_name (pi_name ?p2) ?k3 = Some s"
      using lookup_entered [OF assms(1) s3] pf(3) by simp
    show "ring ?k3 ns" using e(1) view_cong(8) [OF v3] by simp
  qed (use e qd s3 in \<open>simp_all add: lock_room_def\<close>)
  have ix: "(0 \<le> int i \<and> int i < int MAX_PIPES) = True" using qd(1) by simp
  have "pipe_read (int i) addr n k =
    Done (int (length q), q @ [z, 0] @ drop (length q + 2) addr) (?k3\<lparr>semaphores := semaphores k\<rparr>)"
    by (simp only: pipe_read_def with_pipe_def ix if_True nat_int qd(3) if_False
        enter_pipe [OF assms(1), where d = Reading] rel bind_simps rl option.case prod.case re post)
  moreover have "content ?p2 = []" by (simp add: content_def pending_def)
  ultimately show ?thesis using e(7,8) qd(1) p
    by (intro exI [of _ "?k3\<lparr>semaphores := semaphores k\<rparr>"]) simp
qed

text \<open>
  A second reader never gets in: when another process is first in the list of readers,
  where \<open>pipe_read\<close> leaves it for good, \<open>pipe_read\<close> blocks the caller and gives up the
  processor; nothing in the pipe will make it READY again.
\<close>
theorem pipe_second_reader_blocks:
  assumes "ring k ns" and "hd ns = first k" and "current_pid k = Some pid"
    and "i < 10" and "created (pipes k ! i) \<noteq> 0" and "rProcesses (pipes k ! i) = v # vs"
    and "v \<noteq> 0" and "v \<noteq> ucast pid" and "node_of k ns (int_pid pid) = Some m"
  shows "\<exists>k' c. pipe_read (int i) addr n k = Resched k' c \<and> state_at k' m = Some BLOCKED \<and>
    (\<forall>x\<in>set ns. x \<noteq> m \<longrightarrow> state_at k' x = state_at k x) \<and> pipes k' = pipes k"
proof -
  have m: "m \<in> set ns" "pid_at k m = Some (int_pid pid)" using node_of_Some [OF assms(9)] by auto
  from ringD(4) [OF assms(1) m(1)] obtain a r where a: "nodes k m = Some a"
    "procs k (n_proc a) = Some r" "nproc k m = n_proc a"
    by (rule not_broken)
  have "m \<noteq> 0" by (rule ring_nonzero [OF assms(1) m(1)])
  have "find_node (int_pid pid) k = Done m k"
    using find_node_ring [OF assms(1,2), of "int_pid pid"] assms(9) by (simp add: node_of_def)
  then obtain c where bp: "block_process (int_pid pid) k = Resched (set_state k (nproc k m) BLOCKED) c"
    using a \<open>m \<noteq> 0\<close> by (auto simp: block_process_def)
  have "takeWhile (\<lambda>x. x \<noteq> 0) (v # vs) = v # takeWhile (\<lambda>x. x \<noteq> 0) vs" using assms(7) by simp
  then have "block_process_pipe i Reading (ucast pid) k =
    bind (block_process (int_pid pid) k) (\<lambda>_ k. Done () k)"
    using assms(6,8) by (simp add: block_process_pipe_def side_list_def int_pid_def)
  then have "\<exists>c. pipe_read (int i) addr n k = Resched (set_state k (nproc k m) BLOCKED) c"
    using bp assms(4,5) get_running_pid_current [OF assms(3)]
    by (simp add: pipe_read_def with_pipe_def MAX_PIPES_def)
  moreover have "state_at (set_state k (nproc k m) BLOCKED) x =
      (if x = m then Some BLOCKED else state_at k x)" if "x \<in> set ns" for x
    using ringD(4) [OF assms(1)] ringD(5) [OF assms(1)] that m(1)
    by (auto simp: state_at_set_state distinct_map inj_on_def)
  moreover have "pipes (set_state k (nproc k m) BLOCKED) = pipes k"
    by (simp add: set_state_def upd_proc_def)
  ultimately show ?thesis using m(1) by (metis (full_types))
qed



section \<open>A small pipe\<close>

definition pipe_ex :: kernel where
  "pipe_ex = ring_ex\<lparr>currentNode := 0x200, semaphores := semaphores sem_ex1,
     pipes := (replicate 10 pipe_zero)[0 := pipe_zero\<lparr>pi_name := nmA, created := 1\<rparr>]\<rparr>"

lemma pipe_ex_quiet: "quiet pipe_ex [0x100, 0x200] 0 0 1"
proof -
  have v: "nodes pipe_ex = nodes ring_ex" "procs pipe_ex = procs ring_ex"
    by (simp_all add: pipe_ex_def)
  have r: "ring pipe_ex [0x100, 0x200]" using ring_ex_ring view_cong(8) [OF v] by simp
  have f: "hd [0x100, 0x200] = first pipe_ex" "lock_room pipe_ex"
    by (simp_all add: pipe_ex_def ring_ex_def kernel_zero_def lock_room_def)
  have c: "current_pid pipe_ex = Some 1"
    by (simp add: current_pid_def view_cong(6) [OF v]) (simp add: pipe_ex_def ring_ex_views)
  have "get_sem_by_name nmA pipe_ex = get_sem_by_name nmA sem_ex1"
    by (rule lookup_cong) (simp_all add: pipe_ex_def)
  then have l: "get_sem_by_name nmA pipe_ex = Some 0" by (simp add: sem_ex1_lookup)
  have s: "semaphores pipe_ex = semaphores sem_ex1" by (simp add: pipe_ex_def)
  have p: "pipes pipe_ex ! 0 = pipe_zero\<lparr>pi_name := nmA, created := 1\<rparr>" "length (pipes pipe_ex) = 10"
    by (simp_all add: pipe_ex_def)
  show ?thesis
    unfolding quiet_def s p(1) using r f c l p(2) sem_ex1_lookup(5,6)
    by (simp add: pipe_zero_def new_sem_def sem_zero_def MAX_PIPES_def PIPE_SIZE_def PROCS_def MAX_SEMS_def)
qed

theorem pipe_write_correct_witness:
  "\<exists>k'. pipe_write 0 [72, 105, 0] 0 pipe_ex = Done 2 k' \<and> content (pipes k' ! 0) = [72, 105]"
proof -
  have "content (pipes pipe_ex ! 0) = []" "pending (pipes pipe_ex ! 0) = 0"
    by (simp_all add: pipe_ex_def pipe_zero_def content_def pending_def)
  with pipe_write_correct [OF pipe_ex_quiet, of "[72, 105]" 0 "[]"] show ?thesis by auto
qed

theorem pipe_read_correct_witness:
  "\<exists>k'. pipe_read 0 [9, 9, 9, 9, 9] 5 (upd_pipe 0 (\<lambda>p. p\<lparr>nwrite := 2, pi_data := (pi_data p)
    [0 := 72, 1 := 105, 2 := END]\<rparr>) pipe_ex) = Done (1, [72, 105, 0, 9, 9]) k'"
proof -
  let ?k = "upd_pipe 0 (\<lambda>p. p\<lparr>nwrite := 2, pi_data := (pi_data p)[0 := 72, 1 := 105, 2 := END]\<rparr>) pipe_ex"
  note x = quietD [OF pipe_ex_quiet]
  have q: "quiet ?k [0x100, 0x200] 0 0 1" by (rule quiet_upd [OF pipe_ex_quiet]) simp_all
  have d: "content (pipes ?k ! 0) = [72] @ [105]" "pi_data (pipes ?k ! 0) ! slot (nwrite (pipes ?k ! 0)) = END"
    using x(2) by (simp_all add: pipe_ex_def pipe_zero_def content_def pending_def slot_def PIPE_SIZE_def MAX_PIPES_def upt_rec)
  have "END \<notin> set [72]" by simp
  from pipe_read_correct [OF q d(1) this d(2), of 5 "[9, 9, 9, 9, 9]"] show ?thesis by auto
qed

theorem pipe_second_reader_blocks_witness:
  "\<exists>k' c. pipe_read 0 [] 5 (upd_pipe 0 (set_side Reading 0 7) pipe_ex) = Resched k' c \<and>
    state_at k' 0x200 = Some BLOCKED"
proof -
  let ?k = "upd_pipe 0 (set_side Reading 0 7) pipe_ex"
  have v: "nodes ?k = nodes ring_ex" "procs ?k = procs ring_ex" by (simp_all add: pipe_ex_def)
  note x = quietD [OF pipe_ex_quiet]
  have r: "ring ?k [0x100, 0x200]" "hd [0x100, 0x200] = first ?k"
    using ring_ex_ring view_cong(8) [OF v] x(14) by simp_all
  have c: "current_pid ?k = Some 1"
    using x(15) current_pid_cong [of ?k pipe_ex] by simp
  have n: "node_of ?k [0x100, 0x200] (int_pid 1) = Some 0x200"
    by (simp add: node_of_def view_cong(6) [OF v] ring_ex_views int_pid_def)
  have h: "created (pipes ?k ! 0) \<noteq> 0" "rProcesses (pipes ?k ! 0) = 7 # replicate 9 0"
    using x(1-5) by (simp_all add: set_side_def PROCS_def MAX_PIPES_def numeral_eq_Suc)
  from pipe_second_reader_blocks [OF r c _ h _ _ n, of "[]" 5] show ?thesis by auto
qed

text \<open>
  A fresh pipe holds zeros and no end marker, so a reader that comes before the writer does
  not see an empty pipe: it gets \<open>n\<close> zero bytes, and its position moves \<open>n\<close> bytes ahead of
  where the writer will start. What is written next, up to \<open>n - 1\<close> bytes, is accepted behind the
  reader and never delivered.
\<close>
theorem pipe_fresh_read_skips:
  assumes "pi_data p = replicate 4096 0" and "nread p = nwrite p" and "0 < n" "n \<le> length addr" "n < 2 ^ 31"
    and "0 \<notin> set w" and "length w < n"
  shows "\<exists>p' p2. read_loop addr n 0 p = Some (replicate n 0 @ drop n addr, n, p') \<and>
    nread p' = nwrite p' + of_nat n \<and>
    write_loop (w @ 0 # r) (length w) 0 p' = Some (length w, p2) \<and>
    nread p2 = nwrite p2 + of_nat (n - length w)"
proof -
  let ?p' = "p\<lparr>nread := nread p + of_nat n\<rparr>"
  have r: "read_loop addr n 0 p = Some (replicate n 0 @ drop n addr, n, ?p')"
    using read_loop_zeros [of p 0 n 0 addr] assms by simp
  have nz: "\<forall>c\<in>set w. c \<noteq> 0" using assms(6) by metis
  have "(of_nat (2 ^ 32 - n) :: u32) = of_nat (2 ^ 32) - of_nat n"
    using assms(5) by (intro of_nat_diff) simp
  then have "- (of_nat n :: u32) = of_nat (2 ^ 32 - n)" by simp
  moreover have "pending ?p' = unat (- (of_nat n :: u32))" using assms(2) by (simp add: pending_def)
  ultimately have "pending ?p' = 2 ^ 32 - n"
    using assms(3) by (simp only: unat_of_nat) simp
  then have w: "write_loop (w @ 0 # r) (length w) 0 ?p' = Some (0 + length w, put_bytes w ?p')"
    using assms(5,7) by (intro write_loop_accepts nz) simp_all
  have "nwrite (put_bytes w q) = nwrite q + of_nat (length w) \<and> nread (put_bytes w q) = nread q" for q
    by (induction w arbitrary: q) (simp_all add: put_byte_def add.assoc)
  then show ?thesis using r w assms(2,7) by (simp add: of_nat_diff)
qed

theorem pipe_fresh_read_skips_witness:
  "\<exists>p'. read_loop [1, 1, 1] 3 0 pipe_zero = Some ([0, 0, 0], 3, p') \<and> nread p' = nwrite p' + 3"
  using pipe_fresh_read_skips [of pipe_zero 3 "[1, 1, 1]" "[]" "[]"]
proof -
  have z: "pi_data pipe_zero = replicate 4096 0" "nread pipe_zero = nwrite pipe_zero"
    by (simp_all add: pipe_zero_def)
  have "replicate 3 (0 :: byte) @ drop 3 [1, 1, 1] = [0, 0, 0]" by (simp add: numeral_3_eq_3)
  with pipe_fresh_read_skips [OF z, of 3 "[1, 1, 1]" "[]" "[]"] show ?thesis by fastforce
qed

end
