(* ===== verification/Process.thy ===== *)
theory Process
  imports Pipe
begin

text \<open>
  Process creation and destruction, \<open>Kernel/process.c\<close> and \<open>Kernel/stack.c\<close>, with the write
  system call that \<open>free_proc\<close> makes.
\<close>

section \<open>Writing\<close>

text \<open>\<open>sys_write\<close> of \<open>Kernel/syscallManager.c\<close>: the buffer is memory from \<open>string\<close> on.\<close>

definition sys_write :: "byte \<Rightarrow> buffer \<Rightarrow> u64 \<Rightarrow> color \<Rightarrow> kernel \<Rightarrow> u64 res" where
  "sys_write fd string n colour k =
     (let colour = (if fd = 2 then RED else colour); fd = (if fd = 2 then 1 else fd) in
      bind (get_current_write k) (\<lambda>pipe_fd k.
        if fd = 0 then Done 0 k
        else if fd \<noteq> 1 \<and> n = 0 then Done 0 k
        else if pipe_fd = 1
          then if 0 \<in> set string
            then bind (printString (takeWhile (\<lambda>c. c \<noteq> 0) string) colour k) (\<lambda>_ k. Done 0 k)
            else Fault
        else bind (pipe_write (sint (ucast (pipe_fd - 3) :: i32)) string (sint (ucast n :: i32)) k)
               (\<lambda>ret k. Done (of_int ret) k)))"

section \<open>Stacks\<close>

definition createStack :: "u64 \<Rightarrow> u64 \<Rightarrow> u64 \<Rightarrow> u64 \<Rightarrow> u64 \<Rightarrow> StackFrame" where
  "createStack kill entryPoint stackBase argc argv =
     \<lparr>sf_r15 = 0, sf_r14 = 0, sf_r13 = 0, sf_r12 = 0, sf_r11 = 0, sf_r10 = 0, sf_r9 = 0, sf_r8 = 0,
      sf_rsi = argv, sf_rdi = argc, sf_rbp = 0, sf_rdx = 0, sf_rcx = 0, sf_rbx = 0, sf_rax = 0,
      sf_ip = entryPoint, sf_cs = 0x8, sf_eflags = 0x202, sf_sp = stackBase, sf_ss = 0,
      sf_returnAddress = kill\<rparr>"

section \<open>Arguments\<close>

text \<open>The length of a null-terminated array of pointers; \<open>None\<close> when there is no end to it.\<close>

partial_function (option) count_argv :: "(u64 \<Rightarrow> u64) \<Rightarrow> u64 \<Rightarrow> u64 \<Rightarrow> u64 option" where
  "count_argv mem argv count =
     (if mem (argv + 8 * count) = 0 then Some count else count_argv mem argv (count + 1))"

declare count_argv.simps [code]

fun free_all :: "u64 list \<Rightarrow> kernel \<Rightarrow> unit res" where
  "free_all [] k = Done () k"
| "free_all (p # ps) k = bind (kfree p k) (\<lambda>_ k. free_all ps k)"

text \<open>The pointers \<open>argv[0]\<close> to \<open>argv[n - 1]\<close>. Freeing memory does not change them.\<close>

definition pointers :: "kernel \<Rightarrow> u64 \<Rightarrow> nat \<Rightarrow> u64 list" where
  "pointers k argv n = map (\<lambda>i. cells k (argv + 8 * of_nat i)) [0..<n]"

definition free_argv :: "u64 \<Rightarrow> kernel \<Rightarrow> unit res" where
  "free_argv argv k =
     (case count_argv (cells k) argv 0 of
        None \<Rightarrow> Loop
      | Some n \<Rightarrow> bind (free_all (pointers k argv (unat n)) k) (\<lambda>_ k. kfree argv k))"

definition set_cell :: "u64 \<Rightarrow> nat \<Rightarrow> u64 \<Rightarrow> kernel \<Rightarrow> kernel" where
  "set_cell ret i v k = k\<lparr>cells := (cells k)(ret + 8 * of_nat i := v)\<rparr>"

text \<open>The copying loop of \<open>save_argv\<close>: \<open>n\<close> strings are left, from index \<open>i\<close>. The result is \<open>ret\<close> or 0.\<close>

fun save_loop :: "u64 \<Rightarrow> u64 \<Rightarrow> nat \<Rightarrow> nat \<Rightarrow> kernel \<Rightarrow> u64 res" where
  "save_loop ret argv i 0 k = Done ret (set_cell ret i 0 k)"
| "save_loop ret argv i (Suc n) k =
     (let src = cells k (argv + 8 * of_nat i) in
      bind (kmalloc (of_nat (length (cstr k src)) + 1) k) (\<lambda>p k.
        let k = set_cell ret i p k in
        if p = 0
        then bind (free_all (pointers k ret i) k) (\<lambda>_ k. bind (kfree ret k) (\<lambda>_ k. Done 0 k))
        else save_loop ret argv (Suc i) n (k\<lparr>cstr := (cstr k)(p := cstr k src)\<rparr>)))"

text \<open>\<open>(argc + 1) * sizeof(char *)\<close> in the signed arithmetic of \<open>argc\<close>, widened.\<close>

definition save_argv :: "i32 \<Rightarrow> u64 \<Rightarrow> kernel \<Rightarrow> u64 res" where
  "save_argv argc argv k =
     bind (kmalloc (scast (argc + 1) * 8) k) (\<lambda>ret k.
       if ret = 0 then Done 0 k else save_loop ret argv 0 (nat (sint argc)) k)"

section \<open>Processes\<close>

abbreviation sizeof_Process :: u64 where "sizeof_Process \<equiv> 104"
abbreviation sizeof_StackFrame :: u64 where "sizeof_StackFrame \<equiv> 168"
abbreviation STACK_FRAME_SIZE :: u64 where "STACK_FRAME_SIZE \<equiv> 4000"

definition PIDC_MUTEX :: cstring where "PIDC_MUTEX = ascii ''PROCESSES_MUTEX''"
definition PROC_MUTEX :: cstring where "PROC_MUTEX = ascii ''PROC_MUTEX''"
definition SCHED_MUTEX :: cstring where "SCHED_MUTEX = ascii ''SCHEDULER_MUTEX''"

text \<open>The result is the process, 0 when memory ran out. The saved arguments are not checked.\<close>

definition newProcess :: "u64 \<Rightarrow> u64 \<Rightarrow> u64 \<Rightarrow> u64 \<Rightarrow> u64 \<Rightarrow> u64 \<Rightarrow> kernel \<Rightarrow> u64 res" where
  "newProcess name entryPoint argv read_fd write_fd priority k =
     bind (kmalloc sizeof_Process k) (\<lambda>proc k.
     if proc = 0 then Done 0 k
     else
       case count_argv (cells k) argv 0 of
         None \<Rightarrow> Loop
       | Some count \<Rightarrow>
           let argc = ucast count :: i32 in
           bind (save_argv argc argv k) (\<lambda>saved_argv k.
           bind (kmalloc STACK_FRAME_SIZE k) (\<lambda>stack k.
           if stack = 0 then bind (kfree proc k) (\<lambda>_ k. Done 0 k)
           else
             let stackBase = stack + STACK_FRAME_SIZE - 8;
                 sp = stack + STACK_FRAME_SIZE - sizeof_StackFrame;
                 k = k\<lparr>frames := (frames k)(sp \<mapsto>
                   createStack (kill_address k) entryPoint stackBase (scast argc) saved_argv)\<rparr>
             in
             bind (sem_wait PIDC_MUTEX k) (\<lambda>_ k.
             let pid = pidc k in
             bind (sem_post PIDC_MUTEX (k\<lparr>pidc := pidc k + 1\<rparr>)) (\<lambda>_ k.
             bind (get_running_pid k) (\<lambda>ppid k.
             Done proc (k\<lparr>procs := (procs k)(proc \<mapsto>
               \<lparr>p_name = name, p_argv = saved_argv, p_pid = pid, p_ppid = ppid, p_sp = sp, p_bp = stackBase,
                p_state = NEW, p_stack = stack, p_read_fd = read_fd, p_write_fd = write_fd,
                p_priority = priority, p_children = 0, p_blocked_by_children = 0\<rparr>)\<rparr>)))))))"

text \<open>
  The end-of-file character is passed as a pointer: what is written is the memory at
  address 4, one byte of it to a pipe, the whole string to the screen.
\<close>

definition free_proc :: "u64 \<Rightarrow> kernel \<Rightarrow> unit res" where
  "free_proc proc k =
     with_proc k proc (\<lambda>r.
     bind (kfree (p_stack r) k) (\<lambda>_ k.
     bind (free_argv (p_argv r) k) (\<lambda>_ k.
     bind (sys_write (ucast (p_write_fd r)) (cstr k 4 @ [0]) 1 WHITE k) (\<lambda>_ k.
     kfree proc k))))"

end
