(* ===== verification/Scheduler.thy ===== *)
theory Scheduler
  imports Process
begin

text \<open>
  The scheduler proper, \<open>Kernel/scheduler.c\<close>: initialisation, adding and killing processes,
  and the switch on each timer tick.
\<close>

definition MAX_QUANTUM :: u64 where "MAX_QUANTUM = 5"

section \<open>Adding processes\<close>

text \<open>\<open>argv\<close> is the address of the local array that holds one NULL.\<close>

definition init_scheduler :: "u64 \<Rightarrow> u64 \<Rightarrow> u64 \<Rightarrow> kernel \<Rightarrow> unit res" where
  "init_scheduler idle_name idle argv k =
     bind (kmalloc sizeof_Node k) (\<lambda>newNode k.
     if newNode = 0 then printString (ascii ''MemError'') RED k
     else
       bind (newProcess idle_name idle argv 0 1 MAX_QUANTUM k) (\<lambda>proc k.
       with_proc k proc (\<lambda>r.
       let k = k\<lparr>nodes := (nodes k)(newNode \<mapsto> \<lparr>n_quantums = MAX_QUANTUM, n_proc = proc, n_next = newNode\<rparr>),
             first := newNode, currentNode := newNode\<rparr>;
           k = (set_state k proc RUNNING)\<lparr>counter := counter k + 1\<rparr>
       in
       bind (sem_open PIDC_MUTEX 1 k) (\<lambda>_ k.
       bind (sem_open SCHED_MUTEX 1 k) (\<lambda>_ k.
       bind (sem_open PROC_MUTEX 1 k) (\<lambda>_ k. Done () k))))))"

definition add_process :: "u64 \<Rightarrow> u64 \<Rightarrow> u64 \<Rightarrow> u64 \<Rightarrow> u64 \<Rightarrow> u64 \<Rightarrow> u64 \<Rightarrow> kernel \<Rightarrow> u64 res" where
  "add_process name program argv read_fd write_fd priority is_foreground k =
     bind (scheduler_disable k) (\<lambda>_ k.
     bind (newProcess name program argv read_fd write_fd (if priority > 5 then 5 else priority) k) (\<lambda>proc k.
     bind (sem_wait PROC_MUTEX k) (\<lambda>_ k.
     with_node_proc k (currentNode k) (\<lambda>cur _.
     let k = upd_proc k cur (\<lambda>r. r\<lparr>p_children := p_children r + 1\<rparr>) in
     bind (sem_post PROC_MUTEX k) (\<lambda>_ k.
     bind (add_node proc k) (\<lambda>newNode k.
     let k = (if is_foreground = 1
         then k\<lparr>background := (if background k = 0 then foreground k else background k),
                foreground := newNode\<rparr>
         else k);
         k = k\<lparr>counter := counter k + 1\<rparr>
     in
     bind (scheduler_enable k) (\<lambda>_ k.
     with_proc k proc (\<lambda>r. Done (p_pid r) k))))))))"

section \<open>Removing processes\<close>

text \<open>
  The node takes over the process of its successor, and the successor is freed. The parent
  whose children are counted is that of the process now running.
\<close>

definition destroy_node :: "u64 \<Rightarrow> kernel \<Rightarrow> unit res" where
  "destroy_node node k =
     with_node_proc k (currentNode k) (\<lambda>_ cur.
     bind (find_node (p_ppid cur) k) (\<lambda>parent k.
     if parent = 0 then Done () k
     else
       bind (sem_wait PROC_MUTEX k) (\<lambda>_ k.
       with_node_proc k parent (\<lambda>pp par.
       let k = upd_proc k pp (\<lambda>r. r\<lparr>p_children := p_children r - 1\<rparr>) in
       bind (if p_children par - 1 = 0
             then bind (ready_process (p_pid par) (upd_proc k pp (\<lambda>r. r\<lparr>p_blocked_by_children := 0\<rparr>)))
                    (\<lambda>_ k. Done () k)
             else Done () k) (\<lambda>_ k.
       bind (sem_post PROC_MUTEX k) (\<lambda>_ k.
       let k = k\<lparr>counter := counter k - 1\<rparr> in
       with_node_proc k node (\<lambda>pr r.
       let k = (if p_state r = BLOCKED then k\<lparr>block_count := block_count k - 1\<rparr> else k);
           aux = next_of k node
       in
       bind (free_proc pr k) (\<lambda>_ k.
       with_node k aux (\<lambda>a.
       let k = upd_node k node (\<lambda>n. n\<lparr>n_proc := n_proc a, n_next := n_next a\<rparr>) in
       with_node_proc k node (\<lambda>_ r.
       kfree aux (if p_pid r = 0 then k\<lparr>first := node\<rparr> else k)))))))))))"

text \<open>Killing the running process gives up the processor first; what follows is for when it comes back.\<close>

definition kill_process :: "u64 \<Rightarrow> kernel \<Rightarrow> u64 res" where
  "kill_process pid k =
     with_node_proc k (currentNode k) (\<lambda>_ cur.
     bind (if p_pid cur = pid then killCurrentProcess k else Done () k) (\<lambda>_ k.
     bind (find_node pid k) (\<lambda>node k.
     if node = 0
     then bind (printString (ascii ''PID NOT FOUND'' @ [10]) RED k) (\<lambda>_ k. Done (- 1) k)
     else
       with_node_proc k node (\<lambda>pr r.
       bind (destroy_node node (set_state k pr KILLED)) (\<lambda>_ k. Done (p_pid r) k)))))"

definition kill_foreground_proc :: "kernel \<Rightarrow> unit res" where
  "kill_foreground_proc k =
     (if background k = 0 then Done () k
      else
        let aux = foreground k in
        bind (ready_foreground_proc (k\<lparr>foreground := background k\<rparr>)) (\<lambda>_ k.
        with_node_proc k (foreground k) (\<lambda>pr _.
        let k = (upd_proc k pr (\<lambda>r. r\<lparr>p_read_fd := 0\<rparr>))\<lparr>background := 0\<rparr> in
        with_node_proc k aux (\<lambda>_ r.
        bind (kill_process (p_pid r) k) (\<lambda>_ k. Done () k)))))"

text \<open>Not called by anything: the same removal for the current node, without the bookkeeping.\<close>

definition destroy_current_node :: "kernel \<Rightarrow> unit res" where
  "destroy_current_node k =
     with_node_proc k (currentNode k) (\<lambda>pr _.
     let aux = next_of k (currentNode k) in
     bind (free_proc pr k) (\<lambda>_ k.
     with_node k aux (\<lambda>a.
     let k = upd_node k (currentNode k) (\<lambda>n. n\<lparr>n_proc := n_proc a, n_next := n_next a\<rparr>) in
     with_node_proc k (currentNode k) (\<lambda>_ r.
     kfree aux (if p_pid r = 0 then k\<lparr>first := currentNode k\<rparr> else k)))))"

definition free_node :: "u64 \<Rightarrow> kernel \<Rightarrow> unit res" where
  "free_node node k =
     with_node k node (\<lambda>n. bind (free_proc (n_proc n) k) (\<lambda>_ k. kfree node k))"

section \<open>The switch\<close>

text \<open>The chosen node starts running with a quantum set by its priority; its stack pointer is the result.\<close>

definition dispatch :: "u64 \<Rightarrow> kernel \<Rightarrow> u64 res" where
  "dispatch node k =
     with_node_proc (k\<lparr>currentNode := node\<rparr>) node (\<lambda>pr r.
       Done (p_sp r) (upd_node (set_state (k\<lparr>currentNode := node\<rparr>) pr RUNNING) node
         (\<lambda>n. n\<lparr>n_quantums := p_priority r\<rparr>)))"

definition scheduler :: "u64 \<Rightarrow> kernel \<Rightarrow> u64 res" where
  "scheduler sp k =
     (if disable_count k \<noteq> 0
      then with_node_proc k (currentNode k) (\<lambda>pr _. Done sp (upd_proc k pr (\<lambda>r. r\<lparr>p_sp := sp\<rparr>)))
      else if counter k = 1 then Done sp k
      else
        with_node_proc k (currentNode k) (\<lambda>pr r.
        let cur = currentNode k; k = upd_proc k pr (\<lambda>r. r\<lparr>p_sp := sp\<rparr>) in
        if p_state r = KILLED
        then
          bind (with_node k (foreground k) (\<lambda>f.
              if n_proc f = pr then kill_foreground_proc k else destroy_node cur k)) (\<lambda>_ k.
          bind (find_next_ready (currentNode k) k) dispatch)
        else
          let k = (if p_state r = RUNNING
              then upd_node k cur (\<lambda>n. n\<lparr>n_quantums := n_quantums n + 1\<rparr>) else k)
          in
          with_node k cur (\<lambda>n.
          if p_state r = BLOCKED then bind (find_next_ready (n_next n) k) dispatch
          else if n_quantums n > MAX_QUANTUM \<or> force_yield k \<noteq> 0
            then bind (find_next_ready (n_next n)
                ((set_state k pr READY)\<lparr>force_yield := 0\<rparr>)) dispatch
          else with_proc k (n_proc n) (\<lambda>r. Done (p_sp r) k))))"

end
