(* ===== verification/Scheduler_Switch.thy ===== *)
theory Scheduler_Switch
  imports Scheduler
begin

text \<open>
  The timer tick: whom \<open>scheduler\<close> picks, for how long, and what it leaves alone.
\<close>

section \<open>Updates of quantums\<close>

definition quantum_at :: "kernel \<Rightarrow> u64 \<Rightarrow> u64" where
  "quantum_at k n = (case nodes k n of None \<Rightarrow> 0 | Some m \<Rightarrow> n_quantums m)"

definition sp_at :: "kernel \<Rightarrow> u64 \<Rightarrow> u64 option" where
  "sp_at k n = map_option p_sp (proc_at k n)"

abbreviation set_quantum :: "u64 \<Rightarrow> u64 \<Rightarrow> kernel \<Rightarrow> kernel" where
  "set_quantum c q k \<equiv> upd_node k c (\<lambda>n. n\<lparr>n_quantums := q\<rparr>)"

lemma quantum_views [simp]:
  "proc_at (set_quantum c q k) = proc_at k" "next_of (set_quantum c q k) = next_of k"
  "nproc (set_quantum c q k) = nproc k" "broken (set_quantum c q k) = broken k"
  "state_at (set_quantum c q k) = state_at k" "can_run (set_quantum c q k) = can_run k"
  "sp_at (set_quantum c q k) = sp_at k" "ring (set_quantum c q k) ns = ring k ns"
  "first (set_quantum c q k) = first k" "currentNode (set_quantum c q k) = currentNode k"
  "procs (set_quantum c q k) = procs k" "force_yield (set_quantum c q k) = force_yield k"
proof -
  show a: "proc_at (set_quantum c q k) = proc_at k" "next_of (set_quantum c q k) = next_of k"
    "nproc (set_quantum c q k) = nproc k"
    by (auto simp: fun_eq_iff upd_node_def proc_at_def next_of_def nproc_def split: option.split)
  then show b: "broken (set_quantum c q k) = broken k" "state_at (set_quantum c q k) = state_at k"
    "sp_at (set_quantum c q k) = sp_at k"
    by (auto simp: fun_eq_iff broken_def state_at_def sp_at_def)
  then show "can_run (set_quantum c q k) = can_run k" by (simp add: fun_eq_iff can_run_def)
  show "ring (set_quantum c q k) ns = ring k ns" using a b by (simp add: ring_def)
qed (simp_all add: upd_node_def)

lemma proc_views [simp]:
  "quantum_at (upd_proc k p f) = quantum_at k" "force_yield (upd_proc k p f) = force_yield k"
  "disable_count (upd_proc k p f) = disable_count k" "counter (upd_proc k p f) = counter k"
  by (simp_all add: fun_eq_iff quantum_at_def upd_proc_def)

text \<open>Fields outside nodes and processes do not show in the ring.\<close>

lemma current_views [simp]:
  "proc_at (k\<lparr>currentNode := c\<rparr>) = proc_at k" "next_of (k\<lparr>currentNode := c\<rparr>) = next_of k"
  "ring (k\<lparr>currentNode := c\<rparr>) ns = ring k ns" "state_at (k\<lparr>currentNode := c\<rparr>) = state_at k"
  "nproc (k\<lparr>currentNode := c\<rparr>) = nproc k" "broken (k\<lparr>currentNode := c\<rparr>) = broken k"
  "proc_at (k\<lparr>force_yield := y\<rparr>) = proc_at k" "next_of (k\<lparr>force_yield := y\<rparr>) = next_of k"
  "ring (k\<lparr>force_yield := y\<rparr>) ns = ring k ns" "state_at (k\<lparr>force_yield := y\<rparr>) = state_at k"
  "nproc (k\<lparr>force_yield := y\<rparr>) = nproc k" "can_run (k\<lparr>force_yield := y\<rparr>) = can_run k"
  by (intro view_cong; simp)+

section \<open>Choosing the next process\<close>

lemma ring_next:
  assumes "ring k (c # ms)"
  shows "next_of k c = hd (ms @ [c])" and "ring k (ms @ [c])"
proof -
  have "segment (next_of k) (next_of k c) ms c" using ringD(2) [OF assms] by simp
  then show "next_of k c = hd (ms @ [c])" by (cases ms) auto
  show "ring k (ms @ [c])"
  proof (cases ms)
    case Nil
    with assms show ?thesis by simp
  next
    case (Cons m ms')
    with assms ring_rotate [of k "[c]" m ms'] show ?thesis by simp
  qed
qed

lemma find_next_ready_after:
  assumes "ring k (c # ms)"
  shows "find_next_ready (next_of k c) k =
    (if \<exists>n\<in>set (ms @ [c]). can_run k n
     then Done (hd (dropWhile (\<lambda>n. \<not> can_run k n) (ms @ [c]))) k else Loop)"
proof -
  obtain d ds where d: "ms @ [c] = d # ds" by (cases "ms @ [c]") auto
  with ring_next [OF assms] have "next_of k c = d" "ring k (d # ds)" by simp_all
  then show ?thesis unfolding d using find_next_ready_ring by simp
qed

lemma hd_dropWhile_in: "\<exists>x\<in>set xs. P x \<Longrightarrow> hd (dropWhile (\<lambda>x. \<not> P x) xs) \<in> set xs \<and> P (hd (dropWhile (\<lambda>x. \<not> P x) xs))"
  by (induction xs) auto

lemma ring_nproc_inj:
  assumes "ring k ns" and "a \<in> set ns" and "b \<in> set ns"
  shows "nproc k a = nproc k b \<longleftrightarrow> a = b"
  using ringD(5) [OF assms(1)] assms(2,3) unfolding distinct_map by (blast dest: inj_onD)

text \<open>The state after the switch to \<open>d\<close>.\<close>

definition dispatched :: "kernel \<Rightarrow> u64 \<Rightarrow> kernel" where
  "dispatched k d = upd_node (set_state (k\<lparr>currentNode := d\<rparr>) (nproc k d) RUNNING) d
     (\<lambda>n. n\<lparr>n_quantums := (case proc_at k d of None \<Rightarrow> 0 | Some r \<Rightarrow> p_priority r)\<rparr>)"

lemma dispatch_ring:
  assumes "ring k ns" and "d \<in> set ns"
  shows "dispatch d k = Done (the (sp_at k d)) (dispatched k d)"
proof -
  from ringD(4) [OF assms] obtain m r where "nodes k d = Some m" "procs k (n_proc m) = Some r"
    "proc_at k d = Some r" "nproc k d = n_proc m"
    by (rule not_broken)
  then show ?thesis by (simp add: dispatch_def dispatched_def sp_at_def)
qed

lemma dispatched_views:
  assumes "ring k ns" and "d \<in> set ns"
  shows "currentNode (dispatched k d) = d" "ring (dispatched k d) ns" "first (dispatched k d) = first k"
    "x \<in> set ns \<Longrightarrow> state_at (dispatched k d) x = (if x = d then Some RUNNING else state_at k x)"
    "sp_at (dispatched k d) = sp_at k"
proof -
  let ?k = "k\<lparr>currentNode := d\<rparr>"
  show "currentNode (dispatched k d) = d" "ring (dispatched k d) ns" "first (dispatched k d) = first k"
    using assms(1) by (simp_all add: dispatched_def set_state_def)
  show "state_at (dispatched k d) x = (if x = d then Some RUNNING else state_at k x)" if "x \<in> set ns"
    using ringD(4) [OF assms(1)] ringD(5) [OF assms(1)] that assms(2)
    by (auto simp: dispatched_def state_at_set_state distinct_map inj_on_def)
  show "sp_at (dispatched k d) = sp_at k"
    by (auto simp: fun_eq_iff dispatched_def sp_at_def set_state_def proc_at_upd_proc option.map_comp comp_def)
qed

section \<open>One tick\<close>

abbreviation save_sp :: "u64 \<Rightarrow> kernel \<Rightarrow> kernel" where
  "save_sp sp k \<equiv> upd_proc k (nproc k (currentNode k)) (\<lambda>r. r\<lparr>p_sp := sp\<rparr>)"

text \<open>The quantum that the tick compares with the limit.\<close>

definition next_quantum :: "kernel \<Rightarrow> u64" where
  "next_quantum k = quantum_at k (currentNode k) + (if state_at k (currentNode k) = Some RUNNING then 1 else 0)"

definition expired :: "kernel \<Rightarrow> bool" where
  "expired k \<longleftrightarrow> next_quantum k > MAX_QUANTUM \<or> force_yield k \<noteq> 0"

definition counted :: "kernel \<Rightarrow> kernel" where
  "counted k = (if state_at k (currentNode k) = Some RUNNING
     then set_quantum (currentNode k) (quantum_at k (currentNode k) + 1) k else k)"

lemma upd_node_const:
  "nodes k c = Some n \<Longrightarrow> upd_node k c (\<lambda>n. n\<lparr>n_quantums := n_quantums n + 1\<rparr>) =
    set_quantum c (quantum_at k c + 1) k"
  by (simp add: upd_node_def quantum_at_def)

lemma scheduler_tick:
  assumes "ring k (c # ms)" and "currentNode k = c" and "disable_count k = 0" and "counter k \<noteq> 1"
    and "state_at k c \<noteq> Some KILLED"
  shows "scheduler sp k =
    (if state_at k c = Some BLOCKED
     then bind (find_next_ready (next_of k c) (save_sp sp k)) dispatch
     else if expired k
       then bind (find_next_ready (next_of k c)
         ((set_state (counted (save_sp sp k)) (nproc k c) READY)\<lparr>force_yield := 0\<rparr>)) dispatch
     else Done sp (counted (save_sp sp k)))"
proof -
  from ringD(4) [OF assms(1), of c] obtain n r where n: "nodes k c = Some n" "procs k (n_proc n) = Some r"
    "nproc k c = n_proc n" "state_at k c = Some (p_state r)" "next_of k c = n_next n"
    by (auto elim: not_broken)
  let ?k = "save_sp sp k"
  have v: "procs ?k (n_proc n) = Some (r\<lparr>p_sp := sp\<rparr>)" "nodes ?k c = Some n"
    "state_at ?k c = Some (p_state r)"
    using n assms(2) by (simp_all add: upd_proc_def state_at_def proc_at_def)
  consider (blocked) "p_state r = BLOCKED" | (running) "p_state r = RUNNING"
    | (other) "p_state r = READY \<or> p_state r = NEW"
    using assms(5) n(4) by (cases "p_state r") auto
  then show ?thesis
  proof cases
    case blocked
    then show ?thesis using assms n v by (simp add: scheduler_def with_node_def Let_def)
  next
    case running
    have q: "next_quantum k = n_quantums n + 1" using running n assms(2) by (simp add: next_quantum_def quantum_at_def)
    have c: "counted ?k = set_quantum c (n_quantums n + 1) ?k"
      using running v assms(2) by (simp add: counted_def quantum_at_def)
    have "nodes (counted ?k) c = Some (n\<lparr>n_quantums := n_quantums n + 1\<rparr>)"
      using v by (simp add: c upd_node_def)
    moreover have "upd_node ?k c (\<lambda>n. n\<lparr>n_quantums := n_quantums n + 1\<rparr>) = counted ?k"
      using upd_node_const [OF v(2)] v(2) by (simp add: c quantum_at_def)
    moreover have "procs (counted ?k) (n_proc n) = Some (r\<lparr>p_sp := sp\<rparr>)" "force_yield (counted ?k) = force_yield k"
      using v(1) by (simp_all add: c)
    ultimately show ?thesis using assms n v running q
      by (simp add: scheduler_def with_node_def with_proc_def Let_def expired_def)
  next
    case other
    then have c: "counted ?k = ?k" "next_quantum k = n_quantums n"
      using v n assms(2) by (auto simp: counted_def next_quantum_def quantum_at_def)
    with other show ?thesis using assms n v
      by (auto simp: scheduler_def with_node_def with_proc_def Let_def expired_def)
  qed
qed

lemma counted_views [simp]:
  "ring (counted k) ns = ring k ns" "proc_at (counted k) = proc_at k" "next_of (counted k) = next_of k"
  "nproc (counted k) = nproc k" "state_at (counted k) = state_at k" "broken (counted k) = broken k"
  "currentNode (counted k) = currentNode k" "first (counted k) = first k" "sp_at (counted k) = sp_at k"
  by (simp_all add: counted_def)

lemma save_sp_views [simp]:
  "state_at (save_sp sp k) = state_at k"
  "sp_at (save_sp sp k) n = (if nproc k n = nproc k (currentNode k) \<and> \<not> broken k n then Some sp else sp_at k n)"
  by (auto simp: fun_eq_iff state_at_def sp_at_def proc_at_upd_proc option.map_comp comp_def broken_def
      split: option.split)

lemma sp_at_set_state [simp]: "sp_at (set_state k p st) = sp_at k"
  by (auto simp: fun_eq_iff set_state_def sp_at_def proc_at_upd_proc option.map_comp comp_def)

lemma sp_at_force_yield [simp]: "sp_at (k\<lparr>force_yield := y\<rparr>) = sp_at k"
  by (simp add: fun_eq_iff sp_at_def)

text \<open>The state of every node just before the choice, and who can be chosen.\<close>

definition vacated :: "kernel \<Rightarrow> u64 \<Rightarrow> states option" where
  "vacated k n = (if n = currentNode k \<and> state_at k n \<noteq> Some BLOCKED then Some READY else state_at k n)"

definition eligible :: "kernel \<Rightarrow> u64 \<Rightarrow> bool" where
  "eligible k n \<longleftrightarrow> vacated k n = Some READY \<or> vacated k n = Some NEW"

lemma scheduler_switches:
  assumes "ring k (c # ms)" and "currentNode k = c" and "disable_count k = 0" and "counter k \<noteq> 1"
    and "state_at k c \<noteq> Some KILLED" and "state_at k c = Some BLOCKED \<or> expired k"
  defines "d \<equiv> hd (dropWhile (\<lambda>n. \<not> eligible k n) (ms @ [c]))"
  shows "if \<exists>n\<in>set (c # ms). eligible k n
    then \<exists>k'. scheduler sp k = Done (if d = c then sp else the (sp_at k d)) k' \<and>
      d \<in> set (c # ms) \<and> eligible k d \<and> currentNode k' = d \<and> ring k' (c # ms) \<and> first k' = first k \<and>
      (\<forall>n\<in>set (c # ms). state_at k' n = (if n = d then Some RUNNING else vacated k n)) \<and>
      sp_at k' c = Some sp \<and> (\<forall>n\<in>set ms. sp_at k' n = sp_at k n)
    else scheduler sp k = Loop"
proof -
  let ?K = "if state_at k c = Some BLOCKED then save_sp sp k
    else (set_state (counted (save_sp sp k)) (nproc k c) READY)\<lparr>force_yield := 0\<rparr>"
  have s: "scheduler sp k = bind (find_next_ready (next_of k c) ?K) dispatch"
    using scheduler_tick [OF assms(1-5)] assms(6) by auto
  have nb: "\<not> broken k n" if "n \<in> set (c # ms)" for n using ringD(4) [OF assms(1) that] .
  have inj: "nproc k n = nproc k c \<longleftrightarrow> n = c" if "n \<in> set (c # ms)" for n
    by (rule ring_nproc_inj [OF assms(1) that]) simp
  have ring: "ring ?K (c # ms)" and next_of: "next_of ?K = next_of k"
    using assms(1) by (auto simp: set_state_def)
  have st: "state_at ?K n = vacated k n" if "n \<in> set (c # ms)" for n
    using inj [OF that] nb [OF that] assms(2) by (auto simp: vacated_def state_at_set_state)
  have sp: "sp_at ?K n = (if n = c then Some sp else sp_at k n)" if "n \<in> set (c # ms)" for n
    using inj [OF that] nb [OF that] assms(2)
    by (auto simp: sp_at_set_state)
  have el: "can_run ?K n = eligible k n" if "n \<in> set (c # ms)" for n
    using st [OF that] by (simp add: can_run_def eligible_def)
  have dw: "dropWhile (\<lambda>n. \<not> can_run ?K n) (ms @ [c]) = dropWhile (\<lambda>n. \<not> eligible k n) (ms @ [c])"
    using el by (intro dropWhile_cong) auto
  have f: "find_next_ready (next_of k c) ?K =
    (if \<exists>n\<in>set (c # ms). eligible k n then Done d ?K else Loop)"
    using find_next_ready_after [OF ring] el unfolding next_of dw d_def by auto
  show ?thesis
  proof (cases "\<exists>n\<in>set (c # ms). eligible k n")
    case False
    with s f show ?thesis by simp
  next
    case True
    then have d: "d \<in> set (c # ms)" "eligible k d"
      unfolding d_def using hd_dropWhile_in [of "ms @ [c]" "eligible k"] by auto
    have "scheduler sp k = Done (if d = c then sp else the (sp_at k d)) (dispatched ?K d)"
      using s f True dispatch_ring [OF ring d(1)] sp [OF d(1)] by simp
    moreover have "first ?K = first k" by (simp add: set_state_def)
    moreover have "c \<notin> set ms" using ringD(3) [OF assms(1)] by simp
    ultimately show ?thesis using True d dispatched_views [OF ring d(1)] st sp
      by (auto intro!: exI [of _ "dispatched ?K d"])
  qed
qed

end
