(* ===== verification/Scheduler_Properties.thy ===== *)
theory Scheduler_Properties
  imports Scheduler_Switch
begin

text \<open>
  The properties of the scheduler: round robin with priorities as time slices, the processes
  it never preempts, and the walks and state changes on a ring.
\<close>

section \<open>Sequences of ticks\<close>



lemma counted_fields [simp]:
  "disable_count (counted k) = disable_count k" "counter (counted k) = counter k"
  "force_yield (counted k) = force_yield k"
  by (simp_all add: counted_def upd_node_def)






section \<open>Properties\<close>

text \<open>
  C8. Round robin: on a tick when the current process is blocked, or its quantum is used up or a
  yield was asked for, the first READY or NEW process after it in the ring runs next (the
  current one again when it is not blocked and there is no other). Its stack pointer is the
  result, it becomes RUNNING, the old one becomes READY unless it is blocked, the stack pointer
  of the old one is saved and no other process changes. When every process is blocked the
  search never ends.
\<close>
theorem scheduler_round_robin:
  assumes "ring k (c # ms)" and "currentNode k = c" and "disable_count k = 0" and "counter k \<noteq> 1"
    and "state_at k c = Some BLOCKED \<or> state_at k c = Some RUNNING \<and> expired k"
    and "\<forall>n\<in>set ms. state_at k n \<noteq> Some RUNNING"
  defines "d \<equiv> hd (dropWhile (\<lambda>n. \<not> eligible k n) (ms @ [c]))"
  shows "if \<exists>n\<in>set (c # ms). eligible k n
    then \<exists>k'. scheduler sp k = Done (if d = c then sp else the (sp_at k d)) k' \<and>
      currentNode k' = d \<and> d \<in> set (c # ms) \<and> eligible k d \<and> ring k' (c # ms) \<and>
      (\<forall>n\<in>set (c # ms). state_at k' n = Some RUNNING \<longleftrightarrow> n = d) \<and>
      (\<forall>n\<in>set ms. n \<noteq> d \<longrightarrow> state_at k' n = state_at k n \<and> sp_at k' n = sp_at k n) \<and>
      sp_at k' c = Some sp
    else scheduler sp k = Loop"
proof -
  have st: "state_at k c \<noteq> Some KILLED" "state_at k c = Some BLOCKED \<or> expired k"
    using assms(5) by auto
  have c: "c \<notin> set ms" using ringD(3) [OF assms(1)] by simp
  have v: "vacated k n \<noteq> Some RUNNING" if "n \<in> set (c # ms)" for n
    using that assms(2,5,6) by (auto simp: vacated_def)
  have vn: "vacated k n = state_at k n" if "n \<in> set ms" for n
    using that assms(2) c by (auto simp: vacated_def)
  note s = scheduler_switches [OF assms(1-4) st, of sp, folded d_def]
  show ?thesis
  proof (cases "\<exists>n\<in>set (c # ms). eligible k n")
    case False
    then show ?thesis using s by simp
  next
    case True
    with s obtain k' where k': "scheduler sp k = Done (if d = c then sp else the (sp_at k d)) k'"
      "d \<in> set (c # ms)" "eligible k d" "currentNode k' = d" "ring k' (c # ms)"
      "\<forall>n\<in>set (c # ms). state_at k' n = (if n = d then Some RUNNING else vacated k n)"
      "sp_at k' c = Some sp" "\<forall>n\<in>set ms. sp_at k' n = sp_at k n"
      by auto
    have "\<forall>n\<in>set (c # ms). state_at k' n = Some RUNNING \<longleftrightarrow> n = d" using k'(6) v by auto
    moreover have "\<forall>n\<in>set ms. n \<noteq> d \<longrightarrow> state_at k' n = state_at k n \<and> sp_at k' n = sp_at k n"
      using k'(6,8) vn by auto
    ultimately show ?thesis using True k'(1-5,7) by auto
  qed
qed

theorem scheduler_round_robin_witness:
  "\<exists>k'. scheduler 7 (ring_ex\<lparr>force_yield := 1\<rparr>) = Done 7 k' \<and> currentNode k' = 0x100"
proof -
  let ?k = "ring_ex\<lparr>force_yield := 1\<rparr>"
  have r: "ring ?k [0x100, 0x200]" using ring_ex_ring by simp
  have f: "currentNode ?k = 0x100" "disable_count ?k = 0" "counter ?k \<noteq> 1" "expired ?k"
    by (simp_all add: ring_ex_def kernel_zero_def expired_def)
  have s: "state_at ?k 0x100 = Some RUNNING" "state_at ?k 0x200 = Some BLOCKED"
    by (simp_all add: ring_ex_views)
  then have e: "eligible ?k 0x100" "\<not> eligible ?k 0x200"
    using f(1) by (simp_all add: eligible_def vacated_def)
  from scheduler_round_robin [OF r f(1-3), of 7] s f(4) e show ?thesis by auto
qed





end
