(* ===== verification/Video_Properties.thy ===== *)
theory Video_Properties
  imports Video
begin

text \<open>
  What the video driver draws: rectangles are clipped to the screen, text of font size 1 stays
  inside the frame buffer, and scrolling with a larger font does not.
\<close>

section \<open>Rectangles\<close>

lemma fill_run_at: "fill_run f p n c q = (if p \<le> q \<and> q < p + n then c else f q)"
  by (induction n arbitrary: f p) auto

lemma fill_rows_at:
  "fill_rows f p w l h c q =
     (if \<exists>r<h. p + r * (w + l) \<le> q \<and> q < p + r * (w + l) + w then c else f q)"
proof (induction h arbitrary: f p)
  case 0
  then show ?case by simp
next
  case (Suc h)
  have "(\<exists>r<Suc h. p + r * (w + l) \<le> q \<and> q < p + r * (w + l) + w) \<longleftrightarrow>
      (p \<le> q \<and> q < p + w) \<or> (\<exists>r<h. p + w + l + r * (w + l) \<le> q \<and> q < p + w + l + r * (w + l) + w)"
    unfolding Ex_less_Suc2 by (simp add: add.assoc add.left_commute)
  then show ?case unfolding fill_rows.simps Suc.IH fill_run_at by auto
qed

text \<open>A pixel as column and row.\<close>

definition pixel :: "screen \<Rightarrow> nat \<Rightarrow> nat \<Rightarrow> color" where
  "pixel s px py = fb s (px + py * unat (width s))"

definition screen_size :: "screen \<Rightarrow> nat" where
  "screen_size s = unat (width s) * unat (height s)"

lemma row_of_pixel:
  fixes W :: nat
  assumes "px < W" "x + w \<le> W"
  shows "(\<exists>r<h. (x + y * W) + r * W \<le> px + py * W \<and> px + py * W < (x + y * W) + r * W + w) \<longleftrightarrow>
    x \<le> px \<and> px < x + w \<and> y \<le> py \<and> py < y + h" (is "?L \<longleftrightarrow> ?R")
proof
  assume ?L
  then obtain r where r: "r < h" "(x + y * W) + r * W \<le> px + py * W" "px + py * W < (x + y * W) + r * W + w" by blast
  then have a: "x + (y + r) * W \<le> px + py * W" "px + py * W < x + w + (y + r) * W"
    by (simp_all add: algebra_simps)
  have "py = y + r"
  proof (rule antisym)
    show "py \<le> y + r"
    proof (rule ccontr)
      assume "\<not> py \<le> y + r"
      then have "(y + r + 1) * W \<le> py * W" by (intro mult_le_mono1) simp
      then show False using a(2) assms by simp
    qed
    show "y + r \<le> py"
    proof (rule ccontr)
      assume "\<not> y + r \<le> py"
      then have "(py + 1) * W \<le> (y + r) * W" by (intro mult_le_mono1) simp
      then show False using a(1) assms by simp
    qed
  qed
  then show ?R using a r(1) by simp
next
  assume R: ?R
  then have "(x + y * W) + (py - y) * W \<le> px + py * W \<and> px + py * W < (x + y * W) + (py - y) * W + w"
    by (simp add: diff_mult_distrib)
  then show ?L using R by (intro exI [of _ "py - y"]) auto
qed

lemma clip:
  fixes x w W :: u16
  assumes "x < W"
  shows "unat (if w > W - x then W - x else w) = min (unat w) (unat W - unat x)"
proof -
  have "unat (W - x) = unat W - unat x" using assms by (intro unat_minus) (simp add: word_less_nat_alt)
  then show ?thesis by (simp add: word_less_nat_alt min_def)
qed

lemma fillrect_fb:
  assumes "x < width s" "y < height s"
  shows "fb (fillrect x y w h c s) =
    (let w' = min (unat w) (unat (width s) - unat x); h' = min (unat h) (unat (height s) - unat y) in
     fill_rows (fb s) (unat x + unat y * unat (width s)) w' (unat (width s) - w') h' c)"
  using assms clip [OF assms(1)] clip [OF assms(2)]
  by (simp add: fillrect_def Let_def getPixel_def not_le)

lemma fillrect_same [simp]:
  "width (fillrect x y w h c s) = width s" "height (fillrect x y w h c s) = height s"
  "fontSize (fillrect x y w h c s) = fontSize s" "posX (fillrect x y w h c s) = posX s"
  "y_char (fillrect x y w h c s) = y_char s"
  by (simp_all add: fillrect_def Let_def)

text \<open>What lies behind the screen is never touched.\<close>

definition in_frame :: "screen \<Rightarrow> screen \<Rightarrow> bool" where
  "in_frame s s' \<longleftrightarrow> width s' = width s \<and> height s' = height s \<and> fontSize s' = fontSize s \<and>
     (\<forall>q\<ge>screen_size s. fb s' q = fb s q)"

lemma in_frame_refl [simp]: "in_frame s s"
  by (simp add: in_frame_def)

lemma if_frame: "in_frame s a \<Longrightarrow> in_frame s b \<Longrightarrow> in_frame s (if P then a else b)"
  by simp

lemma in_frame_trans: "in_frame s s' \<Longrightarrow> in_frame s' s'' \<Longrightarrow> in_frame s s''"
  by (simp add: in_frame_def screen_size_def)

lemma in_frame_fillrect: "in_frame s (fillrect x y w h c s)"
proof (cases "x < width s \<and> y < height s")
  case True
  let ?W = "unat (width s)" and ?H = "unat (height s)"
  let ?w = "min (unat w) (?W - unat x)" and ?h = "min (unat h) (?H - unat y)"
  have xy: "unat x < ?W" "unat y < ?H" using True by (simp_all add: word_less_nat_alt)
  have "fb (fillrect x y w h c s) q = fb s q" if q: "screen_size s \<le> q" for q
  proof -
    have "\<not> q < unat x + unat y * ?W + r * ?W + ?w" if r: "r < ?h" for r
    proof -
      have "unat y + r + 1 \<le> ?H" using r xy by linarith
      then have "(unat y + r + 1) * ?W \<le> ?H * ?W" by (rule mult_le_mono1)
      moreover have "unat x + ?w \<le> ?W" using xy by simp
      ultimately have "unat x + unat y * ?W + r * ?W + ?w \<le> ?H * ?W" by (simp add: algebra_simps)
      then show ?thesis using q by (simp add: screen_size_def mult.commute)
    qed
    then have no: "\<not> (\<exists>r<?h. unat x + unat y * ?W + r * ?W \<le> q \<and> q < unat x + unat y * ?W + r * ?W + ?w)"
      by blast
    have "?w + (?W - ?w) = ?W" by simp
    then show ?thesis using fillrect_fb [of x s y w h c] True no
      by (simp only: Let_def fill_rows_at if_False)
  qed
  then show ?thesis by (simp add: in_frame_def)
next
  case False
  then show ?thesis by (auto simp: in_frame_def fillrect_def not_less)
qed

text \<open>
  C22. A filled rectangle is exactly the part of it that lies on the screen, without wrapping at
  the right edge, whatever the sizes; the memory behind the frame buffer does not change.
\<close>

theorem fillrect_correct:
  assumes "px < unat (width s)" "py < unat (height s)"
  shows "pixel (fillrect x y w h c s) px py =
      (if unat x \<le> px \<and> px < unat x + unat w \<and> unat y \<le> py \<and> py < unat y + unat h
       then c else pixel s px py) \<and>
    (\<forall>q. screen_size s \<le> q \<longrightarrow> fb (fillrect x y w h c s) q = fb s q)"
proof
  show "\<forall>q. screen_size s \<le> q \<longrightarrow> fb (fillrect x y w h c s) q = fb s q"
    using in_frame_fillrect [of s x y w h c] by (simp add: in_frame_def)
  let ?W = "unat (width s)" and ?H = "unat (height s)"
  show "pixel (fillrect x y w h c s) px py =
      (if unat x \<le> px \<and> px < unat x + unat w \<and> unat y \<le> py \<and> py < unat y + unat h
       then c else pixel s px py)"
  proof (cases "x < width s \<and> y < height s")
    case True
    let ?w = "min (unat w) (?W - unat x)" and ?h = "min (unat h) (?H - unat y)"
    have xy: "unat x < ?W" "unat y < ?H" using True by (simp_all add: word_less_nat_alt)
    have "?w + (?W - ?w) = ?W" by simp
    then have "pixel (fillrect x y w h c s) px py =
        (if unat x \<le> px \<and> px < unat x + ?w \<and> unat y \<le> py \<and> py < unat y + ?h then c else pixel s px py)"
      using fillrect_fb [of x s y w h c] True row_of_pixel [OF assms(1), of "unat x" ?w ?h "unat y" py] xy
      by (simp add: pixel_def Let_def fill_rows_at)
    then show ?thesis using assms xy by auto
  next
    case False
    then have "fillrect x y w h c s = s" by (auto simp: fillrect_def not_less)
    moreover have "\<not> (unat x \<le> px \<and> unat y \<le> py)" using False assms by (auto simp: word_less_nat_alt)
    ultimately show ?thesis by auto
  qed
qed

theorem fillrect_correct_witness:
  "pixel (fillrect 1020 760 50 3 RED screen_zero) 1023 761 = RED \<and>
   pixel (fillrect 1020 760 50 3 RED screen_zero) 4 762 = BLACK"
  using fillrect_correct [of 1023 screen_zero 761 1020 760 50 3 RED]
    fillrect_correct [of 4 screen_zero 762 1020 760 50 3 RED]
  by (simp add: screen_zero_def pixel_def)

section \<open>Text\<close>

lemma in_frame_cols: "in_frame s (print_cols n l j x y c s)"
proof (induction n arbitrary: l j s)
  case 0
  then show ?case by simp
next
  case (Suc n)
  let ?s = "if l AND 1 = 1 then printSquare (x + ucast j) y (ucast (fontSize s)) c s else s"
  have "in_frame s ?s" by (simp add: printSquare_def in_frame_fillrect)
  from in_frame_trans [OF this Suc.IH [of ?s "drop_bit 1 l" "j + fontSize s"]] show ?case by simp
qed

lemma in_frame_rows: "in_frame s (print_rows ls i x y c s)"
proof (induction ls arbitrary: i s)
  case Nil
  then show ?case by simp
next
  case (Cons l ls)
  from in_frame_trans [OF in_frame_cols Cons.IH] show ?case by simp
qed

lemma in_frame_printChar: "in_frame s (printChar x y ch c s)"
  by (simp add: printChar_def in_frame_rows)

lemma in_frame_scroll:
  assumes "fontSize s = 1" "16 \<le> unat (height s)" shows "in_frame s (scroll s)"
proof -
  have "unat (width s) * (unat (height s) - 16) + 16 * unat (width s) = screen_size s"
    using assms(2) by (simp add: screen_size_def diff_mult_distrib2 mult.commute)
  moreover have "unat (width s) * (unat (height s) - 16) \<le> screen_size s"
    by (simp add: screen_size_def)
  ultimately show ?thesis using assms(1) by (auto simp: in_frame_def scroll_def Let_def)
qed

lemma in_frame_loop:
  assumes "fontSize s = 1" "16 \<le> unat (height s)"
  shows "in_frame s (print_loop x i y cs c s)"
  using assms
proof (induction cs arbitrary: x i y s)
  case Nil
  then show ?case by (simp add: in_frame_def)
next
  case (Cons ch cs)
  have step: "in_frame s (print_loop x' i' y' cs c s')" if "in_frame s s'" for x' i' y' s'
    using in_frame_trans [OF that Cons.IH] Cons.prems that by (simp add: in_frame_def)
  let ?wrap = "ucast x + fontSize s * (i * of_nat FONT_WIDTH + 4) > ucast (width s) \<or> ch = 10"
  let ?down = "?wrap \<and> (ucast y + 2) * 16 * fontSize s \<ge> ucast (height s)"
  have s: "in_frame s (if ?down then scroll s else s)" using in_frame_scroll Cons.prems by simp
  have r: "in_frame s (fillrect a b v w BLACK (if ?down then scroll s else s))" for a b v w
    by (rule in_frame_trans [OF s in_frame_fillrect])
  have p: "in_frame s (printChar a b ch c (if ?down then scroll s else s))" for a b
    by (rule in_frame_trans [OF s in_frame_printChar])
  show ?case unfolding print_loop.simps Let_def
    by (intro if_frame step r p s)
qed

text \<open>
  C21. With the font size the system starts with, text never reaches memory behind the frame
  buffer, whatever is printed and wherever: characters off the screen, backspaces past the
  margin, lines that scroll. The size of the screen and of the font stay.
\<close>

theorem printStringAt_in_frame:
  assumes "fontSize s = 1" "16 \<le> unat (height s)" "screen_size s \<le> q"
  shows "fb (printStringAt x y str c s) q = fb s q \<and> fontSize (printStringAt x y str c s) = 1 \<and>
    screen_size (printStringAt x y str c s) = screen_size s"
  using in_frame_loop [OF assms(1,2), of x 0 y str c] assms
  by (simp add: printStringAt_def in_frame_def screen_size_def)

theorem printStringAt_in_frame_witness:
  "fb (printStringAt 1023 200 [65, 10, 10, 8, 8, 66] WHITE screen_zero) (1024 * 768) = BLACK"
  using printStringAt_in_frame [of screen_zero "1024 * 768" 1023 200 "[65, 10, 10, 8, 8, 66]" WHITE]
  by (simp add: screen_zero_def screen_size_def)

text \<open>
  Scrolling with a larger font runs over: the number of bytes moved and the place of the line
  cleared are scaled with the font a second time, so with font size 2 a line break on the last
  line overwrites a frame's worth of memory behind the frame buffer, and clears \<open>32 * width\<close>
  pixels of it.
\<close>

theorem scroll_overruns:
  assumes "fontSize s = 2" "32 \<le> unat (height s)" "(ucast y + 2) * 32 \<ge> (ucast (height s) :: u32)"
    and "screen_size s \<le> q" "q < 2 * screen_size s"
  shows "fb (printStringAt x y [10] c s) q =
    (if q < 2 * screen_size s - 32 * unat (width s) then fb s (q + 32 * unat (width s)) else BLACK)"
proof -
  let ?W = "unat (width s)" and ?H = "unat (height s)"
  have w: "2 * (?W * (?H - 16)) + 32 * ?W = 2 * screen_size s"
    using assms(2) by (simp add: screen_size_def diff_mult_distrib2 mult.commute)
  have two: "unat (2 :: u32) = 2" by simp
  have d: "(ucast y + 2) * 16 * (2 :: u32) \<ge> ucast (height s)" using assms(3) by (simp add: mult.assoc)
  have "fb (printStringAt x y [10] c s) = fb (scroll s)"
    using d assms(1) by (simp add: printStringAt_def)
  moreover have "2 * (?W * (?H - 16)) = 2 * screen_size s - 32 * ?W" using w by linarith
  ultimately show ?thesis using assms(1,5) w by (auto simp: scroll_def Let_def two mult.commute)
qed

theorem scroll_overruns_witness:
  "fb (printStringAt 0 23 [10] WHITE (screen_zero\<lparr>fontSize := 2, fb := (\<lambda>_. RED)\<rparr>)) (1024 * 768) = RED \<and>
   fb (printStringAt 0 23 [10] WHITE (screen_zero\<lparr>fontSize := 2, fb := (\<lambda>_. RED)\<rparr>)) (2 * 1024 * 768 - 1) = BLACK"
  using scroll_overruns [of "screen_zero\<lparr>fontSize := 2, fb := (\<lambda>_. RED)\<rparr>" 23 "1024 * 768" 0 WHITE]
    scroll_overruns [of "screen_zero\<lparr>fontSize := 2, fb := (\<lambda>_. RED)\<rparr>" 23 "2 * 1024 * 768 - 1" 0 WHITE]
  by (simp add: screen_zero_def screen_size_def)

text \<open>
  The font size stays between 1 and 3 under any sequence of changes, however large the
  steps: a change that would leave the range, wrapping included, is refused and changes nothing.
\<close>

theorem changeFontSize_range:
  assumes "1 \<le> fontSize s" "fontSize s \<le> 3"
  shows "let (r, s') = changeFontSize dif s in
    1 \<le> fontSize s' \<and> fontSize s' \<le> 3 \<and>
    (r = 1 \<longleftrightarrow> 1 \<le> fontSize s + dif \<and> fontSize s + dif \<le> 3) \<and>
    (r = 0 \<longleftrightarrow> r \<noteq> 1) \<and> (r = 0 \<longrightarrow> s' = s) \<and> (r = 1 \<longrightarrow> fontSize s' = fontSize s + dif)"
proof -
  have ge: "1 \<le> v \<longleftrightarrow> \<not> v < 1" for v :: u32 by (simp only: not_less)
  show ?thesis using assms by (auto simp: changeFontSize_def clearScreen_def colorScreen_def ge)
qed

theorem changeFontSize_range_witness:
  "fst (changeFontSize (- 1) screen_zero) = 0 \<and> fst (changeFontSize 2 screen_zero) = 1"
  using changeFontSize_range [of screen_zero "- 1"] changeFontSize_range [of screen_zero 2]
  by (simp add: screen_zero_def Let_def split: prod.splits)

end
