(* ===== verification/Keyboard.thy ===== *)
theory Keyboard
  imports Scheduler
begin

text \<open>
  The keyboard interrupt, \<open>saveKey\<close> of \<open>Kernel/keyboardDriver.c\<close>, on the kernel's state: the
  modifier keys, the control sequences that kill the foreground process or end the input, and
  the keys that are queued.
\<close>

definition push_key :: "byte \<Rightarrow> kernel \<Rightarrow> kernel" where
  "push_key c k = k\<lparr>kb_buffer := push c (kb_buffer k)\<rparr>"

definition saveKey :: "byte \<Rightarrow> kernel \<Rightarrow> unit res" where
  "saveKey scan_code k =
     (if scan_code = 0x38 then Done () k
      else if scan_code = 1 then Done () (push_key 10 k)
      else if scan_code = 0x2A \<or> scan_code = 0x36 then Done () (k\<lparr>kb_shift := True\<rparr>)
      else if scan_code = 0xAA \<or> scan_code = 0xB6 then Done () (k\<lparr>kb_shift := False\<rparr>)
      else if scan_code = 0xE0 \<or> scan_code = 0 then Done () (k\<lparr>kb_ctrl := False\<rparr>)
      else if scan_code = 0x1D then Done () (k\<lparr>kb_ctrl := True\<rparr>)
      else if kb_shift k \<and> scan_code = 0x8 then Done () (push_key 38 k)
      else if kb_shift k \<and> scan_code = 0x2B then Done () (push_key 124 k)
      else if kb_ctrl k \<and> getKey scan_code = 99
        then bind (kill_foreground_proc k) (\<lambda>_ k.
             bind (ready_foreground_proc k) (\<lambda>_ k. Done () (k\<lparr>kb_ctrl := False\<rparr>)))
      else if kb_ctrl k \<and> getKey scan_code = 100
        then Done () ((push_key 4 k)\<lparr>kb_ctrl := False\<rparr>)
      else if scan_code > 128 then Done () k
      else Done () (push_key (getKey scan_code + (if kb_shift k then 65 - 97 else 0)) k))"

text \<open>A sequence of keyboard interrupts.\<close>

fun saveKeys :: "byte list \<Rightarrow> kernel \<Rightarrow> unit res" where
  "saveKeys [] k = Done () k"
| "saveKeys (c # cs) k = bind (saveKey c k) (\<lambda>_ k. saveKeys cs k)"

section \<open>Ordinary keys\<close>

text \<open>The make code of a key that is queued as it is: no modifier, escape or prefix.\<close>

definition plain_code :: "byte \<Rightarrow> bool" where
  "plain_code c \<longleftrightarrow> c < 128 \<and> c \<notin> {0, 1, 0x1D, 0x2A, 0x36, 0x38, 0x60}"

text \<open>Every key is pressed and released.\<close>

definition typed :: "byte list \<Rightarrow> byte list" where
  "typed cs = concat (map (\<lambda>c. [c, c + 128]) cs)"

lemma getKey_break:
  assumes "(c :: byte) < 128" shows "getKey (c + 128) = - 1"
proof -
  have "unat (c + 128) = unat c + 128" using assms by (simp add: word_less_nat_alt unat_plus)
  then show ?thesis by (simp add: getKey_def)
qed

lemma saveKey_press:
  "plain_code c \<Longrightarrow> \<not> kb_shift k \<Longrightarrow> \<not> kb_ctrl k \<Longrightarrow> saveKey c k = Done () (push_key (getKey c) k)"
  by (auto simp: saveKey_def plain_code_def)

lemma saveKey_release:
  assumes p: "plain_code c" and k: "\<not> kb_ctrl k" "\<not> kb_shift k"
  shows "saveKey (c + 128) k = Done () k"
proof -
  let ?d = "c + 128"
  have c: "c < 128" and ne: "c \<noteq> 0" "c \<noteq> 0x2A" "c \<noteq> 0x36" "c \<noteq> 0x60" using p by (simp_all add: plain_code_def)
  have "unat c \<noteq> 0" using ne(1) by (simp add: unat_eq_zero)
  then have gt: "?d > 128" using c by (simp add: word_less_nat_alt unat_plus)
  have cd: "c = ?d - 128" by simp
  have small: "?d \<noteq> v" if "v \<le> 128" for v using gt that by (metis leD)
  have "?d \<noteq> 0xAA" "?d \<noteq> 0xB6" "?d \<noteq> 0xE0"
    using ne(2-4) cd by (auto simp del: cd)
  moreover have "?d \<noteq> 0x38" "?d \<noteq> 1" "?d \<noteq> 0x2A" "?d \<noteq> 0x36" "?d \<noteq> 0" "?d \<noteq> 0x1D" by (rule small; simp)+
  ultimately show ?thesis using gt k unfolding saveKey_def by (simp only: if_False simp_thms if_True de_Morgan_disj)
qed

lemma saveKeys_typed:
  assumes "\<forall>c\<in>set cs. plain_code c" "\<not> kb_shift k" "\<not> kb_ctrl k"
  shows "saveKeys (typed cs) k = Done () (k\<lparr>kb_buffer := fold push (map getKey cs) (kb_buffer k)\<rparr>)"
  using assms
proof (induction cs arbitrary: k)
  case Nil
  then show ?case by (simp add: typed_def)
next
  case (Cons c cs)
  have t: "typed (c # cs) = c # (c + 128) # typed cs" by (simp add: typed_def)
  have p: "plain_code c" using Cons.prems by simp
  have p1: "saveKey c k = Done () (push_key (getKey c) k)" using saveKey_press [OF p] Cons.prems by simp
  have p2: "saveKey (c + 128) (push_key (getKey c) k) = Done () (push_key (getKey c) k)"
    by (rule saveKey_release [OF p]) (use Cons.prems in \<open>simp_all add: push_key_def\<close>)
  have "saveKeys (typed cs) (push_key (getKey c) k) =
      Done () ((push_key (getKey c) k)\<lparr>kb_buffer := fold push (map getKey cs) (kb_buffer (push_key (getKey c) k))\<rparr>)"
    by (rule Cons.IH) (use Cons.prems in \<open>simp_all add: push_key_def\<close>)
  then show ?case unfolding t saveKeys.simps p1 bind_simps p2 by (simp add: push_key_def)
qed

end
