(* ===== verification/Kernel_Loops.thy ===== *)
theory Kernel_Loops
  imports Kernel_State
begin

text \<open>
  Loops whose body is a kernel function, so that a turn can give up the processor and the loop
  goes on when it is resumed. A body gives \<open>Inl\<close> the state of the next turn, or \<open>Inr\<close> the result.
\<close>

text \<open>The turns up to the first that does not just continue; \<open>None\<close> when there is none.\<close>

partial_function (option) burst ::
  "('s \<Rightarrow> kernel \<Rightarrow> ('s + 'b) res) \<Rightarrow> 's \<Rightarrow> kernel \<Rightarrow> ('s + 'b) res option" where
  "burst body s k =
     (case body s k of
        Fault \<Rightarrow> Some Fault
      | Loop \<Rightarrow> Some Loop
      | Done x k' \<Rightarrow> (case x of Inl s' \<Rightarrow> burst body s' k' | Inr b \<Rightarrow> Some (Done (Inr b) k'))
      | Resched k' c \<Rightarrow> Some (Resched k' c))"

declare burst.simps [code]

definition settle :: "('s \<Rightarrow> kernel \<Rightarrow> ('s + 'b) res) \<Rightarrow> ('s + 'b) res \<Rightarrow> ('s + 'b) res" where
  "settle body m =
     (case m of
        Done x k \<Rightarrow> (case x of Inl s \<Rightarrow> (case burst body s k of None \<Rightarrow> Loop | Some r \<Rightarrow> r) | Inr b \<Rightarrow> m)
      | _ \<Rightarrow> m)"

primcorec iterate_from :: "('s \<Rightarrow> kernel \<Rightarrow> ('s + 'b) res) \<Rightarrow> ('s + 'b) res \<Rightarrow> 'b res" where
  "iterate_from body m =
     (case settle body m of
        Fault \<Rightarrow> Fault
      | Loop \<Rightarrow> Loop
      | Done x k \<Rightarrow> Done (projr x) k
      | Resched k c \<Rightarrow> Resched k (\<lambda>k'. iterate_from body (c k')))"

definition iterate :: "('s \<Rightarrow> kernel \<Rightarrow> ('s + 'b) res) \<Rightarrow> 's \<Rightarrow> kernel \<Rightarrow> 'b res" where
  "iterate body s k = iterate_from body (Done (Inl s) k)"

text \<open>One turn of the loop, then the rest.\<close>

definition continue :: "('s \<Rightarrow> kernel \<Rightarrow> ('s + 'b) res) \<Rightarrow> 's + 'b \<Rightarrow> kernel \<Rightarrow> 'b res" where
  "continue body x k = (case x of Inl s \<Rightarrow> iterate body s k | Inr b \<Rightarrow> Done b k)"

lemma continue_simps [simp]:
  "continue body (Inl s) k = iterate body s k" "continue body (Inr b) k = Done b k"
  by (simp_all add: continue_def)

lemma iterate_from_simps:
  "iterate_from body Fault = Fault" "iterate_from body Loop = Loop"
  "iterate_from body (Done (Inr b) k) = Done b k"
  "iterate_from body (Resched k c) = Resched k (\<lambda>k'. iterate_from body (c k'))"
  by (subst iterate_from.code; simp add: settle_def)+

lemma burst_settles: "burst body s k = Some r \<Longrightarrow> \<forall>s' k'. r \<noteq> Done (Inl s') k'"
  by (erule burst.raw_induct [rotated]) (auto split: res.splits sum.splits)

lemma settle_burst: "burst body s k = Some r \<Longrightarrow> settle body r = r"
  using burst_settles [of body s k r] by (auto simp: settle_def split: res.split sum.split)

lemma iterate_burst:
  "iterate body s k = (case burst body s k of None \<Rightarrow> Loop | Some r \<Rightarrow> iterate_from body r)"
proof (cases "burst body s k")
  case None
  then have "settle body (Done (Inl s) k) = Loop" by (simp add: settle_def)
  then show ?thesis using None unfolding iterate_def by (subst iterate_from.code) simp
next
  case (Some r)
  then have "settle body (Done (Inl s) k) = settle body r" by (simp add: settle_burst) (simp add: settle_def)
  then have "iterate_from body (Done (Inl s) k) = iterate_from body r"
    by (subst (1 2) iterate_from.code) (simp only:)
  then show ?thesis using Some by (simp add: iterate_def)
qed

lemma iterate_from_bind: "iterate_from body m = bind m (continue body)"
proof (coinduction arbitrary: m rule: res.coinduct_strong)
  case Eq_res
  show ?case
  proof (cases m)
    case (Done x k)
    then show ?thesis
      by (cases x) (simp_all add: iterate_def [symmetric] iterate_from_simps rel_fun_def)
  qed (auto simp: iterate_from_simps)
qed

lemma iterate_unfold: "iterate body s k = bind (body s k) (continue body)"
proof (cases "body s k")
  case (Done x k')
  then show ?thesis
  proof (cases x)
    case (Inl a)
    have "burst body s k = burst body a k'" by (subst burst.simps) (simp add: Done Inl)
    then have "iterate body s k = iterate body a k'" by (simp only: iterate_burst)
    then show ?thesis by (simp add: Done Inl)
  next
    case (Inr b)
    have "burst body s k = Some (Done (Inr b) k')" by (subst burst.simps) (simp add: Done Inr)
    then show ?thesis using Done Inr by (simp add: iterate_burst iterate_from_simps)
  qed
next
  case (Resched k' c)
  have "burst body s k = Some (Resched k' c)" by (subst burst.simps) (simp add: Resched)
  then show ?thesis using Resched by (simp add: iterate_burst iterate_from_bind)
next
  case Fault
  have "burst body s k = Some Fault" by (subst burst.simps) (simp add: Fault)
  then show ?thesis using Fault by (simp add: iterate_burst iterate_from_simps)
next
  case Loop
  have "burst body s k = Some Loop" by (subst burst.simps) (simp add: Loop)
  then show ?thesis using Loop by (simp add: iterate_burst iterate_from_simps)
qed

lemma iterate_turn: "body s k = Done (Inl s') k' \<Longrightarrow> iterate body s k = iterate body s' k'"
  by (subst iterate_unfold) simp

lemma iterate_stop: "body s k = Done (Inr b) k' \<Longrightarrow> iterate body s k = Done b k'"
  by (subst iterate_unfold) simp

section \<open>What a kernel function can come to\<close>

text \<open>
  \<open>results m a k\<close>: \<open>m\<close> can finish with \<open>a\<close> in the state \<open>k\<close>, whatever states it is resumed in.
\<close>

inductive results :: "'a res \<Rightarrow> 'a \<Rightarrow> kernel \<Rightarrow> bool" where
  finished: "results (Done a k) a k"
| resumed: "results (c k') a k \<Longrightarrow> results (Resched k'' c) a k"

inductive_cases results_FaultE [elim!]: "results Fault a k"
inductive_cases results_LoopE [elim!]: "results Loop a k"
inductive_cases results_DoneE [elim!]: "results (Done b k') a k"
inductive_cases results_ReschedE [elim!]: "results (Resched k' c) a k"

lemma results_bindE:
  assumes "results (bind m f) b k'"
  obtains a k where "results m a k" "results (f a k) b k'"
proof -
  have "results r b k' \<Longrightarrow> r = bind m f \<Longrightarrow> \<exists>a k. results m a k \<and> results (f a k) b k'" for r
  proof (induction arbitrary: m rule: results.induct)
    case (finished a k)
    then obtain x k0 where m: "m = Done x k0" "f x k0 = Done a k" by (cases m) auto
    then have "results m x k0" "results (f x k0) a k" by (simp_all add: results.finished)
    then show ?case by blast
  next
    case (resumed c k1 a k2 k3)
    show ?case
    proof (cases m)
      case (Resched k4 c4)
      with resumed.prems have "c k1 = bind (c4 k1) f" by simp
      from resumed.IH [OF this] Resched show ?thesis by (blast intro: results.intros)
    next
      case (Done a4 k4)
      have "f a4 k4 = Resched k3 c" using resumed.prems Done by simp
      moreover have "results (Resched k3 c) a k2" using resumed.hyps by (rule results.resumed [of c k1])
      moreover have "results m a4 k4" using Done by (simp add: results.finished)
      ultimately show ?thesis by (intro exI [of _ a4] exI [of _ k4]) simp
    qed (use resumed.prems in simp_all)
  qed
  from this [OF assms refl] that show thesis by blast
qed

lemma results_bindI:
  "results m a k \<Longrightarrow> results (f a k) b k' \<Longrightarrow> results (bind m f) b k'"
  by (induction rule: results.induct) (auto intro: results.intros)

text \<open>Every result that continues satisfies \<open>I\<close>, every one that stops satisfies \<open>Q\<close>.\<close>

definition fine :: "('s \<Rightarrow> bool) \<Rightarrow> ('b \<Rightarrow> bool) \<Rightarrow> ('s + 'b) res \<Rightarrow> bool" where
  "fine I Q m \<longleftrightarrow> (\<forall>x k. results m x k \<longrightarrow> (case x of Inl s \<Rightarrow> I s | Inr b \<Rightarrow> Q b))"

lemma fineD:
  "fine I Q m \<Longrightarrow> results m (Inl s) k \<Longrightarrow> I s" "fine I Q m \<Longrightarrow> results m (Inr b) k \<Longrightarrow> Q b"
proof -
  assume f: "fine I Q m"
  show "results m (Inl s) k \<Longrightarrow> I s" using f [unfolded fine_def, rule_format, of "Inl s" k] by simp
  show "results m (Inr b) k \<Longrightarrow> Q b" using f [unfolded fine_def, rule_format, of "Inr b" k] by simp
qed

lemma fine_burst:
  assumes body: "\<And>s k. I s \<Longrightarrow> fine I Q (body s k)"
  shows "burst body s k = Some r \<Longrightarrow> I s \<longrightarrow> fine I Q r"
proof (induction rule: burst.raw_induct
    [of "\<lambda>b s k r. b = body \<longrightarrow> I s \<longrightarrow> fine I Q r" body, rotated, THEN mp [OF _ refl], consumes 1])
  case (1 burst bd s k r)
  show ?case
  proof (intro impI)
    assume e: "bd = body" and s: "I s"
    have f: "fine I Q (body s k)" by (rule body [OF s])
    show "fine I Q r"
    proof (cases "body s k")
      case (Done x k')
      show ?thesis
      proof (cases x)
        case (Inl s')
        then have "results (body s k) (Inl s') k'" using Done by (simp add: results.finished)
        then have "I s'" by (rule fineD(1) [OF f])
        moreover have "burst bd s' k' = Some r" using 1(2) Done Inl by (simp add: e)
        ultimately show ?thesis using 1(1) e by blast
      next
        case (Inr b)
        then show ?thesis using 1(2) f Done by (simp add: e)
      qed
    qed (use 1(2) f in \<open>simp_all add: e\<close>)
  qed
qed

lemma fine_settle:
  assumes body: "\<And>s k. I s \<Longrightarrow> fine I Q (body s k)" and m: "fine I Q m"
  shows "fine I Q (settle body m)"
proof (cases "\<exists>s k. m = Done (Inl s) k")
  case True
  then obtain s k where e: "m = Done (Inl s) k" by blast
  have "I s" by (rule fineD(1) [OF m, of s k]) (simp add: e results.finished)
  moreover have "fine I Q r" if "burst body s k = Some r" "I s" for r
    using fine_burst [of I Q body s k r] body that by blast
  ultimately show ?thesis by (auto simp: e settle_def fine_def [of I Q Loop] split: option.split)
next
  case False
  then have "settle body m = m" by (auto simp: settle_def split: res.split sum.split)
  with m show ?thesis by simp
qed

lemma settle_stops: "settle body m \<noteq> Done (Inl s) k"
  using burst_settles [of body] by (auto simp: settle_def split: res.splits sum.splits option.splits)

lemma results_iterate_from:
  assumes body: "\<And>s k. I s \<Longrightarrow> fine I Q (body s k)"
  shows "results r b k' \<Longrightarrow> r = iterate_from body m \<Longrightarrow> fine I Q m \<Longrightarrow> Q b"
proof (induction arbitrary: m rule: results.induct)
  case (finished a k)
  let ?m = "settle body m"
  have f: "fine I Q ?m" by (rule fine_settle [OF body finished(2)])
  have "iterate_from body m = Done a k" using finished(1) by simp
  then obtain x where x: "?m = Done x k" "a = projr x"
    by (subst (asm) iterate_from.code) (auto split: res.splits)
  then obtain c where "x = Inr c" using settle_stops [of body m] by (cases x) auto
  then show ?case using fineD(2) [OF f, of a k] x by (simp add: results.finished)
next
  case (resumed c k1 a k2 k3)
  let ?m = "settle body m"
  have f: "fine I Q ?m" by (rule fine_settle [OF body resumed(4)])
  have "iterate_from body m = Resched k3 c" using resumed(3) by simp
  then obtain c' where c: "?m = Resched k3 c'" "c = (\<lambda>k. iterate_from body (c' k))"
    by (subst (asm) iterate_from.code) (auto split: res.splits)
  have "fine I Q (c' k1)" using f c by (auto simp: fine_def intro: results.resumed)
  then show ?case by (intro resumed.IH [of "c' k1"]) (simp add: c)
qed

text \<open>An invariant of the loop holds of what it ends with, whatever happens in between.\<close>

lemma results_iterate:
  assumes "results (iterate body s k) b k'" and "I s"
    and "\<And>s k s' k'. I s \<Longrightarrow> results (body s k) (Inl s') k' \<Longrightarrow> I s'"
    and "\<And>s k b k'. I s \<Longrightarrow> results (body s k) (Inr b) k' \<Longrightarrow> Q b"
  shows "Q b"
proof -
  have body: "fine I Q (body s k)" if "I s" for s k
    using assms(3,4) [OF that] by (auto simp: fine_def split: sum.split)
  have "fine I Q (Done (Inl s) k)" using assms(2) by (auto simp: fine_def)
  from results_iterate_from [of I Q body, OF body assms(1) [unfolded iterate_def] refl this] show ?thesis .
qed

end
