(* ===== verification/Printf.thy ===== *)
theory Printf
  imports Keyboard Kernel_Loops
begin

text \<open>
  The formatted printing of \<open>Kernel/lib.c\<close> and \<open>Userland/uCodeModule/lib.c\<close>, two copies of one
  loop over the format that differ in the routine for decimals, and the process table that
  \<open>Kernel/scheduler.c\<close> prints with it.
\<close>

text \<open>An argument: a machine word, or a string the caller holds.\<close>

datatype va = Num u64 | Str cstring

definition put :: "buffer \<Rightarrow> kernel \<Rightarrow> unit res" where
  "put s k = bind (sys_write 1 s 0 WHITE k) (\<lambda>_ k. Done () k)"

definition putColorChar :: "i32 \<Rightarrow> color \<Rightarrow> kernel \<Rightarrow> int res" where
  "putColorChar car c k = bind (sys_write 1 [ucast car, 0] 0 c k) (\<lambda>_ k. Done (sint (ucast car :: byte)) k)"

definition putChar :: "i32 \<Rightarrow> kernel \<Rightarrow> int res" where
  "putChar c k = putColorChar c WHITE k"

text \<open>A number in an array of 27 bytes.\<close>

definition put_number :: "(buffer \<Rightarrow> buffer option) \<Rightarrow> kernel \<Rightarrow> unit res" where
  "put_number conv k = (case conv (replicate 27 0) of None \<Rightarrow> Fault | Some b \<Rightarrow> put b k)"

definition in_base :: "int \<Rightarrow> int \<Rightarrow> buffer \<Rightarrow> buffer option" where
  "in_base base v b = map_option fst (numToBase v b base)"

text \<open>One conversion: the arguments left. A missing argument or a number printed as one of the wrong kind faults.\<close>

definition convert :: "(int \<Rightarrow> buffer \<Rightarrow> buffer option) \<Rightarrow> byte \<Rightarrow> va list \<Rightarrow> kernel \<Rightarrow> va list res" where
  "convert decimal c args k =
     (if c = 99 then
        (case args of Num v # as \<Rightarrow> bind (putChar (scast (ucast v :: byte)) k) (\<lambda>_ k. Done as k) | _ \<Rightarrow> Fault)
      else if c = 115 then
        (case args of
           Str s # as \<Rightarrow> bind (put (s @ [0]) k) (\<lambda>_ k. Done as k)
         | Num p # as \<Rightarrow> bind (put (cstr k p @ [0]) k) (\<lambda>_ k. Done as k)
         | [] \<Rightarrow> Fault)
      else if c = 105 \<or> c = 100 then
        (case args of Num v # as \<Rightarrow> bind (put_number (decimal (sint (ucast v :: i32))) k) (\<lambda>_ k. Done as k) | _ \<Rightarrow> Fault)
      else if c = 111 then
        (case args of Num v # as \<Rightarrow> bind (put_number (in_base 8 (sint (ucast v :: i32))) k) (\<lambda>_ k. Done as k) | _ \<Rightarrow> Fault)
      else if c = 120 \<or> c = 88 \<or> c = 112 then
        (case args of
           Num v # as \<Rightarrow>
             bind (putChar 48 k) (\<lambda>_ k. bind (putChar 120 k) (\<lambda>_ k.
             bind (put_number (in_base 8 (sint (ucast v :: i32))) k) (\<lambda>_ k. Done as k)))
         | _ \<Rightarrow> Fault)
      else if c = 37 then bind (putChar 37 k) (\<lambda>_ k. Done args k)
      else if c = 108 then
        (case args of Num v # as \<Rightarrow> bind (put_number (in_base 8 (sint v)) k) (\<lambda>_ k. Done as k) | _ \<Rightarrow> Fault)
      else Done args k)"

text \<open>The loop of \<open>print\<close>: \<open>state\<close> is 1 after a percent sign. The format is given without terminator.\<close>

fun print_with :: "(int \<Rightarrow> buffer \<Rightarrow> buffer option) \<Rightarrow> bool \<Rightarrow> cstring \<Rightarrow> va list \<Rightarrow> kernel \<Rightarrow> unit res" where
  "print_with decimal state [] args k = Done () k"
| "print_with decimal False (c # fmt) args k =
     (if c = 37 then print_with decimal True fmt args k
      else bind (putChar (scast c) k) (\<lambda>_ k. print_with decimal False fmt args k))"
| "print_with decimal True (c # fmt) args k =
     bind (convert decimal c args k) (\<lambda>args k. print_with decimal False fmt args k)"

definition printf_kernel :: "cstring \<Rightarrow> va list \<Rightarrow> kernel \<Rightarrow> unit res" where
  "printf_kernel fmt args k = print_with (in_base 10) False fmt args k"

definition printf_user :: "cstring \<Rightarrow> va list \<Rightarrow> kernel \<Rightarrow> unit res" where
  "printf_user fmt args k = print_with (\<lambda>v b. sitoa v b 10) False fmt args k"

section \<open>The process table\<close>

definition state_number :: "states \<Rightarrow> u64" where
  "state_number st = (case st of READY \<Rightarrow> 0 | RUNNING \<Rightarrow> 1 | BLOCKED \<Rightarrow> 2 | NEW \<Rightarrow> 3 | KILLED \<Rightarrow> 4)"

definition tabs :: cstring where "tabs = [9, 9]"

definition printNode :: "u64 \<Rightarrow> kernel \<Rightarrow> unit res" where
  "printNode node k =
     with_node_proc k node (\<lambda>_ r. with_node_proc k (foreground k) (\<lambda>_ f.
       printf_kernel
         (ascii ''%s'' @ tabs @ ascii ''%d'' @ tabs @ ascii ''%d'' @ tabs @ ascii ''%d'' @ tabs @ ascii ''%d'' @
          tabs @ ascii ''%d'' @ tabs @ ascii ''%s'' @ [10])
         [Num (p_name r), Num (p_pid r), Num (p_priority r), Num (p_bp r), Num (p_sp r),
          Num (state_number (p_state r)),
          Str (if p_pid r = p_pid f then ascii ''FOREGROUND'' else ascii ''BACKGROUND'')] k))"

text \<open>The walk of the ring; a node printed to a pipe can give up the processor, and the ring change meanwhile.\<close>

definition nodes_turn :: "u64 \<Rightarrow> kernel \<Rightarrow> (u64 + unit) res" where
  "nodes_turn cur k =
     (if cur = first k then Done (Inr ()) k
      else bind (printNode cur k) (\<lambda>_ k. with_node k cur (\<lambda>n. Done (Inl (n_next n)) k)))"

definition print_all_nodes :: "kernel \<Rightarrow> unit res" where
  "print_all_nodes k =
     bind (printf_kernel
       (ascii ''NAME'' @ tabs @ ascii ''PID'' @ tabs @ ascii ''PRIORITY'' @ tabs @ ascii ''BP'' @ tabs @
        ascii ''SP'' @ tabs @ ascii ''STATE'' @ tabs @ ascii ''GROUND'' @ [10]) [] k) (\<lambda>_ k.
     let cur = first k in
     bind (printNode cur k) (\<lambda>_ k. with_node k cur (\<lambda>n. iterate nodes_turn (n_next n) k)))"

end
