(* ===== verification/Syscalls.thy ===== *)
theory Syscalls
  imports Printf
begin

text \<open>
  The timer (\<open>Kernel/timer.c\<close>) and the system calls (\<open>Kernel/syscallManager.c\<close>) on the kernel's
  state. \<open>sys_write\<close> is in \<open>Process\<close>, where process removal needs it. What the assembler
  routines read from the real-time clock is an argument.
\<close>

section \<open>Time\<close>

definition timer_handler :: "kernel \<Rightarrow> kernel" where
  "timer_handler k = k\<lparr>clock_ticks := clock_ticks k + 1\<rparr>"

definition ticks_elapsed :: "kernel \<Rightarrow> int" where
  "ticks_elapsed k = sint (ucast (clock_ticks k) :: i32)"

text \<open>
  18 ticks are a second. The quotients are computed in \<open>double\<close> and truncated, which is exact
  for the tick counts of thousands of years.
\<close>

definition seconds_elapsed :: "kernel \<Rightarrow> int" where
  "seconds_elapsed k = uint (clock_ticks k) div 18"

definition milliseconds_elapsed :: "kernel \<Rightarrow> int" where
  "milliseconds_elapsed k = 1000 * uint (clock_ticks k) div 18"

definition pack3 :: "i32 \<Rightarrow> i32 \<Rightarrow> i32 \<Rightarrow> u64" where
  "pack3 a b c = scast a OR push_bit 8 (scast b) OR push_bit 16 (scast c)"

definition getTime :: "i32 \<Rightarrow> i32 \<Rightarrow> i32 \<Rightarrow> u64" where
  "getTime hours minutes seconds = pack3 hours minutes seconds"

definition getDate :: "i32 \<Rightarrow> i32 \<Rightarrow> i32 \<Rightarrow> u64" where
  "getDate day month year = pack3 day month year"

definition sys_time :: "i32 \<Rightarrow> i32 \<Rightarrow> i32 \<Rightarrow> kernel \<Rightarrow> u64 res" where
  "sys_time hours minutes seconds k = Done (getTime hours minutes seconds) k"

definition sys_date :: "i32 \<Rightarrow> i32 \<Rightarrow> i32 \<Rightarrow> kernel \<Rightarrow> u64 res" where
  "sys_date day month year k = Done (getDate day month year) k"

text \<open>\<open>_hlt\<close> waits for the next interrupt, whose handlers may do anything to the kernel.\<close>

definition halt :: "kernel \<Rightarrow> unit res" where
  "halt k = Resched k (Done ())"

lemma bind_halt [simp]: "bind (halt k) f = Resched k (f ())"
  by (simp add: halt_def)

text \<open>\<open>initial\<close> is an \<open>int\<close>, the clock a \<open>long\<close>.\<close>

definition to_int :: "int \<Rightarrow> int" where
  "to_int v = sint (of_int v :: i32)"

definition wait_turn :: "int \<Rightarrow> u32 \<Rightarrow> unit \<Rightarrow> kernel \<Rightarrow> (unit + u64) res" where
  "wait_turn initial millis _ k =
     (if milliseconds_elapsed k - initial < uint millis then bind (halt k) (\<lambda>_ k. Done (Inl ()) k)
      else Done (Inr 0) k)"

definition sys_wait :: "u32 \<Rightarrow> kernel \<Rightarrow> u64 res" where
  "sys_wait millis k = iterate (wait_turn (to_int (milliseconds_elapsed k)) millis) () k"

text \<open>The busy wait of \<open>wait\<close> compares unsigned 64-bit values; interrupts come in between.\<close>

definition busy_turn :: "i32 \<Rightarrow> i32 \<Rightarrow> unit \<Rightarrow> kernel \<Rightarrow> (unit + unit) res" where
  "busy_turn initial t _ k =
     (if clock_ticks k - scast initial < scast t then bind (halt k) (\<lambda>_ k. Done (Inl ()) k)
      else Done (Inr ()) k)"

definition wait_ticks :: "i32 \<Rightarrow> kernel \<Rightarrow> unit res" where
  "wait_ticks t k = iterate (busy_turn (ucast (clock_ticks k)) t) () k"

section \<open>Reading\<close>

text \<open>Whether there were keys, the caller's array and its position in it.\<close>

definition getKbdBuffer :: "buffer \<Rightarrow> u32 \<Rightarrow> nat \<Rightarrow> kernel \<Rightarrow> (bool \<times> buffer \<times> nat) res" where
  "getKbdBuffer buf count pos k =
     (if getCount (kb_buffer k) = 0 then Done (False, buf, pos) k
      else
        let (cs, b) = readBuf (unat (count - of_nat pos - 1)) (kb_buffer k) in
        (case store buf pos cs of
           None \<Rightarrow> Fault
         | Some buf \<Rightarrow> Done (True, buf, pos + length cs) (k\<lparr>kb_buffer := b\<rparr>)))"

text \<open>
  A turn of the reading loops: \<open>mark\<close> is what the end of the line becomes. When no key was
  stored the test looks at the byte before the array.
\<close>

definition read_turn :: "(kernel \<Rightarrow> bool) \<Rightarrow> byte \<Rightarrow> u32 \<Rightarrow> buffer \<times> nat \<Rightarrow> kernel \<Rightarrow> ((buffer \<times> nat) + (u64 \<times> buffer)) res" where
  "read_turn go mark count st k =
     (let (buf, i) = st in
      if of_nat i < count - 1 \<and> go k
      then
        bind (getKbdBuffer buf count i k) (\<lambda>r k.
          let (got, buf, i) = r in
          if got \<and> i = 0 then Fault
          else if got \<and> (buf ! (i - 1) = 10 \<or> buf ! (i - 1) = 0)
            then Done (Inr (of_nat i, buf[i - 1 := mark])) k
          else bind (halt k) (\<lambda>_ k. Done (Inl (buf, i)) k))
      else if i < length buf then Done (Inr (of_nat i, buf[i := 0])) k
      else Fault)"

definition sys_read :: "byte \<Rightarrow> buffer \<Rightarrow> u32 \<Rightarrow> kernel \<Rightarrow> (u64 \<times> buffer) res" where
  "sys_read fd buf count k =
     bind (if fd = 0 \<or> fd = 1 \<or> fd = 2 then get_current_read k else Done (ucast fd) k) (\<lambda>new_fd k.
       if new_fd = 1 \<or> new_fd = 2 then Done (0, buf) k
       else if new_fd \<noteq> 0
         then bind (pipe_read (sint (ucast (new_fd - 3) :: i32)) buf (sint count) k)
                (\<lambda>r k. Done (of_int (fst r), snd r) k)
       else iterate (read_turn (\<lambda>_. True) 10 count) (buf, 0) k)"

definition sys_timedRead :: "byte \<Rightarrow> buffer \<Rightarrow> u32 \<Rightarrow> u32 \<Rightarrow> kernel \<Rightarrow> (u64 \<times> buffer) res" where
  "sys_timedRead fd buf count millis k =
     bind (get_current_read k) (\<lambda>current k.
       if ucast fd \<noteq> current then Done (0, buf) k
       else if buf = [] then Fault
       else
         let initial = to_int (milliseconds_elapsed k) in
         iterate (read_turn (\<lambda>k. milliseconds_elapsed k - initial < uint millis) 0 count) (buf[0 := 0], 0) k)"

section \<open>Sound\<close>

definition outb :: "byte \<Rightarrow> byte \<Rightarrow> kernel \<Rightarrow> kernel" where
  "outb port v k = k\<lparr>port_log := (port, v) # port_log k\<rparr>"

definition playSound :: "u32 \<Rightarrow> kernel \<Rightarrow> unit res" where
  "playSound frequency k =
     (if frequency = 0 then Fault
      else
        let d = 1193180 div frequency;
            k = outb 0x42 (ucast (drop_bit 8 d)) (outb 0x42 (ucast d) (outb 0x43 0xb6 k));
            tmp = port_in k 0x61
        in Done () (if tmp \<noteq> tmp OR 3 then outb 0x61 (tmp OR 3) k else k))"

definition noSound :: "kernel \<Rightarrow> unit res" where
  "noSound k = Done () (outb 0x61 (port_in k 0x61 AND 0xFC) k)"

definition beep1 :: "u32 \<Rightarrow> kernel \<Rightarrow> unit res" where
  "beep1 frequency k = bind (playSound frequency k) (\<lambda>_ k. bind (sys_wait 200 k) (\<lambda>_ k. noSound k))"

definition beep2 :: "kernel \<Rightarrow> unit res" where
  "beep2 k = bind (playSound 1193180 k) (\<lambda>_ k. bind (sys_wait 200 k) (\<lambda>_ k. noSound k))"

definition sys_beep :: "u32 \<Rightarrow> kernel \<Rightarrow> u64 res" where
  "sys_beep frequency k =
     bind (beep1 frequency k) (\<lambda>_ k. bind (sys_wait 100 k) (\<lambda>_ k. bind (beep2 k) (\<lambda>_ k. Done 0 k)))"

section \<open>Screen, registers, memory\<close>

definition on_screen :: "(screen \<Rightarrow> screen) \<Rightarrow> kernel \<Rightarrow> kernel" where
  "on_screen f k = k\<lparr>scr := f (scr k)\<rparr>"

definition sys_clearScreen :: "kernel \<Rightarrow> u64 res" where
  "sys_clearScreen k = Done 0 (on_screen clearScreen k)"

definition sys_drawRectangle :: "u16 \<Rightarrow> u16 \<Rightarrow> u16 \<Rightarrow> u16 \<Rightarrow> color \<Rightarrow> kernel \<Rightarrow> u64 res" where
  "sys_drawRectangle x y w h c k = Done 0 (on_screen (fillrect x y w h c) k)"

definition sys_widthScr :: "kernel \<Rightarrow> u64 res" where
  "sys_widthScr k = Done (ucast (getWidth (scr k))) k"

definition sys_heightScr :: "kernel \<Rightarrow> u64 res" where
  "sys_heightScr k = Done (ucast (getHeight (scr k))) k"

definition sys_writeAt :: "u16 \<Rightarrow> u16 \<Rightarrow> cstring \<Rightarrow> color \<Rightarrow> kernel \<Rightarrow> u64 res" where
  "sys_writeAt x y string c k = Done 0 (on_screen (printStringAt x (ucast y) string c) k)"

definition sys_changeFontSize :: "u32 \<Rightarrow> kernel \<Rightarrow> u64 res" where
  "sys_changeFontSize dif k = (let (r, s) = changeFontSize dif (scr k) in Done (of_int r) (k\<lparr>scr := s\<rparr>))"

text \<open>The caller's array of registers comes back with the 17 saved ones.\<close>

definition sys_inforeg :: "u64 list \<Rightarrow> kernel \<Rightarrow> (u64 \<times> u64 list) res" where
  "sys_inforeg array k =
     (if length array < 17 \<or> length (registers k) < 17 then Fault
      else Done (1, take 17 (registers k) @ drop 17 array) k)"

definition sys_malloc :: "u64 \<Rightarrow> kernel \<Rightarrow> u64 res" where
  "sys_malloc memSize k = kmalloc memSize k"

definition sys_free :: "u64 \<Rightarrow> kernel \<Rightarrow> unit res" where
  "sys_free p k = kfree p k"

definition sys_mem_info :: "kernel \<Rightarrow> memory_info res" where
  "sys_mem_info k = Done (getMemoryInfo (mm k)) k"

section \<open>Processes, semaphores, pipes\<close>

definition sys_exec :: "u64 \<Rightarrow> u64 \<Rightarrow> u64 \<Rightarrow> u64 \<Rightarrow> u64 \<Rightarrow> u64 \<Rightarrow> u64 \<Rightarrow> kernel \<Rightarrow> u64 res" where
  "sys_exec name program argv read_fd write_fd priority is_foreground k =
     add_process name program argv read_fd write_fd priority is_foreground k"

definition word_of :: "int res \<Rightarrow> u64 res" where
  "word_of m = bind m (\<lambda>r k. Done (of_int r) k)"

definition sys_sem_open :: "cstring \<Rightarrow> i32 \<Rightarrow> kernel \<Rightarrow> u64 res" where
  "sys_sem_open name value k = word_of (sem_open name value k)"

definition sys_sem_close :: "cstring \<Rightarrow> kernel \<Rightarrow> u64 res" where
  "sys_sem_close name k = word_of (sem_close name k)"

definition sys_sem_wait :: "cstring \<Rightarrow> kernel \<Rightarrow> u64 res" where
  "sys_sem_wait name k = word_of (sem_wait name k)"

definition sys_sem_post :: "cstring \<Rightarrow> kernel \<Rightarrow> u64 res" where
  "sys_sem_post name k = word_of (sem_post name k)"

definition sys_sem_count :: "kernel \<Rightarrow> u64 res" where
  "sys_sem_count k = Done (of_nat (get_sem_count k)) k"

definition sys_sem_info :: "i32 \<Rightarrow> sem_ts \<Rightarrow> kernel \<Rightarrow> (u64 \<times> sem_ts) res" where
  "sys_sem_info idx s k = bind (get_sem_info (sint idx) s k) (\<lambda>r k. Done (of_int (fst r), snd r) k)"

definition sys_pipe_open :: "cstring \<Rightarrow> kernel \<Rightarrow> u64 res" where
  "sys_pipe_open name k = word_of (pipe_open name k)"

definition sys_pipe_close :: "i32 \<Rightarrow> kernel \<Rightarrow> u64 res" where
  "sys_pipe_close i k = bind (pipe_close (sint i) k) (\<lambda>_ k. Done 1 k)"

definition sys_pipes_info :: "kernel \<Rightarrow> buffer res" where
  "sys_pipes_info k = (case pipes_info k of None \<Rightarrow> Fault | Some b \<Rightarrow> Done b k)"

definition sys_get_pid :: "kernel \<Rightarrow> u64 res" where "sys_get_pid k = get_running_pid k"
definition sys_kill :: "u64 \<Rightarrow> kernel \<Rightarrow> u64 res" where "sys_kill pid k = kill_process pid k"
definition sys_block :: "u64 \<Rightarrow> kernel \<Rightarrow> u64 res" where "sys_block pid k = block_process pid k"
definition sys_unblock :: "u64 \<Rightarrow> kernel \<Rightarrow> u64 res" where "sys_unblock pid k = ready_process pid k"
definition sys_yield :: "kernel \<Rightarrow> unit res" where "sys_yield k = force_current_yield k"
definition sys_ps :: "kernel \<Rightarrow> unit res" where "sys_ps k = print_all_nodes k"
definition sys_wait_pid :: "kernel \<Rightarrow> unit res" where "sys_wait_pid k = wait_pid k"

definition sys_change_priority :: "u64 \<Rightarrow> u64 \<Rightarrow> kernel \<Rightarrow> u64 res" where
  "sys_change_priority pid priority k = change_priority pid priority k"

end
