(* ===== verification/User_Lib.thy ===== *)
theory User_Lib
  imports Syscalls
begin

text \<open>
  The user library, \<open>Userland/uCodeModule/lib.c\<close>: terminal input and output, and the wrappers of
  the system calls. An \<open>int\<close> argument reaches the kernel zero-extended, as 32-bit moves leave it.
  The string routines are in \<open>C_Strings\<close>, \<open>printf\<close> in \<open>Printf\<close>. Names that the kernel also uses
  end in \<open>_user\<close>.
\<close>

definition MAX_TERMINAL_CHARS :: nat where "MAX_TERMINAL_CHARS = 124"
definition BUFF_SIZE :: nat where "BUFF_SIZE = 100"
definition CURSOR :: cstring where "CURSOR = ascii ''|''"

section \<open>Output\<close>

definition write_user :: "byte \<Rightarrow> buffer \<Rightarrow> u64 \<Rightarrow> color \<Rightarrow> kernel \<Rightarrow> u64 res" where
  "write_user fd string n c k = sys_write fd string n c k"

definition printString_user :: "cstring \<Rightarrow> color \<Rightarrow> kernel \<Rightarrow> unit res" where
  "printString_user s c k = bind (sys_write 1 (s @ [0]) 0 c k) (\<lambda>_ k. Done () k)"

definition printError :: "cstring \<Rightarrow> kernel \<Rightarrow> unit res" where
  "printError s k = bind (sys_write 2 (s @ [0]) 0 RED k) (\<lambda>_ k. Done () k)"

fun putStringColor :: "cstring \<Rightarrow> color \<Rightarrow> kernel \<Rightarrow> unit res" where
  "putStringColor [] c k = Done () k"
| "putStringColor (ch # s) c k = bind (putColorChar (scast ch) c k) (\<lambda>_ k. putStringColor s c k)"

fun puts :: "cstring \<Rightarrow> kernel \<Rightarrow> unit res" where
  "puts [] k = bind (putChar 10 k) (\<lambda>_ k. Done () k)"
| "puts (ch # s) k = bind (putChar (scast ch) k) (\<lambda>_ k. puts s k)"

definition printStringAt_user :: "i32 \<Rightarrow> i32 \<Rightarrow> cstring \<Rightarrow> color \<Rightarrow> kernel \<Rightarrow> unit res" where
  "printStringAt_user x y s c k = bind (sys_writeAt (ucast x) (ucast y) s c k) (\<lambda>_ k. Done () k)"

definition printBase :: "u64 \<Rightarrow> u32 \<Rightarrow> kernel \<Rightarrow> unit res" where
  "printBase value base k =
     (case uintToBase value (replicate BUFF_SIZE 0) (uint base) of
        None \<Rightarrow> Fault
      | Some (b, _) \<Rightarrow> put b k)"

definition clear_user :: "kernel \<Rightarrow> unit res" where
  "clear_user k = bind (sys_clearScreen k) (\<lambda>_ k. Done () k)"

definition drawRectangle :: "i32 \<Rightarrow> i32 \<Rightarrow> i32 \<Rightarrow> i32 \<Rightarrow> color \<Rightarrow> kernel \<Rightarrow> u64 res" where
  "drawRectangle x y w h c k = sys_drawRectangle (ucast x) (ucast y) (ucast w) (ucast h) c k"

definition getScreenWidth :: "kernel \<Rightarrow> u64 res" where "getScreenWidth k = sys_widthScr k"
definition getScreenHeight :: "kernel \<Rightarrow> u64 res" where "getScreenHeight k = sys_heightScr k"

definition changeFontSize_user :: "u32 \<Rightarrow> kernel \<Rightarrow> u64 res" where
  "changeFontSize_user dif k = sys_changeFontSize dif k"

section \<open>Input\<close>

definition read_user :: "byte \<Rightarrow> buffer \<Rightarrow> i32 \<Rightarrow> kernel \<Rightarrow> (u64 \<times> buffer) res" where
  "read_user fd buf count k = sys_read fd buf count k"

definition first_char :: "u64 \<times> buffer \<Rightarrow> int" where
  "first_char r = sint (hd (snd r))"

definition getChar :: "kernel \<Rightarrow> int res" where
  "getChar k = bind (sys_read 0 [1, 0] 2 k) (\<lambda>r k. Done (first_char r) k)"

definition getTimedChar :: "kernel \<Rightarrow> int res" where
  "getTimedChar k = bind (sys_timedRead 0 [1, 0] 2 1 k) (\<lambda>r k. Done (first_char r) k)"

definition print_user :: "cstring \<Rightarrow> kernel \<Rightarrow> unit res" where
  "print_user fmt k = printf_user fmt [] k"

text \<open>
  One key of \<open>inputRead\<close>: \<open>c\<close> is the last key, \<open>i\<close> the length of the line so far. The printed
  tail is the string from the new character on.
\<close>

definition input_turn :: "int \<times> nat \<times> buffer \<Rightarrow> kernel \<Rightarrow> ((int \<times> nat \<times> buffer) + (nat \<times> buffer)) res" where
  "input_turn st k =
     (let (c, i, buf) = st in
      if c \<noteq> 10 \<and> i < MAX_TERMINAL_CHARS - 1
      then
        bind (getChar k) (\<lambda>c k.
        if c = 8
        then
          (if i > 0
           then
             bind (print_user [8] k) (\<lambda>_ k. bind (print_user [8] k) (\<lambda>_ k. bind (print_user CURSOR k) (\<lambda>_ k.
             Done (Inl (c, i - 1, buf[i - 1 := 0])) k)))
           else Done (Inl (c, i, buf)) k)
        else if c \<ge> 32
        then
          (if i + 1 < length buf
           then
             let buf = buf[i := of_int c, i + 1 := 0] in
             bind (print_user [8] k) (\<lambda>_ k.
             bind (printf_user (ascii ''%s'') [Str (takeWhile (\<lambda>x. x \<noteq> 0) (drop i buf))] k) (\<lambda>_ k.
             bind (print_user CURSOR k) (\<lambda>_ k.
             Done (Inl (c, i + 1, buf)) k)))
           else Fault)
        else Done (Inl (c, i, buf)) k)
      else Done (Inr (i, buf)) k)"

definition inputRead :: "buffer \<Rightarrow> kernel \<Rightarrow> (nat \<times> buffer) res" where
  "inputRead buf k =
     (if buf = [] then Fault
      else bind (iterate input_turn (1, 0, buf[0 := 0]) k) (\<lambda>r k. bind (print_user [8] k) (\<lambda>_ k. Done r k)))"

text \<open>\<open>scan\<close>: the arrays behind the pointer arguments, and as they are afterwards.\<close>

fun scan :: "bool \<Rightarrow> cstring \<Rightarrow> buffer list \<Rightarrow> i32 \<Rightarrow> kernel \<Rightarrow> buffer list res" where
  "scan state [] args n k = Done args k"
| "scan False (c # fmt) args n k =
     (if c = 37 then scan True fmt args n k
      else bind (putChar (scast c) k) (\<lambda>_ k. scan False fmt args n k))"
| "scan True (c # fmt) args n k =
     (if c = 99 then
        (case args of
           b # as \<Rightarrow>
             bind (getChar k) (\<lambda>v k.
             if b = [] then Fault
             else bind (scan False fmt as n k) (\<lambda>as k. Done (b[0 := of_int v] # as) k))
         | [] \<Rightarrow> Fault)
      else if c = 115 \<or> c \<in> {105, 100, 111, 120, 88, 112} then
        (case args of
           b # as \<Rightarrow> bind (sys_read 0 b n k) (\<lambda>r k. bind (scan False fmt as n k) (\<lambda>as k. Done (snd r # as) k))
         | [] \<Rightarrow> Fault)
      else scan False fmt args n k)"

definition scanf :: "i32 \<Rightarrow> cstring \<Rightarrow> buffer list \<Rightarrow> kernel \<Rightarrow> buffer list res" where
  "scanf n fmt args k = scan False fmt args n k"

section \<open>Wrappers\<close>

definition malloc_user :: "u32 \<Rightarrow> kernel \<Rightarrow> u64 res" where
  "malloc_user memSize k = sys_malloc (ucast memSize) k"

definition free_user :: "u64 \<Rightarrow> kernel \<Rightarrow> unit res" where
  "free_user p k = sys_free p k"

definition exec :: "u64 \<Rightarrow> u64 \<Rightarrow> u64 \<Rightarrow> i32 \<Rightarrow> i32 \<Rightarrow> i32 \<Rightarrow> i32 \<Rightarrow> kernel \<Rightarrow> u64 res" where
  "exec name program argv read_fd write_fd priority is_foreground k =
     sys_exec name program argv (ucast read_fd) (ucast write_fd) (ucast priority) (ucast is_foreground) k"

definition get_pid :: "kernel \<Rightarrow> u64 res" where "get_pid k = sys_get_pid k"
definition kill_user :: "i32 \<Rightarrow> kernel \<Rightarrow> u64 res" where "kill_user pid k = sys_kill (ucast pid) k"
definition block_user :: "i32 \<Rightarrow> kernel \<Rightarrow> u64 res" where "block_user pid k = sys_block (ucast pid) k"
definition unblock_user :: "i32 \<Rightarrow> kernel \<Rightarrow> u64 res" where "unblock_user pid k = sys_unblock (ucast pid) k"

definition change_priority_user :: "i32 \<Rightarrow> i32 \<Rightarrow> kernel \<Rightarrow> u64 res" where
  "change_priority_user pid priority k = sys_change_priority (ucast pid) (ucast priority) k"

text \<open>Results declared \<open>int\<close> keep the low half.\<close>

definition to_i32 :: "u64 res \<Rightarrow> i32 res" where
  "to_i32 m = bind m (\<lambda>r k. Done (ucast r) k)"

definition sem_open_user :: "cstring \<Rightarrow> i32 \<Rightarrow> kernel \<Rightarrow> i32 res" where
  "sem_open_user name v k = to_i32 (sys_sem_open name v k)"

definition sem_wait_user :: "cstring \<Rightarrow> kernel \<Rightarrow> i32 res" where
  "sem_wait_user name k = to_i32 (sys_sem_wait name k)"

definition sem_post_user :: "cstring \<Rightarrow> kernel \<Rightarrow> i32 res" where
  "sem_post_user name k = to_i32 (sys_sem_post name k)"

definition sem_close_user :: "cstring \<Rightarrow> kernel \<Rightarrow> i32 res" where
  "sem_close_user name k = to_i32 (sys_sem_close name k)"

definition sem_info_user :: "i32 \<Rightarrow> sem_ts \<Rightarrow> kernel \<Rightarrow> (u64 \<times> sem_ts) res" where
  "sem_info_user idx s k = sys_sem_info idx s k"

definition sems_count :: "kernel \<Rightarrow> u64 res" where "sems_count k = sys_sem_count k"
definition pipes_info_user :: "kernel \<Rightarrow> buffer res" where "pipes_info_user k = sys_pipes_info k"

definition pipe_open_user :: "cstring \<Rightarrow> kernel \<Rightarrow> i32 res" where
  "pipe_open_user name k = to_i32 (sys_pipe_open name k)"

definition pipe_close_user :: "i32 \<Rightarrow> kernel \<Rightarrow> unit res" where
  "pipe_close_user index k = bind (sys_pipe_close (index - 3) k) (\<lambda>_ k. Done () k)"

definition yield_user :: "kernel \<Rightarrow> unit res" where "yield_user k = sys_yield k"
definition wait_pid_user :: "kernel \<Rightarrow> unit res" where "wait_pid_user k = sys_wait_pid k"
definition ps :: "kernel \<Rightarrow> unit res" where "ps k = sys_ps k"

definition infoReg :: "u64 list \<Rightarrow> kernel \<Rightarrow> (u64 \<times> u64 list) res" where
  "infoReg array k = sys_inforeg array k"

text \<open>The values of the real-time clock are arguments, as in the system calls.\<close>

definition time_user :: "i32 \<Rightarrow> i32 \<Rightarrow> i32 \<Rightarrow> kernel \<Rightarrow> u64 res" where
  "time_user hours minutes seconds k = sys_time hours minutes seconds k"

definition date_user :: "i32 \<Rightarrow> i32 \<Rightarrow> i32 \<Rightarrow> kernel \<Rightarrow> u64 res" where
  "date_user day month year k = sys_date day month year k"

definition shortSleep :: "i32 \<Rightarrow> kernel \<Rightarrow> unit res" where
  "shortSleep ticks k = bind (sys_wait ticks k) (\<lambda>_ k. Done () k)"

definition beep :: "i32 \<Rightarrow> kernel \<Rightarrow> unit res" where
  "beep frequency k = bind (sys_beep frequency k) (\<lambda>_ k. Done () k)"

definition memory_report :: "kernel \<Rightarrow> unit res" where
  "memory_report k =
     bind (sys_mem_info k) (\<lambda>info k.
     bind (printf_user (ascii ''Free memory: %d bytes'' @ [10]) [Num (mi_free info)] k) (\<lambda>_ k.
     bind (printf_user (ascii ''Allocated memory: %d bytes'' @ [10]) [Num (mi_allocated info)] k) (\<lambda>_ k.
     printf_user (ascii ''Total memory: %d bytes'' @ [10]) [Num (mi_total info)] k)))"

end
