(* ===== verification/Terminal_Properties.thy ===== *)
theory Terminal_Properties
  imports User_Lib C_Strings_Properties
begin

text \<open>
  Input and output of a process that has the terminal: lines typed on the keyboard reach
  \<open>sys_read\<close>, and formatted printing shows what a reference function on strings computes.
\<close>

section \<open>Reading a line\<close>

definition reads_from :: "u64 \<Rightarrow> kernel \<Rightarrow> bool" where
  "reads_from fd k \<longleftrightarrow> get_current_read k = Done fd k"

definition quiet_keyboard :: "kernel \<Rightarrow> bool" where
  "quiet_keyboard k \<longleftrightarrow> kb_ok (kb_buffer k) \<and> kb_keys (kb_buffer k) = [] \<and> \<not> kb_shift k \<and> \<not> kb_ctrl k"

lemma get_current_read_cong:
  "reads_from fd k \<Longrightarrow> reads_from fd (k\<lparr>kb_buffer := b\<rparr>)"
  by (auto simp: reads_from_def get_current_read_def with_node_proc_def with_node_def with_proc_def
      split: option.splits)

lemma getCount_zero: "kb_ok b \<Longrightarrow> getCount b = 0 \<longleftrightarrow> kb_keys b = []"
proof -
  assume "kb_ok b"
  then have "unat (cb_size b) < 256" by (simp add: kb_ok_def BUF_SIZE_def)
  then have "unat (getCount b) = unat (cb_size b)"
    by (simp add: getCount_def unsigned_ucast_eq take_bit_nat_eq_self)
  then show ?thesis by (metis kb_empty unat_eq_zero)
qed

lemma read_line:
  assumes ok: "kb_ok (kb_buffer k)" and keys: "kb_keys (kb_buffer k) = w @ [10]"
    and w: "- 1 \<notin> set w" and room: "length w + 1 < unat count" "length w < length buf" and go: "go k"
  obtains b where "iterate (read_turn go mark count) (buf, 0) k =
      Done (of_nat (length w + 1), w @ mark # drop (length w + 1) buf) (k\<lparr>kb_buffer := b\<rparr>)"
    "kb_ok b" "kb_keys b = []"
proof -
  let ?n = "unat (count - 1)"
  have n: "?n = unat count - 1" using room by (subst unat_minus) simp_all
  have "- 1 \<notin> set (kb_keys (kb_buffer k))" using keys w by simp
  then obtain b where b: "readBuf ?n (kb_buffer k) = (take ?n (kb_keys (kb_buffer k)), b)"
    "kb_ok b" "kb_keys b = drop ?n (kb_keys (kb_buffer k))"
    using readBuf_take [OF ok] by metis
  have rd: "readBuf ?n (kb_buffer k) = (w @ [10], b)" "kb_keys b = []"
    using b(1,3) keys room n by simp_all
  have st: "store buf 0 (w @ [10]) = Some (w @ 10 # drop (length w + 1) buf)"
    using room(2) store_spec [of 0 buf "w @ [10]"] by simp
  have pos: "0 < count - 1" using n room by (simp add: word_less_nat_alt)
  have "getKbdBuffer buf count 0 k =
      Done (True, w @ 10 # drop (length w + 1) buf, length w + 1) (k\<lparr>kb_buffer := b\<rparr>)"
    using getCount_zero [OF ok] keys rd st by (simp add: getKbdBuffer_def del: store.simps)
  then have "read_turn go mark count (buf, 0) k =
      Done (Inr (of_nat (length w + 1), w @ mark # drop (length w + 1) buf)) (k\<lparr>kb_buffer := b\<rparr>)"
    using pos go by (simp add: read_turn_def nth_append)
  then have "iterate (read_turn go mark count) (buf, 0) k =
      Done (of_nat (length w + 1), w @ mark # drop (length w + 1) buf) (k\<lparr>kb_buffer := b\<rparr>)"
    by (rule iterate_stop)
  from that [OF this b(2) rd(2)] show thesis .
qed

lemma read_waits:
  assumes "kb_ok (kb_buffer k)" "kb_keys (kb_buffer k) = []" "1 < unat count" "go k"
  shows "iterate (read_turn go mark count) (buf, 0) k = Resched k (iterate (read_turn go mark count) (buf, 0))"
proof -
  have "0 < count - 1"
  proof -
    have "unat (count - 1) = unat count - 1" using assms(3) by (subst unat_minus) simp_all
    then show ?thesis using assms(3) by (simp add: word_less_nat_alt)
  qed
  then have "read_turn go mark count (buf, 0) k = Resched k (\<lambda>k. Done (Inl (buf, 0)) k)"
    using assms getCount_zero [OF assms(1)] by (simp add: read_turn_def getKbdBuffer_def)
  then show ?thesis by (subst iterate_unfold) simp
qed

text \<open>
  C19. A process that reads the terminal before anything is typed waits, without keeping the
  processor; when it is resumed, in whatever state the interrupts left the kernel, with the
  line \<open>w\<close> and its end in the key buffer, it gets exactly that line, and the buffer is empty.
\<close>

theorem sys_read_waits_for_line:
  assumes "reads_from 0 k" "kb_ok (kb_buffer k)" "kb_keys (kb_buffer k) = []" "length w + 1 < unat count"
    and "kb_ok (kb_buffer k')" "kb_keys (kb_buffer k') = w @ [10]" "- 1 \<notin> set w" "length w < length buf"
  shows "\<exists>c b. sys_read 0 buf count k = Resched k c \<and>
    c k' = Done (of_nat (length w + 1), w @ 10 # drop (length w + 1) buf) (k'\<lparr>kb_buffer := b\<rparr>) \<and>
    kb_ok b \<and> kb_keys b = []"
proof -
  obtain b where b: "iterate (read_turn (\<lambda>_. True) 10 count) (buf, 0) k' =
      Done (of_nat (length w + 1), w @ 10 # drop (length w + 1) buf) (k'\<lparr>kb_buffer := b\<rparr>)"
    "kb_ok b" "kb_keys b = []"
    by (rule read_line [OF assms(5-7,4,8)]) simp_all
  have "sys_read 0 buf count k = Resched k (iterate (read_turn (\<lambda>_. True) 10 count) (buf, 0))"
    using read_waits [OF assms(2,3), of count "\<lambda>_. True" 10 buf] assms(1,4)
    by (simp add: sys_read_def reads_from_def)
  with b show ?thesis by blast
qed

text \<open>
  C18. Keyboard to process: typing keys (each pressed and released, none of them a modifier) and
  Enter on a quiet keyboard, then reading, gives the characters of the layout table followed by
  the end of the line, as long as they fit the key buffer of 64 and the reader's array.
\<close>

theorem typed_line_is_read:
  assumes q: "quiet_keyboard k" and rd: "reads_from 0 k"
    and cs: "\<forall>c\<in>set cs. plain_code c" "\<forall>c\<in>set cs. getKey c \<notin> {- 1, 0, 10}"
    and room: "length cs < BUF_SIZE" "length cs + 1 < unat count" "length cs < length buf"
  shows "\<exists>b. bind (saveKeys (typed (cs @ [28])) k) (\<lambda>_. sys_read 0 buf count) =
      Done (of_nat (length cs + 1), map getKey cs @ 10 # drop (length cs + 1) buf) (k\<lparr>kb_buffer := b\<rparr>) \<and>
    kb_ok b \<and> kb_keys b = []"
proof -
  let ?b = "fold push (map getKey (cs @ [28])) (kb_buffer k)"
  have p: "\<forall>c\<in>set (cs @ [28]). plain_code c" using cs(1) by (simp add: plain_code_def)
  have s: "saveKeys (typed (cs @ [28])) k = Done () (k\<lparr>kb_buffer := ?b\<rparr>)"
    using q by (intro saveKeys_typed [OF p]) (simp_all add: quiet_keyboard_def)
  have enter: "getKey 28 = 10" by (simp add: getKey_def kbd_US_def)
  have "cb_size (kb_buffer k) = 0" using q kb_empty by (auto simp: quiet_keyboard_def)
  then have kb: "kb_ok ?b" "kb_keys ?b = map getKey cs @ [10]"
    using kb.put_all [of "kb_buffer k" "map getKey (cs @ [28])"] q room(1) enter
    by (simp_all add: quiet_keyboard_def)
  have w: "- 1 \<notin> set (map getKey cs)" using cs(2) by auto
  let ?k = "k\<lparr>kb_buffer := ?b\<rparr>"
  obtain b where b: "iterate (read_turn (\<lambda>_. True) 10 count) (buf, 0) ?k =
      Done (of_nat (length (map getKey cs) + 1), map getKey cs @ 10 # drop (length (map getKey cs) + 1) buf)
        (?k\<lparr>kb_buffer := b\<rparr>)" "kb_ok b" "kb_keys b = []"
    by (rule read_line [of ?k "map getKey cs" count buf "\<lambda>_. True" 10]) (use kb w room in simp_all)
  have "sys_read 0 buf count ?k = iterate (read_turn (\<lambda>_. True) 10 count) (buf, 0) ?k"
    using get_current_read_cong [OF rd, of ?b] by (simp add: sys_read_def reads_from_def)
  with b s show ?thesis by auto
qed

text \<open>A process at the terminal: the ring of the examples, the current process reading the keyboard.\<close>

definition terminal_ex :: kernel where
  "terminal_ex = kernel_zero\<lparr>nodes := [8 \<mapsto> \<lparr>n_quantums = 0, n_proc = 16, n_next = 8\<rparr>],
     procs := [16 \<mapsto> \<lparr>p_name = 0, p_argv = 0, p_pid = 1, p_ppid = 0, p_sp = 0, p_bp = 0, p_state = RUNNING,
       p_stack = 0, p_read_fd = 0, p_write_fd = 1, p_priority = 1, p_children = 0, p_blocked_by_children = 0\<rparr>],
     first := 8, currentNode := 8, foreground := 8, counter := 2\<rparr>"

lemma terminal_ex_ready: "reads_from 0 terminal_ex" "quiet_keyboard terminal_ex"
  by (simp_all add: reads_from_def quiet_keyboard_def terminal_ex_def kernel_zero_def get_current_read_def
      with_node_proc_def with_node_def with_proc_def)

theorem sys_read_waits_for_line_witness:
  "\<exists>c b. sys_read 0 [0, 0, 0, 0] 10 terminal_ex = Resched terminal_ex c \<and>
    c (terminal_ex\<lparr>kb_buffer := push 10 (push 97 buffer_zero)\<rparr>) =
      Done (2, [97, 10, 0, 0]) (terminal_ex\<lparr>kb_buffer := b\<rparr>)"
proof -
  have q: "kb_ok (kb_buffer terminal_ex)" "kb_keys (kb_buffer terminal_ex) = []"
    using terminal_ex_ready(2) by (simp_all add: quiet_keyboard_def)
  have p: "kb_ok (push 10 (push 97 buffer_zero))" "kb_keys (push 10 (push 97 buffer_zero)) = [97] @ [10]"
    using kb.put_all [of buffer_zero "[97, 10]"] by (simp_all add: BUF_SIZE_def)
  show ?thesis
    using sys_read_waits_for_line [of terminal_ex "[97]" 10
        "terminal_ex\<lparr>kb_buffer := push 10 (push 97 buffer_zero)\<rparr>" "[0, 0, 0, 0]"] terminal_ex_ready(1) q p
    by auto
qed

theorem typed_line_is_read_witness:
  "\<exists>b. bind (saveKeys (typed ([0x23, 0x17] @ [28])) terminal_ex) (\<lambda>_. sys_read 0 (replicate 20 0) 20) =
    Done (3, [104, 105, 10] @ replicate 17 0) (terminal_ex\<lparr>kb_buffer := b\<rparr>)"
proof -
  have k: "getKey 0x23 = 104" "getKey 0x17 = 105" by (simp_all add: getKey_def kbd_US_def)
  show ?thesis
    using typed_line_is_read [of terminal_ex "[0x23, 0x17]" 20 "replicate 20 0"] terminal_ex_ready k
    by (auto simp: plain_code_def BUF_SIZE_def)
qed

text \<open>
  Two flaws of the key table. The break code 128 is not filtered (\<open>> 128\<close>, where the table ends
  at 128) and queues the byte \<open>-1\<close>, which \<open>readBuf\<close> takes for an empty buffer after removing it:
  the reader then looks at the byte before its array. And the shift key subtracts 32 from every
  character, so shift and space queue a 0, which ends the line.
\<close>

theorem keyboard_bad_codes:
  assumes q: "quiet_keyboard k" and rd: "reads_from 0 k" and room: "2 < unat count" "1 < length buf"
  shows "bind (saveKey 128 k) (\<lambda>_. sys_read 0 buf count) = Fault \<and>
    (\<exists>b. bind (saveKeys [0x2A, 0x39, 0xAA] k) (\<lambda>_. sys_read 0 buf count) =
      Done (1, buf[0 := 10]) (k\<lparr>kb_buffer := b\<rparr>))"
proof -
  let ?b = "kb_buffer k"
  have n: "unat (count - 1) = unat count - 1" using room by (subst unat_minus) simp_all
  then have pos: "0 < count - 1" using room by (simp add: word_less_nat_alt)
  have z: "cb_size ?b = 0" "kb_ok ?b" "kb_keys ?b = []" using q kb_empty by (auto simp: quiet_keyboard_def)
  have one: "kb_ok (push c ?b)" "kb_keys (push c ?b) = [c]" "cb_size (push c ?b) \<noteq> 0" for c
    using kb.put_ok [OF z(2), of c] kb.put_content [OF z(2), of c] z kb_empty [of "push c ?b"]
    by (simp_all add: BUF_SIZE_def)
  have rd': "sys_read 0 buf count (k\<lparr>kb_buffer := b\<rparr>) =
      iterate (read_turn (\<lambda>_. True) 10 count) (buf, 0) (k\<lparr>kb_buffer := b\<rparr>)" for b
    using get_current_read_cong [OF rd, of b] by (simp add: sys_read_def reads_from_def)
  have cnt: "getCount (push c ?b) \<noteq> 0" for c using getCount_zero [OF one(1)] one(2) by simp
  define m where "m = unat count - 2"
  have m: "unat (count - 1) = Suc m" using n room by (simp add: m_def)
  obtain b1 where p: "pop (push (- 1) ?b) = (- 1, b1)"
    using pop_some(1) [OF one(1,3), of "- 1"] one(2) [of "- 1"] by (cases "pop (push (- 1) ?b)") simp
  have "getKbdBuffer buf count 0 (k\<lparr>kb_buffer := push (- 1) ?b\<rparr>) = Done (True, buf, 0) (k\<lparr>kb_buffer := b1\<rparr>)"
    using cnt m p by (simp add: getKbdBuffer_def)
  then have "iterate (read_turn (\<lambda>_. True) 10 count) (buf, 0) (k\<lparr>kb_buffer := push (- 1) ?b\<rparr>) = Fault"
    using pos by (subst iterate_unfold) (simp add: read_turn_def)
  moreover have "saveKey 128 k = Done () (k\<lparr>kb_buffer := push (- 1) ?b\<rparr>)"
    using q by (simp add: saveKey_def quiet_keyboard_def push_key_def getKey_def)
  ultimately have a: "bind (saveKey 128 k) (\<lambda>_. sys_read 0 buf count) = Fault" by (simp add: rd')
  have "- 1 \<notin> set (kb_keys (push 0 ?b))" using one(2) [of 0] by simp
  then obtain b where "readBuf (Suc m) (push 0 ?b) = (take (Suc m) (kb_keys (push 0 ?b)), b)"
    using readBuf_take [OF one(1), of 0 "Suc m"] by metis
  then have b: "readBuf (unat (count - 1)) (push 0 ?b) = ([0], b)" using m one(2) [of 0] by simp
  have "getKbdBuffer buf count 0 (k\<lparr>kb_buffer := push 0 ?b\<rparr>) =
      Done (True, buf[0 := 0], 1) (k\<lparr>kb_buffer := b\<rparr>)"
    using cnt b room by (cases buf) (simp_all add: getKbdBuffer_def)
  moreover have "buf[0 := 0] ! 0 = 0" using room by (cases buf) simp_all
  ultimately have "iterate (read_turn (\<lambda>_. True) 10 count) (buf, 0) (k\<lparr>kb_buffer := push 0 ?b\<rparr>) =
      Done (1, buf[0 := 10]) (k\<lparr>kb_buffer := b\<rparr>)"
    using pos room by (subst iterate_unfold) (simp add: read_turn_def)
  moreover have "saveKeys [0x2A, 0x39, 0xAA] k = Done () (k\<lparr>kb_buffer := push 0 ?b\<rparr>)"
    using q by (simp add: saveKey_def quiet_keyboard_def push_key_def getKey_def kbd_US_def)
  ultimately have "bind (saveKeys [0x2A, 0x39, 0xAA] k) (\<lambda>_. sys_read 0 buf count) =
      Done (1, buf[0 := 10]) (k\<lparr>kb_buffer := b\<rparr>)"
    by (simp only: bind_simps rd')
  with a show ?thesis by blast
qed

theorem keyboard_bad_codes_witness:
  "bind (saveKey 128 terminal_ex) (\<lambda>_. sys_read 0 [0, 0, 0] 3) = Fault"
  using keyboard_bad_codes [of terminal_ex 3 "[0, 0, 0]"] terminal_ex_ready by simp

section \<open>Formatted printing\<close>

text \<open>The current process writes to the screen; what a string does to the kernel there.\<close>

definition to_screen :: "kernel \<Rightarrow> bool" where
  "to_screen k \<longleftrightarrow> get_current_write k = Done 1 k"

definition shown :: "cstring \<Rightarrow> kernel \<Rightarrow> kernel" where
  "shown s k = k\<lparr>console := (s, WHITE) # console k, scr := draw_string s WHITE (scr k)\<rparr>"

lemma to_screen_shown [simp]: "to_screen k \<Longrightarrow> to_screen (shown s k)"
  by (auto simp: to_screen_def shown_def get_current_write_def with_node_proc_def with_node_def with_proc_def
      split: option.splits)

lemma cstr_shown [simp]: "cstr (shown s k) = cstr k"
  by (simp add: shown_def)

lemma put_shown: "to_screen k \<Longrightarrow> 0 \<in> set s \<Longrightarrow> put s k = Done () (shown (takeWhile (\<lambda>c. c \<noteq> 0) s) k)"
  by (simp add: put_def sys_write_def to_screen_def printString_def shown_def Let_def)

text \<open>What each conversion shows, as a function of the arguments and the strings in memory.\<close>

definition number_text :: "(buffer \<Rightarrow> buffer option) \<Rightarrow> cstring option" where
  "number_text conv =
     (case conv (replicate 27 0) of
        None \<Rightarrow> None
      | Some b \<Rightarrow> if 0 \<in> set b then Some (takeWhile (\<lambda>c. c \<noteq> 0) b) else None)"

definition char_text :: "byte \<Rightarrow> cstring" where
  "char_text c = takeWhile (\<lambda>c. c \<noteq> 0) [c]"

definition conversion_text ::
  "(int \<Rightarrow> buffer \<Rightarrow> buffer option) \<Rightarrow> (u64 \<Rightarrow> cstring) \<Rightarrow> byte \<Rightarrow> va \<Rightarrow> cstring list option" where
  "conversion_text decimal mem c a =
     (case a of
        Str s \<Rightarrow> if c = 115 then Some [takeWhile (\<lambda>c. c \<noteq> 0) (s @ [0])] else None
      | Num v \<Rightarrow>
          let n = sint (ucast v :: i32) in
          if c = 99 then Some [char_text (ucast v)]
          else if c = 115 then Some [takeWhile (\<lambda>c. c \<noteq> 0) (mem v @ [0])]
          else if c = 105 \<or> c = 100 then map_option (\<lambda>t. [t]) (number_text (decimal n))
          else if c = 111 then map_option (\<lambda>t. [t]) (number_text (in_base 8 n))
          else if c = 120 \<or> c = 88 \<or> c = 112
            then map_option (\<lambda>t. [char_text 48, char_text 120, t]) (number_text (in_base 8 n))
          else map_option (\<lambda>t. [t]) (number_text (in_base 8 (sint v))))"

definition takes_argument :: "byte \<Rightarrow> bool" where
  "takes_argument c \<longleftrightarrow> c \<in> {99, 100, 105, 108, 111, 112, 115, 120, 88}"

fun render ::
  "(int \<Rightarrow> buffer \<Rightarrow> buffer option) \<Rightarrow> (u64 \<Rightarrow> cstring) \<Rightarrow> cstring \<Rightarrow> va list \<Rightarrow> cstring list option" where
  "render decimal mem [] args = Some []"
| "render decimal mem [c] args = Some (if c = 37 then [] else [char_text c])"
| "render decimal mem (c # d # fmt) args =
     (if c \<noteq> 37 then map_option ((#) (char_text c)) (render decimal mem (d # fmt) args)
      else if takes_argument d
        then
          (case args of
             [] \<Rightarrow> None
           | a # as \<Rightarrow>
               (case conversion_text decimal mem d a of
                  None \<Rightarrow> None
                | Some ts \<Rightarrow> map_option ((@) ts) (render decimal mem fmt as)))
      else map_option ((@) (if d = 37 then [char_text 37] else [])) (render decimal mem fmt args))"

lemma putChar_shown: "to_screen k \<Longrightarrow> putChar v k = Done (sint (ucast v :: byte)) (shown (char_text (ucast v)) k)"
  by (simp add: putChar_def putColorChar_def sys_write_def to_screen_def printString_def shown_def char_text_def Let_def)

lemma put_number_shown:
  "to_screen k \<Longrightarrow> number_text conv = Some t \<Longrightarrow> put_number conv k = Done () (shown t k)"
  by (auto simp: number_text_def put_number_def put_shown split: option.splits if_splits)

lemma ucast_char [simp]: "(ucast (scast (c :: byte) :: i32) :: byte) = c"
proof (rule bit_word_eqI)
  fix n assume n: "n < LENGTH(8)"
  have "n < 7 \<or> n = 7" using n by auto
  then show "bit (ucast (scast c :: i32) :: byte) n \<longleftrightarrow> bit c n"
    by (elim disjE) (simp_all add: bit_unsigned_iff bit_signed_iff)
qed

lemma convert_shown:
  assumes "to_screen k" "takes_argument c" "conversion_text decimal (cstr k) c a = Some ts"
  shows "convert decimal c (a # as) k = Done as (fold shown ts k)"
  using assms
  by (cases a)
    (auto simp: convert_def conversion_text_def takes_argument_def putChar_shown put_shown put_number_shown
      Let_def split: if_splits)

lemma cstr_fold_shown [simp]: "cstr (fold shown ts k) = cstr k"
  by (induction ts arbitrary: k) simp_all

lemma to_screen_fold [simp]: "to_screen k \<Longrightarrow> to_screen (fold shown ts k)"
  by (induction ts arbitrary: k) simp_all

lemma print_render:
  "to_screen k \<Longrightarrow> render decimal (cstr k) fmt args = Some ts \<Longrightarrow>
   print_with decimal False fmt args k = Done () (fold shown ts k)"
proof (induction decimal "cstr k" fmt args arbitrary: k ts rule: render.induct)
  case (1 decimal args)
  then show ?case by simp
next
  case (2 decimal c args)
  then show ?case by (auto simp: putChar_shown split: if_splits)
next
  case (3 decimal c d fmt args)
  consider "c \<noteq> 37" | "c = 37" "takes_argument d" | "c = 37" "\<not> takes_argument d" by blast
  then show ?case
  proof cases
    case 1
    with "3.prems" obtain us where us: "render decimal (cstr k) (d # fmt) args = Some us" "ts = char_text c # us"
      by auto
    have "print_with decimal False (d # fmt) args (shown (char_text c) k) = Done () (fold shown us (shown (char_text c) k))"
      by (rule "3.hyps"(1)) (use 1 "3.prems" us in simp_all)
    with 1 "3.prems"(1) us show ?thesis by (simp add: putChar_shown)
  next
    case 2
    with "3.prems" obtain a as vs us where us: "args = a # as" "conversion_text decimal (cstr k) d a = Some vs"
      "render decimal (cstr k) fmt as = Some us" "ts = vs @ us"
      by (auto split: list.splits option.splits)
    have "print_with decimal False fmt as (fold shown vs k) = Done () (fold shown us (fold shown vs k))"
      by (rule "3.hyps"(2)) (use 2 "3.prems" us in simp_all)
    with 2 us convert_shown [OF "3.prems"(1) 2(2) us(2), of as] show ?thesis by simp
  next
    case 3
    note c = 3
    with "3.prems" obtain us where us: "render decimal (cstr k) fmt args = Some us"
      "ts = (if d = 37 then [char_text 37] else []) @ us"
      by auto
    let ?k = "fold shown (if d = 37 then [char_text 37] else []) k"
    have "print_with decimal False fmt args ?k = Done () (fold shown us ?k)"
      by (rule "3.hyps"(3)) (use c "3.prems" us in simp_all)
    moreover have "convert decimal d args k = Done args ?k"
      using c(2) "3.prems"(1) by (auto simp: convert_def takes_argument_def putChar_shown)
    ultimately show ?thesis using c(1) us by simp
  qed
qed

lemma digit_char_nonzero:
  assumes "0 \<le> r" "r < 16" shows "digit_char 65 r \<noteq> 0"
proof -
  from assms have "r = 0 \<or> r = 1 \<or> r = 2 \<or> r = 3 \<or> r = 4 \<or> r = 5 \<or> r = 6 \<or> r = 7 \<or>
    r = 8 \<or> r = 9 \<or> r = 10 \<or> r = 11 \<or> r = 12 \<or> r = 13 \<or> r = 14 \<or> r = 15"
    by presburger
  then show ?thesis by (elim disjE; simp add: digit_char_def)
qed

lemma digits_loop_nonzero:
  assumes "0 \<le> v" "2 \<le> b" "b \<le> 16" shows "0 \<notin> set (digits_loop 65 b v)"
  using assms(1)
proof (induction "nat v" arbitrary: v rule: less_induct)
  case less
  have "0 \<le> v mod b" "v mod b < b" using assms(2) by simp_all
  then have "0 \<le> v mod b" "v mod b < 16" using assms(3) by linarith+
  then have c: "digit_char 65 (v mod b) \<noteq> 0" by (rule digit_char_nonzero)
  show ?case
  proof (cases "v < b")
    case True
    with less.prems assms(2) c show ?thesis by (subst digits_loop_nonneg) simp_all
  next
    case False
    have "v div b < v" "0 \<le> v div b"
      using False assms(2) less.prems by (simp_all add: int_div_less_self pos_imp_zdiv_nonneg_iff)
    then have "0 \<notin> set (digits_loop 65 b (v div b))" by (intro less.hyps) simp_all
    with False less.prems assms(2) c show ?thesis by (subst digits_loop_nonneg) simp_all
  qed
qed

text \<open>
  C20. \<open>printf\<close> of the kernel and of the user library, for a process that writes to the screen:
  whenever the arguments match the format, the strings the reference function computes are
  shown, in order, in white, and nothing else changes.
\<close>

theorem printf_shows_rendering:
  assumes "to_screen k"
    and "render (in_base 10) (cstr k) fmt args = Some ts"
    and "render (\<lambda>v b. sitoa v b 10) (cstr k) fmt args = Some us"
  shows "printf_kernel fmt args k = Done () (fold shown ts k) \<and>
    printf_user fmt args k = Done () (fold shown us k)"
  using print_render [OF assms(1,2)] print_render [OF assms(1,3)]
  by (simp add: printf_kernel_def printf_user_def)

lemma terminal_ex_screen: "to_screen terminal_ex"
  by (simp add: to_screen_def terminal_ex_def get_current_write_def with_node_proc_def with_node_def with_proc_def)

theorem printf_shows_rendering_witness:
  "printf_kernel [65, 37, 115, 37, 37] [Str [66, 67]] terminal_ex = Done () (fold shown [[65], [66, 67], [37]] terminal_ex)"
  using printf_shows_rendering [of terminal_ex "[65, 37, 115, 37, 37]" "[Str [66, 67]]"
      "[[65], [66, 67], [37]]" "[[65], [66, 67], [37]]"] terminal_ex_screen
  by (simp add: takes_argument_def conversion_text_def char_text_def)

text \<open>
  The conversion \<open>%x\<close> prints \<open>0x\<close> and then octal digits, in both libraries, for every
  non-negative \<open>int\<close>: read in base 16 they are not the number, read in base 8 they are.
\<close>

theorem printf_hex_is_octal:
  assumes k: "to_screen k" and v: "0 \<le> sint (ucast v :: i32)"
  shows "\<exists>ds. read_number 65 8 (rev ds) = sint (ucast v :: i32) \<and>
    printf_kernel [37, 120] [Num v] k = Done () (fold shown [[48], [120], ds] k) \<and>
    printf_user [37, 120] [Num v] k = Done () (fold shown [[48], [120], ds] k)"
proof -
  let ?n = "sint (ucast v :: i32)" let ?ds = "digits_loop 65 8 ?n"
  have "?n < 2 ^ 31" using sint_lt [of "ucast v :: i32"] by simp
  then have "length ?ds \<le> Suc 10" using digits_loop_length [of ?n 8 10] v by simp
  then have "in_base 8 ?n (replicate 27 0) = Some (rev ?ds @ 0 # drop (length ?ds + 1) (replicate 27 0))"
    using numToBase_spec [OF v, of 8 "replicate 27 0"] by (simp add: in_base_def Let_def)
  moreover have "\<forall>x\<in>set ?ds. x \<noteq> 0" using digits_loop_nonzero [OF v, of 8] by fastforce
  ultimately have t: "number_text (in_base 8 ?n) = Some (rev ?ds)"
    by (simp add: number_text_def takeWhile_tail)
  have r: "render decimal (cstr k) [37, 120] [Num v] = Some [[48], [120], rev ?ds]" for decimal
    using t by (simp add: takes_argument_def conversion_text_def char_text_def Let_def)
  show ?thesis
    using print_render [OF k r] read_digits_loop [OF v, of 8 65]
    by (intro exI [of _ "rev ?ds"]) (simp add: printf_kernel_def printf_user_def)
qed

theorem printf_hex_is_octal_witness:
  "\<exists>ds. read_number 65 8 (rev ds) = 255 \<and>
    printf_kernel [37, 120] [Num 255] terminal_ex = Done () (fold shown [[48], [120], ds] terminal_ex)"
proof -
  have e: "sint (ucast (255 :: u64) :: i32) = 255" by simp
  have "(0 :: int) \<le> 255" by simp
  from printf_hex_is_octal [OF terminal_ex_screen, of 255, unfolded e, OF this] show ?thesis by blast
qed

end
