(* ===== verification/Tron.thy ===== *)
theory Tron
  imports User_Lib
begin

text \<open>
  The light cycle game, \<open>Userland/uCodeModule/tron.c\<close>. Coordinates, directions and scores are
  integers: they stay within the board and the number of games played. The game state is passed
  explicitly, the screen, the keyboard and the sleeping are the kernel's.
\<close>

section \<open>The game state\<close>

abbreviation UP :: int where "UP \<equiv> 0"
abbreviation DOWN :: int where "DOWN \<equiv> 1"
abbreviation LEFT :: int where "LEFT \<equiv> 2"
abbreviation RIGHT :: int where "RIGHT \<equiv> 3"

definition MAX_WIDTH :: int where "MAX_WIDTH = 1024"
definition MAX_HEIGHT :: int where "MAX_HEIGHT = 768"
definition BOARD_SCALE :: int where "BOARD_SCALE = 8"
definition CANVAS_SCALE :: int where "CANVAS_SCALE = 4"

record Player =
  pl_x :: int
  pl_y :: int
  pl_dir :: int
  pl_color :: color

text \<open>The board by offset: \<open>board[x][y]\<close> is at \<open>768 * x + y\<close>, wherever that is.\<close>

record Canvas =
  cv_width :: int
  cv_height :: int
  cv_board :: "int \<Rightarrow> byte"

record tron =
  p1 :: Player
  p2 :: Player
  canvas :: Canvas
  player1Score :: int
  player2Score :: int
  oldKey :: int

definition cell :: "int \<Rightarrow> int \<Rightarrow> int" where
  "cell x y = MAX_HEIGHT * x + y"

text \<open>A read outside the array is \<open>None\<close>.\<close>

definition board_at :: "Canvas \<Rightarrow> int \<Rightarrow> int \<Rightarrow> byte option" where
  "board_at c x y =
     (if 0 \<le> cell x y \<and> cell x y < MAX_WIDTH * MAX_HEIGHT then Some (cv_board c (cell x y)) else None)"

definition mark :: "int \<Rightarrow> int \<Rightarrow> byte \<Rightarrow> Canvas \<Rightarrow> Canvas" where
  "mark x y v c = c\<lparr>cv_board := (cv_board c)(cell x y := v)\<rparr>"

definition isValidPoint :: "int \<Rightarrow> int \<Rightarrow> Canvas \<Rightarrow> bool" where
  "isValidPoint x y c \<longleftrightarrow> \<not> (x \<ge> cv_width c \<or> y \<ge> cv_height c \<or> x < 0 \<or> y < 0)"

section \<open>Moving and steering\<close>

definition tick :: "Player \<Rightarrow> Player" where
  "tick p =
     (if pl_dir p = UP then p\<lparr>pl_y := pl_y p - 1\<rparr>
      else if pl_dir p = DOWN then p\<lparr>pl_y := pl_y p + 1\<rparr>
      else if pl_dir p = LEFT then p\<lparr>pl_x := pl_x p - 1\<rparr>
      else if pl_dir p = RIGHT then p\<lparr>pl_x := pl_x p + 1\<rparr>
      else p)"

definition vertical :: "Player \<Rightarrow> bool" where
  "vertical p \<longleftrightarrow> pl_dir p = UP \<or> pl_dir p = DOWN"

definition horizontal :: "Player \<Rightarrow> bool" where
  "horizontal p \<longleftrightarrow> pl_dir p = LEFT \<or> pl_dir p = RIGHT"

text \<open>
  A player turned by one of four keys, given as left, right, up, down; \<open>None\<close> when the key does
  not turn it.
\<close>

definition turned :: "int \<Rightarrow> int \<Rightarrow> int \<Rightarrow> int \<Rightarrow> int \<Rightarrow> Player \<Rightarrow> Player option" where
  "turned l r u d key p =
     (if vertical p
      then (if key = l then Some (p\<lparr>pl_dir := LEFT\<rparr>) else if key = r then Some (p\<lparr>pl_dir := RIGHT\<rparr>) else None)
      else if horizontal p
      then (if key = u then Some (p\<lparr>pl_dir := UP\<rparr>) else if key = d then Some (p\<lparr>pl_dir := DOWN\<rparr>) else None)
      else None)"

definition steer :: "int \<Rightarrow> tron \<Rightarrow> tron" where
  "steer newKey t =
     (if oldKey t = newKey then t
      else
        let t = t\<lparr>oldKey := newKey\<rparr> in
        case turned 1 2 3 4 newKey (p1 t) of
          Some p \<Rightarrow> t\<lparr>p1 := p\<rparr>
        | None \<Rightarrow>
            (case turned 97 100 119 115 newKey (p2 t) of Some p \<Rightarrow> t\<lparr>p2 := p\<rparr> | None \<Rightarrow> t))"

section \<open>Drawing\<close>

definition width_of :: "kernel \<Rightarrow> int" where "width_of k = uint (getWidth (scr k))"
definition height_of :: "kernel \<Rightarrow> int" where "height_of k = uint (getHeight (scr k))"

definition rect :: "int \<Rightarrow> int \<Rightarrow> int \<Rightarrow> int \<Rightarrow> color \<Rightarrow> kernel \<Rightarrow> unit res" where
  "rect x y w h c k = bind (drawRectangle (of_int x) (of_int y) (of_int w) (of_int h) c k) (\<lambda>_ k. Done () k)"

definition text_at :: "int \<Rightarrow> int \<Rightarrow> string \<Rightarrow> color \<Rightarrow> kernel \<Rightarrow> unit res" where
  "text_at x line s c k = printStringAt_user (of_int x) (of_int line) (ascii s) c k"

text \<open>Drawing steps one after the other.\<close>

fun steps :: "(kernel \<Rightarrow> unit res) list \<Rightarrow> kernel \<Rightarrow> unit res" where
  "steps [] k = Done () k"
| "steps (f # fs) k = bind (f k) (\<lambda>_ k. steps fs k)"

definition drawPlayer :: "Player \<Rightarrow> Canvas \<Rightarrow> kernel \<Rightarrow> unit res" where
  "drawPlayer p c k =
     (let y = (height_of k - cv_height c * CANVAS_SCALE) sdiv 2;
          x = (width_of k - cv_width c * CANVAS_SCALE) sdiv 2
      in rect (x + pl_x p * CANVAS_SCALE - CANVAS_SCALE sdiv 2) (y + pl_y p * CANVAS_SCALE - CANVAS_SCALE sdiv 2)
           CANVAS_SCALE CANVAS_SCALE (pl_color p) k)"

definition drawPlayers :: "Player \<Rightarrow> Player \<Rightarrow> Canvas \<Rightarrow> kernel \<Rightarrow> unit res" where
  "drawPlayers a b c k = steps [drawPlayer a c, drawPlayer b c] k"

definition drawCanvas :: "Canvas \<Rightarrow> color \<Rightarrow> kernel \<Rightarrow> unit res" where
  "drawCanvas c colour k =
     (let y = (height_of k - cv_height c * CANVAS_SCALE) sdiv 2 - CANVAS_SCALE sdiv 2;
          x = (width_of k - cv_width c * CANVAS_SCALE) sdiv 2 - CANVAS_SCALE sdiv 2;
          borderWidth = 10
      in steps [rect (x - borderWidth sdiv 2) (y - borderWidth sdiv 2)
           (cv_width c * CANVAS_SCALE + borderWidth) (cv_height c * CANVAS_SCALE + borderWidth) GRAY,
         rect x y (cv_width c * CANVAS_SCALE) (cv_height c * CANVAS_SCALE) colour] k)"

text \<open>The three boxes of messages share their place; \<open>line\<close> is \<open>y / FONT_SIZE\<close>.\<close>

definition drawInfo :: "kernel \<Rightarrow> unit res" where
  "drawInfo k =
     (let x = width_of k sdiv 2 - 340 sdiv 2 in
      steps [rect x (128 - 10) 340 35 WHITE,
        text_at x 8 ''   To pause press P, to restart press R'' BLACK] k)"

definition clearInfo :: "kernel \<Rightarrow> unit res" where
  "clearInfo k = rect (width_of k sdiv 2 - 340 sdiv 2) (128 - 10) 340 35 BLACK k"

definition pause_turn :: "int \<Rightarrow> kernel \<Rightarrow> (int + unit) res" where
  "pause_turn c k = (if c \<noteq> 112 then bind (getChar k) (\<lambda>c k. Done (Inl c) k) else Done (Inr ()) k)"

definition pause :: "kernel \<Rightarrow> unit res" where
  "pause k =
     (let x = width_of k sdiv 2 - 280 sdiv 2 in
      steps [clearInfo, rect x (128 - 10) 280 35 WHITE,
        text_at x 8 '' Game paused, to continue press P'' BLACK,
        iterate pause_turn 0, rect x (128 - 10) 280 35 BLACK, drawInfo] k)"

definition endInfo :: "kernel \<Rightarrow> unit res" where
  "endInfo k =
     (let w = width_of k; y = height_of k sdiv 8 - 35 sdiv 2 in
      steps [clearInfo,
        rect (w sdiv 2 - 220 sdiv 2) (y - 10) 220 35 GRAY,
        text_at (w sdiv 2 - 220 sdiv 2) (y sdiv 16 + 1) '' To restart press any key!'' WHITE,
        rect (w sdiv 2 - 160 sdiv 2) (128 - 10) 160 35 GRAY,
        text_at (w sdiv 2 - 160 sdiv 2) 8 ''  To quit press Q'' WHITE,
        rect (w sdiv 2 - 220 sdiv 2) (32 - 10) 220 35 GRAY,
        text_at (w sdiv 2 - 220 sdiv 2) 2 ''  To reset scores press N'' WHITE] k)"

text \<open>
  The digits of a score. The array has 2 bytes, of which \<open>itoa\<close> needs 3 for one digit; the model
  gives it the 8 bytes of a stack slot.
\<close>

definition score_text :: "int \<Rightarrow> int \<Rightarrow> int \<Rightarrow> kernel \<Rightarrow> unit res" where
  "score_text x line v k =
     (case itoa v (replicate 8 0) of
        None \<Rightarrow> Fault
      | Some (b, _) \<Rightarrow> printStringAt_user (of_int x) (of_int line) (takeWhile (\<lambda>c. c \<noteq> 0) b) WHITE k)"

definition drawScores :: "int \<Rightarrow> int \<Rightarrow> kernel \<Rightarrow> unit res" where
  "drawScores score1 score2 k =
     (let y = height_of k - 170 - 40 sdiv 2; line = y sdiv 16 + 1;
          xl = width_of k sdiv 2 - 263; xr = width_of k sdiv 2 + 149
      in steps [rect xl y 110 40 GRAY, text_at (xl + 5) line ''Player 2: '' BLUE, score_text (xl + 85) line score2,
           rect xr y 110 40 GRAY, text_at (xr + 5) line ''Player 1: '' RED, score_text (xr + 85) line score1] k)"

definition endGame :: "string \<Rightarrow> tron \<Rightarrow> kernel \<Rightarrow> unit res" where
  "endGame s t k =
     bind (endInfo k) (\<lambda>_ k. bind (beep 1100 k) (\<lambda>_ k.
     let recWidth = 4 * cv_width (canvas t) div 5 + 5;
         x = width_of k sdiv 2 - recWidth sdiv 2;
         y = height_of k - height_of k sdiv 8 - 35 sdiv 2 - 10
     in steps [rect x y recWidth 35 WHITE, text_at (x + 5) (y sdiv 16 + 1) s BLACK,
          drawScores (player1Score t) (player2Score t)] k))"

text \<open>A message and a square that shows each number; every drawing is on the screen it finds.\<close>

definition countdown :: "kernel \<Rightarrow> unit res" where
  "countdown k =
     (let xMsg = width_of k sdiv 2 - 165 sdiv 2; x = width_of k sdiv 2 - 35 sdiv 2;
          y = height_of k sdiv 2 - 35 sdiv 2 - 10; line = y sdiv 16 + 1;
          title = text_at xMsg 8 '' TRON - LIGHT CYCLES'';
          square = rect x y 35 35
      in steps [rect xMsg (128 - 10) 165 35 WHITE, title RED,
           square WHITE, text_at (x + 5) line '' 3 '' BLACK, shortSleep 500,
           title BLUE, shortSleep 500, title RED,
           square BLACK, square WHITE, text_at (x + 5) line '' 2 '' BLACK, shortSleep 500,
           title BLUE, shortSleep 500, title RED,
           square BLACK, square WHITE, text_at (x + 5) line '' 1 '' BLACK, shortSleep 500,
           title BLUE, shortSleep 500, title BLUE,
           square BLACK, square WHITE, text_at x line '' GO! '' BLACK, shortSleep 500] k)"

section \<open>The rules\<close>

definition whiten :: "Player \<Rightarrow> Player" where
  "whiten p = p\<lparr>pl_color := WHITE\<rparr>"

definition gameTied :: "tron \<Rightarrow> kernel \<Rightarrow> (bool \<times> tron) res" where
  "gameTied t k =
     (let t = t\<lparr>p1 := whiten (p1 t), p2 := whiten (p2 t)\<rparr> in
      bind (drawPlayers (p1 t) (p2 t) (canvas t) k) (\<lambda>_ k.
      bind (endGame (''IT'' @ [CHR 0x27] @ ''S A DRAW!'') t k) (\<lambda>_ k. Done (False, t) k)))"

text \<open>The two tests for a head-on crash, first vertical, then horizontal.\<close>

definition head_on :: "Player \<Rightarrow> Player \<Rightarrow> bool" where
  "head_on a b \<longleftrightarrow>
     (let opposedDir = pl_dir a - pl_dir b; posYDiff = pl_y a - pl_y b; posXDiff = pl_x a - pl_x b in
      (pl_x a = pl_x b \<and> posYDiff < 2 \<and> posYDiff > - 2 \<and> (pl_dir a = UP \<or> pl_dir a = DOWN) \<and>
        (opposedDir = 1 \<or> opposedDir = - 1)) \<or>
      (pl_y a = pl_y b \<and> posXDiff < 2 \<and> posXDiff > - 2 \<and>
        ((pl_dir a = LEFT \<and> pl_dir b \<noteq> DOWN) \<or> pl_dir a = RIGHT) \<and> (opposedDir = 1 \<or> opposedDir = - 1)))"

text \<open>The result is whether the game goes on, with the game as it is then.\<close>

definition validPositions :: "tron \<Rightarrow> kernel \<Rightarrow> (bool \<times> tron) res" where
  "validPositions t k =
     (let a = p1 t; b = p2 t; c = canvas t;
          out1 = (\<not> isValidPoint (pl_x a) (pl_y a) c); out2 = (\<not> isValidPoint (pl_x b) (pl_y b) c);
          t = t\<lparr>p1 := (if out1 then whiten a else a), p2 := (if out2 then whiten b else b)\<rparr>
      in
      if head_on a b then gameTied t k
      else
        case (board_at c (pl_x a) (pl_y a), board_at c (pl_x b) (pl_y b)) of
          (Some v, Some w) \<Rightarrow>
            let player1Lost = (v \<noteq> 0 \<or> out1); player2Lost = (w \<noteq> 0 \<or> out2) in
            if (pl_x a = pl_x b \<and> pl_y a = pl_y b) \<or> (player1Lost \<and> player2Lost) then gameTied t k
            else if player1Lost
              then
                let t = t\<lparr>player2Score := player2Score t + 1, p1 := whiten (p1 t)\<rparr> in
                bind (drawPlayers (p1 t) (p2 t) c k) (\<lambda>_ k.
                bind (endGame ''PLAYER 2 WON'' t k) (\<lambda>_ k. Done (False, t) k))
            else if player2Lost
              then
                let t = t\<lparr>player1Score := player1Score t + 1, p2 := whiten (p2 t)\<rparr> in
                bind (drawPlayers (p1 t) (p2 t) c k) (\<lambda>_ k.
                bind (endGame ''PLAYER 1 WON'' t k) (\<lambda>_ k. Done (False, t) k))
            else Done (True, t) k
        | _ \<Rightarrow> Fault)"

section \<open>Playing\<close>

definition move :: "tron \<Rightarrow> tron" where
  "move t = t\<lparr>p1 := tick (p1 t), p2 := tick (p2 t)\<rparr>"

definition trail :: "tron \<Rightarrow> tron" where
  "trail t = t\<lparr>canvas := mark (pl_x (p2 t)) (pl_y (p2 t)) 1 (mark (pl_x (p1 t)) (pl_y (p1 t)) 1 (canvas t))\<rparr>"

text \<open>\<open>input\<close>: \<open>None\<close> when the game is to be restarted.\<close>

definition input :: "int \<Rightarrow> tron \<Rightarrow> kernel \<Rightarrow> tron option res" where
  "input newKey t k =
     (if newKey = 114 then Done None k
      else bind (if newKey = 112 then pause k else Done () k) (\<lambda>_ k. Done (Some (steer newKey t)) k))"

definition play_turn :: "tron \<Rightarrow> kernel \<Rightarrow> (tron + tron) res" where
  "play_turn t k =
     bind (getTimedChar k) (\<lambda>newKey k.
     bind (input newKey t k) (\<lambda>r k.
     case r of
       None \<Rightarrow> Done (Inr t) k
     | Some t \<Rightarrow>
         bind (validPositions (move t) k) (\<lambda>r k.
         let (go, t) = r in
         if \<not> go then Done (Inr t) k
         else
           let t = trail t in
           bind (drawPlayers (p1 t) (p2 t) (canvas t) k) (\<lambda>_ k. Done (Inl t) k))))"

definition playTron :: "tron \<Rightarrow> kernel \<Rightarrow> tron res" where
  "playTron t k = bind (drawInfo k) (\<lambda>_ k. iterate play_turn (trail (t\<lparr>oldKey := - 1\<rparr>)) k)"

section \<open>Games\<close>

definition dimensions :: "kernel \<Rightarrow> int \<times> int" where
  "dimensions k = (width_of k sdiv BOARD_SCALE, height_of k sdiv BOARD_SCALE)"

definition initializePlayers :: "int \<Rightarrow> int \<Rightarrow> Player \<times> Player" where
  "initializePlayers w h =
     (\<lparr>pl_x = 4 * w div 5, pl_y = h div 2, pl_dir = LEFT, pl_color = RED\<rparr>,
      \<lparr>pl_x = w div 5, pl_y = h div 2, pl_dir = RIGHT, pl_color = BLUE\<rparr>)"

text \<open>Only the cells of the canvas are cleared; \<open>junk\<close> is what the rest of the array holds.\<close>

definition initializeCanvas :: "int \<Rightarrow> int \<Rightarrow> (int \<Rightarrow> byte) \<Rightarrow> Canvas" where
  "initializeCanvas w h junk =
     \<lparr>cv_width = w, cv_height = h,
      cv_board = (\<lambda>i. if 0 \<le> i \<and> i div MAX_HEIGHT < w \<and> i mod MAX_HEIGHT < h then 0 else junk i)\<rparr>"

definition new_game :: "int \<Rightarrow> int \<Rightarrow> (int \<Rightarrow> byte) \<Rightarrow> int \<Rightarrow> int \<Rightarrow> tron" where
  "new_game w h junk score1 score2 =
     \<lparr>p1 = fst (initializePlayers w h), p2 = snd (initializePlayers w h), canvas = initializeCanvas w h junk,
      player1Score = score1, player2Score = score2, oldKey = - 1\<rparr>"

definition startGame :: "(int \<Rightarrow> byte) \<Rightarrow> int \<times> int \<Rightarrow> kernel \<Rightarrow> (int \<times> int) res" where
  "startGame junk scores k =
     (let (w, h) = dimensions k; t = new_game w h junk (fst scores) (snd scores) in
      bind (steps [drawCanvas (canvas t) BLACK, drawPlayers (p1 t) (p2 t) (canvas t), countdown,
        drawCanvas (canvas t) BLACK] k) (\<lambda>_ k.
      bind (playTron t k) (\<lambda>t k. Done (player1Score t, player2Score t) k)))"

definition resetScore :: "int \<times> int \<Rightarrow> kernel \<Rightarrow> (int \<times> int \<times> int) res" where
  "resetScore scores k =
     bind (getChar k) (\<lambda>c k.
       if c = 110 then bind (drawScores 0 0 k) (\<lambda>_ k. Done (c, 0, 0) k) else Done (c, scores) k)"

text \<open>One game of the main loop, and the loop; \<open>q\<close> leaves it.\<close>

definition game_turn :: "(int \<Rightarrow> byte) \<Rightarrow> int \<times> int \<Rightarrow> kernel \<Rightarrow> ((int \<times> int) + (int \<times> int)) res" where
  "game_turn junk scores k =
     bind (clear_user k) (\<lambda>_ k.
     bind (drawScores (fst scores) (snd scores) k) (\<lambda>_ k.
     bind (startGame junk scores k) (\<lambda>scores k.
     bind (endInfo k) (\<lambda>_ k.
     bind (resetScore scores k) (\<lambda>r k.
     Done (if fst r = 113 then Inr (snd r) else Inl (snd r)) k)))))"

definition mainTron :: "(int \<Rightarrow> byte) \<Rightarrow> int \<times> int \<Rightarrow> kernel \<Rightarrow> (int \<times> int) res" where
  "mainTron junk scores k = iterate (game_turn junk) scores k"

end
