(* ===== verification/Tron_Properties.thy ===== *)
theory Tron_Properties
  imports Tron Terminal_Properties
begin

text \<open>
  The rules of the game, whatever the other processes do while a result is shown: who scores,
  that a round ends, and where the code departs from the rules it means to have.
\<close>

section \<open>The verdict on a position\<close>

definition lost :: "Player \<Rightarrow> Canvas \<Rightarrow> bool" where
  "lost p c \<longleftrightarrow> \<not> isValidPoint (pl_x p) (pl_y p) c \<or> board_at c (pl_x p) (pl_y p) \<noteq> Some 0"

definition same_cell :: "Player \<Rightarrow> Player \<Rightarrow> bool" where
  "same_cell a b \<longleftrightarrow> pl_x a = pl_x b \<and> pl_y a = pl_y b"

definition tied :: "tron \<Rightarrow> bool" where
  "tied t \<longleftrightarrow> head_on (p1 t) (p2 t) \<or> same_cell (p1 t) (p2 t) \<or> (lost (p1 t) (canvas t) \<and> lost (p2 t) (canvas t))"

text \<open>What a decided game keeps: the board and the places of the players.\<close>

definition same_place :: "tron \<Rightarrow> tron \<Rightarrow> bool" where
  "same_place t t' \<longleftrightarrow> canvas t' = canvas t \<and> oldKey t' = oldKey t \<and>
     pl_x (p1 t') = pl_x (p1 t) \<and> pl_y (p1 t') = pl_y (p1 t) \<and>
     pl_x (p2 t') = pl_x (p2 t) \<and> pl_y (p2 t') = pl_y (p2 t)"

lemma gameTied_results:
  "results (gameTied t k) (go, t') k' \<Longrightarrow>
   \<not> go \<and> same_place t t' \<and> player1Score t' = player1Score t \<and> player2Score t' = player2Score t"
  by (auto simp: gameTied_def Let_def same_place_def whiten_def elim!: results_bindE)

lemma validPositions_results:
  assumes "results (validPositions t k) (go, t') k'"
  shows "same_place t t' \<and>
    (go \<longleftrightarrow> \<not> tied t \<and> \<not> lost (p1 t) (canvas t) \<and> \<not> lost (p2 t) (canvas t)) \<and>
    player1Score t' = player1Score t + (if \<not> tied t \<and> \<not> lost (p1 t) (canvas t) \<and> lost (p2 t) (canvas t) then 1 else 0) \<and>
    player2Score t' = player2Score t + (if \<not> tied t \<and> lost (p1 t) (canvas t) then 1 else 0)"
proof -
  let ?a = "p1 t" and ?b = "p2 t" and ?c = "canvas t"
  let ?o1 = "\<not> isValidPoint (pl_x ?a) (pl_y ?a) ?c" and ?o2 = "\<not> isValidPoint (pl_x ?b) (pl_y ?b) ?c"
  let ?t = "t\<lparr>p1 := (if ?o1 then whiten ?a else ?a), p2 := (if ?o2 then whiten ?b else ?b)\<rparr>"
  have same: "same_place ?t u \<Longrightarrow> same_place t u" for u
    by (auto simp: same_place_def whiten_def split: if_splits)
  have tie: ?thesis if "results (gameTied ?t k) (go, t') k'" "tied t"
    using gameTied_results [OF that(1)] that(2) same by simp
  show ?thesis
  proof (cases "head_on ?a ?b")
    case True
    then show ?thesis using assms by (intro tie) (simp_all add: validPositions_def Let_def tied_def)
  next
    case False
    obtain v w where b: "board_at ?c (pl_x ?a) (pl_y ?a) = Some v" "board_at ?c (pl_x ?b) (pl_y ?b) = Some w"
      using assms False by (auto simp: validPositions_def Let_def split: option.splits)
    have l: "lost ?a ?c \<longleftrightarrow> v \<noteq> 0 \<or> ?o1" "lost ?b ?c \<longleftrightarrow> w \<noteq> 0 \<or> ?o2"
      using b by (auto simp: lost_def)
    consider "tied t" | "\<not> tied t" "lost ?a ?c" | "\<not> tied t" "\<not> lost ?a ?c" "lost ?b ?c"
      | "\<not> tied t" "\<not> lost ?a ?c" "\<not> lost ?b ?c" by blast
    then show ?thesis
    proof cases
      case 1
      then have "results (gameTied ?t k) (go, t') k'"
        using assms False b l by (auto simp: validPositions_def Let_def tied_def same_cell_def)
      then show ?thesis using 1 by (rule tie)
    next
      case 2
      then show ?thesis
        using assms False b l
        by (auto simp: validPositions_def Let_def tied_def same_cell_def same_place_def whiten_def
            elim!: results_bindE split: if_splits)
    next
      case 3
      then show ?thesis
        using assms False b l
        by (auto simp: validPositions_def Let_def tied_def same_cell_def same_place_def whiten_def
            elim!: results_bindE split: if_splits)
    next
      case 4
      then show ?thesis
        using assms False b l
        by (auto simp: validPositions_def Let_def tied_def same_cell_def same_place_def)
    qed
  qed
qed

section \<open>A turn that goes on\<close>

lemma free_at: "\<not> lost p c \<Longrightarrow> isValidPoint (pl_x p) (pl_y p) c \<and> cv_board c (cell (pl_x p) (pl_y p)) = 0"
  by (auto simp: lost_def board_at_def split: if_splits)

lemma play_turn_goes_on:
  assumes "results (play_turn t k) (Inl t') k'"
  obtains a b where "isValidPoint (pl_x a) (pl_y a) (canvas t)" "isValidPoint (pl_x b) (pl_y b) (canvas t)"
    "cv_board (canvas t) (cell (pl_x a) (pl_y a)) = 0" "cv_board (canvas t) (cell (pl_x b) (pl_y b)) = 0"
    "\<not> same_cell a b" "canvas t' = mark (pl_x b) (pl_y b) 1 (mark (pl_x a) (pl_y a) 1 (canvas t))"
    "player1Score t' = player1Score t" "player2Score t' = player2Score t"
proof -
  from assms obtain newKey k1 r k2 where "results (input newKey t k1) r k2"
    and r: "results (case r of None \<Rightarrow> Done (Inr t) k2
      | Some t \<Rightarrow> bind (validPositions (move t) k2) (\<lambda>r k. let (go, t) = r in
          if \<not> go then Done (Inr t) k
          else let t = trail t in bind (drawPlayers (p1 t) (p2 t) (canvas t) k) (\<lambda>_ k. Done (Inl t) k))) (Inl t') k'"
    unfolding play_turn_def by (elim results_bindE) blast
  then have "r = None \<or> r = Some (steer newKey t)"
    by (auto simp: input_def elim!: results_bindE split: if_splits)
  with r have "r = Some (steer newKey t)" by auto
  then obtain go u k3 where v: "results (validPositions (move (steer newKey t)) k2) (go, u) k3"
    and u: "go" "t' = trail u"
    using r by (auto simp: Let_def elim!: results_bindE split: if_splits prod.splits)
  let ?t = "move (steer newKey t)"
  have c: "canvas ?t = canvas t" "player1Score ?t = player1Score t" "player2Score ?t = player2Score t"
    by (simp_all add: move_def steer_def Let_def split: option.split)
  note w = validPositions_results [OF v]
  then have l: "\<not> lost (p1 ?t) (canvas t)" "\<not> lost (p2 ?t) (canvas t)" "\<not> same_cell (p1 ?t) (p2 ?t)"
    and sp: "same_place ?t u" and sc: "player1Score u = player1Score t" "player2Score u = player2Score t"
    using u(1) c by (simp_all add: tied_def)
  show thesis
    by (rule that [of "p1 ?t" "p2 ?t"])
      (use free_at [OF l(1)] free_at [OF l(2)] l(3) sp sc u(2) c in \<open>simp_all add: trail_def same_place_def\<close>)
qed


section \<open>A round ends\<close>

text \<open>The cells of the canvas with no trail, and the board a round can be played on.\<close>

definition free_cells :: "Canvas \<Rightarrow> (int \<times> int) set" where
  "free_cells c = {(x, y). isValidPoint x y c \<and> cv_board c (cell x y) = 0}"

definition fits_board :: "Canvas \<Rightarrow> bool" where
  "fits_board c \<longleftrightarrow> 0 \<le> cv_width c \<and> 0 \<le> cv_height c \<and> cv_height c \<le> MAX_HEIGHT"

lemma free_cells_finite: "finite (free_cells c)"
proof (rule finite_subset)
  show "free_cells c \<subseteq> {0..<cv_width c} \<times> {0..<cv_height c}"
    by (auto simp: free_cells_def isValidPoint_def)
qed simp

lemma free_cells_card: "fits_board c \<Longrightarrow> int (card (free_cells c)) \<le> cv_width c * cv_height c"
proof -
  assume f: "fits_board c"
  have "card (free_cells c) \<le> card ({0..<cv_width c} \<times> {0..<cv_height c})"
    by (rule card_mono) (auto simp: free_cells_def isValidPoint_def)
  also have "\<dots> = nat (cv_width c) * nat (cv_height c)" by (simp add: card_cartesian_product)
  finally have "int (card (free_cells c)) \<le> int (nat (cv_width c)) * int (nat (cv_height c))"
    by (metis of_nat_le_iff of_nat_mult)
  then show ?thesis using f by (simp add: fits_board_def)
qed

lemma cell_inj:
  assumes "fits_board c" "isValidPoint x y c" "isValidPoint u v c" "cell x y = cell u v"
  shows "x = u \<and> y = v"
proof -
  have y: "0 \<le> y" "y < MAX_HEIGHT" "0 \<le> v" "v < MAX_HEIGHT"
    using assms(1-3) by (auto simp: fits_board_def isValidPoint_def)
  have "(MAX_HEIGHT * x + y) mod MAX_HEIGHT = (MAX_HEIGHT * u + v) mod MAX_HEIGHT"
    using assms(4) by (simp add: cell_def)
  then have "y = v" using y by simp
  with assms(4) show ?thesis by (simp add: cell_def MAX_HEIGHT_def)
qed

lemma mark_fits [simp]: "fits_board (mark x y v c) = fits_board c"
  "isValidPoint x' y' (mark x y v c) = isValidPoint x' y' c"
  by (simp_all add: fits_board_def mark_def isValidPoint_def)

lemma free_cells_mark:
  assumes "fits_board c" "isValidPoint x y c" "v \<noteq> 0"
  shows "free_cells (mark x y v c) = free_cells c - {(x, y)}"
proof -
  have "cell a b = cell x y \<longleftrightarrow> a = x \<and> b = y" if "isValidPoint a b c" for a b
    using cell_inj [OF assms(1) that assms(2)] by auto
  then show ?thesis using assms(3) by (auto simp: free_cells_def) (auto simp: mark_def split: if_splits)
qed

lemma play_turn_uses_two:
  assumes "results (play_turn t k) (Inl t') k'" "fits_board (canvas t)"
  shows "card (free_cells (canvas t')) + 2 = card (free_cells (canvas t)) \<and> fits_board (canvas t')"
proof -
  let ?F = "free_cells (canvas t)"
  obtain a b where *: "isValidPoint (pl_x a) (pl_y a) (canvas t)" "isValidPoint (pl_x b) (pl_y b) (canvas t)"
    "cv_board (canvas t) (cell (pl_x a) (pl_y a)) = 0" "cv_board (canvas t) (cell (pl_x b) (pl_y b)) = 0"
    "\<not> same_cell a b" and c: "canvas t' = mark (pl_x b) (pl_y b) 1 (mark (pl_x a) (pl_y a) 1 (canvas t))"
    by (rule play_turn_goes_on [OF assms(1)])
  have in2: "(pl_x a, pl_y a) \<in> ?F" "(pl_x b, pl_y b) \<in> ?F - {(pl_x a, pl_y a)}"
    using * by (auto simp: free_cells_def same_cell_def)
  have f': "free_cells (canvas t') = ?F - {(pl_x a, pl_y a)} - {(pl_x b, pl_y b)}"
    using free_cells_mark assms(2) *(1,2) by (simp add: c)
  have "card (?F - {(pl_x a, pl_y a)}) + 1 = card ?F"
    using card_Suc_Diff1 [OF _ in2(1)] free_cells_finite by simp
  moreover have "card (?F - {(pl_x a, pl_y a)} - {(pl_x b, pl_y b)}) + 1 = card (?F - {(pl_x a, pl_y a)})"
    using card_Suc_Diff1 [OF _ in2(2)] free_cells_finite by simp
  ultimately have "card (free_cells (canvas t')) + 2 = card ?F" using f' by simp
  then show ?thesis using assms(2) by (simp add: c)
qed

text \<open>\<open>n\<close> turns that go on, with anything happening to the kernel in between.\<close>

inductive turns :: "nat \<Rightarrow> tron \<Rightarrow> tron \<Rightarrow> bool" where
  none: "turns 0 t t"
| more: "results (play_turn t k) (Inl t') k' \<Longrightarrow> turns n t' t'' \<Longrightarrow> turns (Suc n) t t''"

lemma turns_cells:
  "turns n t t' \<Longrightarrow> fits_board (canvas t) \<Longrightarrow>
   card (free_cells (canvas t')) + 2 * n = card (free_cells (canvas t))"
proof (induction rule: turns.induct)
  case (none t)
  then show ?case by simp
next
  case (more t k t' k' n t'')
  from play_turn_uses_two [OF more(1,4)] more.IH show ?case by simp
qed

section \<open>A key at hand\<close>

lemma timed_key:
  assumes "reads_from 0 k" "kb_ok (kb_buffer k)" "kb_keys (kb_buffer k) = [c]" "c \<notin> {0, 10, - 1}"
    and "clock_ticks k = 0"
  shows "\<exists>b. results (getTimedChar k) (sint c) (k\<lparr>kb_buffer := b\<rparr>)"
proof -
  have "- 1 \<notin> set (kb_keys (kb_buffer k))" using assms(3,4) by auto
  then obtain b where "readBuf 1 (kb_buffer k) = (take 1 (kb_keys (kb_buffer k)), b)"
    using readBuf_take [OF assms(2), of 1] by metis
  then have rb: "readBuf (Suc 0) (kb_buffer k) = ([c], b)" using assms(3) by simp
  define k1 where "k1 = k\<lparr>kb_buffer := b\<rparr>"
  define go where "go = (\<lambda>k'. milliseconds_elapsed k' - to_int (milliseconds_elapsed k) < uint (1 :: u32))"
  have "go k" using assms(5) by (simp add: go_def milliseconds_elapsed_def to_int_def)
  have "getKbdBuffer [0, 0] 2 0 k = Done (True, [c, 0], 1) k1"
    using getCount_zero [OF assms(2)] assms(3) rb by (simp add: getKbdBuffer_def k1_def)
  then have "read_turn go 0 2 ([0, 0], 0) k = Resched k1 (\<lambda>k. Done (Inl ([c, 0], 1)) k)"
    using \<open>go k\<close> assms(4) by (simp add: read_turn_def)
  moreover have "iterate (read_turn go 0 2) ([c, 0], 1) k1 = Done (1, [c, 0]) k1"
    by (rule iterate_stop) (simp add: read_turn_def)
  ultimately have it: "results (iterate (read_turn go 0 2) ([0, 0], 0) k) (1, [c, 0]) k1"
    by (subst iterate_unfold) (simp, rule results.resumed [of _ k1], simp add: results.finished)
  have "sys_timedRead 0 [1, 0] 2 1 k = iterate (read_turn go 0 2) ([0, 0], 0) k"
    using assms(1) by (simp add: sys_timedRead_def reads_from_def go_def Let_def)
  then have "results (getTimedChar k) (sint c) k1"
    using results_bindI [OF it, of "\<lambda>r k. Done (first_char r) k"] 
    by (simp add: getTimedChar_def first_char_def results.finished)
  then show ?thesis using k1_def by blast
qed

lemma drawPlayers_done: "\<exists>k'. drawPlayers a b c k = Done () k'"
  by (simp add: drawPlayers_def drawPlayer_def rect_def drawRectangle_def sys_drawRectangle_def Let_def)

text \<open>A board of 10 by 10 cells at the start, a kernel with one key waiting.\<close>

definition tron_ex :: tron where
  "tron_ex = trail (new_game 10 10 (\<lambda>_. 0) 0 0)"

definition key_ex :: "byte \<Rightarrow> kernel" where
  "key_ex c = terminal_ex\<lparr>kb_buffer := push c buffer_zero\<rparr>"

lemma key_ex_ready:
  "reads_from 0 (key_ex c)" "kb_ok (kb_buffer (key_ex c))" "kb_keys (kb_buffer (key_ex c)) = [c]"
  "clock_ticks (key_ex c) = 0"
  using get_current_read_cong [OF terminal_ex_ready(1)] kb.put_ok [of buffer_zero c] kb.put_content [of buffer_zero c]
  by (simp_all add: key_ex_def BUF_SIZE_def terminal_ex_def kernel_zero_def)

lemma tron_ex_turn: "\<exists>k t' k'. results (play_turn tron_ex k) (Inl t') k'"
proof -
  obtain b where t: "results (getTimedChar (key_ex 120)) 120 ((key_ex 120)\<lparr>kb_buffer := b\<rparr>)" (is "results _ _ ?k")
    using timed_key [OF key_ex_ready(1-3) _ key_ex_ready(4), of 120] by auto
  have st: "steer 120 tron_ex = tron_ex\<lparr>oldKey := 120\<rparr>"
    by (simp add: steer_def turned_def tron_ex_def new_game_def initializePlayers_def trail_def vertical_def horizontal_def)
  let ?t = "move (tron_ex\<lparr>oldKey := 120\<rparr>)"
  have v: "validPositions ?t k = Done (True, ?t) k" for k
    by (simp add: validPositions_def move_def tick_def tron_ex_def new_game_def initializePlayers_def trail_def
        mark_def initializeCanvas_def isValidPoint_def head_on_def board_at_def cell_def MAX_HEIGHT_def MAX_WIDTH_def
        Let_def)
  obtain k' where d: "drawPlayers (p1 (trail ?t)) (p2 (trail ?t)) (canvas (trail ?t)) ?k = Done () k'"
    using drawPlayers_done by blast
  have "results (play_turn tron_ex (key_ex 120)) (Inl (trail ?t)) k'"
    unfolding play_turn_def
    by (rule results_bindI [OF t]) (simp add: input_def st v d Let_def results.finished)
  then show ?thesis by blast
qed


section \<open>The properties\<close>

text \<open>
  C23. A round ends: every turn that goes on takes two free cells of the canvas, one for each
  player, so on a canvas of \<open>w\<close> by \<open>h\<close> cells there are never more than \<open>w * h / 2\<close> such turns,
  whatever keys are pressed and however often the game is paused.
\<close>

theorem tron_round_ends:
  assumes "turns n t t'" "fits_board (canvas t)"
  shows "2 * int n \<le> cv_width (canvas t) * cv_height (canvas t) \<and>
    card (free_cells (canvas t')) + 2 * n = card (free_cells (canvas t))"
  using turns_cells [OF assms] free_cells_card [OF assms(2)] by linarith

theorem tron_round_ends_witness:
  "\<exists>t'. turns 1 tron_ex t' \<and> card (free_cells (canvas t')) + 2 * 1 = card (free_cells (canvas tron_ex))"
proof -
  obtain t' where "turns (Suc 0) tron_ex t'" using tron_ex_turn by (blast intro: turns.intros)
  moreover have "fits_board (canvas tron_ex)"
    by (simp add: tron_ex_def fits_board_def trail_def new_game_def initializeCanvas_def mark_def MAX_HEIGHT_def)
  ultimately show ?thesis using tron_round_ends [of "Suc 0" tron_ex t'] by auto
qed



text \<open>
  A draw that is none: when the first player moves down to the cell above the one the second
  player reaches moving left, the test for a head-on crash takes the two perpendicular
  directions for opposite ones (their numbers differ by one), and the round is a draw with both
  players on free cells. With the roles exchanged the game goes on.
\<close>

theorem tron_false_draw:
  assumes "pl_x (p2 t) = pl_x (p1 t)" "pl_y (p2 t) = pl_y (p1 t) + 1" "pl_dir (p1 t) = DOWN" "pl_dir (p2 t) = LEFT"
    and "\<not> lost (p1 t) (canvas t)" "\<not> lost (p2 t) (canvas t)"
  shows "(\<nexists>t' k'. results (validPositions t k) (True, t') k') \<and>
    (\<forall>go t' k'. results (validPositions t k) (go, t') k' \<longrightarrow>
      player1Score t' = player1Score t \<and> player2Score t' = player2Score t) \<and>
    validPositions (t\<lparr>p1 := p2 t, p2 := p1 t\<rparr>) k = Done (True, t\<lparr>p1 := p2 t, p2 := p1 t\<rparr>) k"
proof (intro conjI)
  have "tied t" using assms(1-4) by (simp add: tied_def head_on_def)
  then show "\<nexists>t' k'. results (validPositions t k) (True, t') k'"
    "\<forall>go t' k'. results (validPositions t k) (go, t') k' \<longrightarrow>
      player1Score t' = player1Score t \<and> player2Score t' = player2Score t"
    using validPositions_results [of t k] by auto
  show "validPositions (t\<lparr>p1 := p2 t, p2 := p1 t\<rparr>) k = Done (True, t\<lparr>p1 := p2 t, p2 := p1 t\<rparr>) k"
    using assms by (auto simp: validPositions_def lost_def head_on_def Let_def)
qed

text \<open>The board of the example with the players about to pass.\<close>

definition pass_ex :: tron where
  "pass_ex = tron_ex\<lparr>p1 := (p1 tron_ex)\<lparr>pl_x := 4, pl_y := 6, pl_dir := DOWN\<rparr>,
     p2 := (p2 tron_ex)\<lparr>pl_x := 4, pl_y := 7, pl_dir := LEFT\<rparr>\<rparr>"

theorem tron_false_draw_witness:
  "\<nexists>t' k'. results (validPositions pass_ex terminal_ex) (True, t') k'"
proof -
  have l: "\<not> lost (p1 pass_ex) (canvas pass_ex)" "\<not> lost (p2 pass_ex) (canvas pass_ex)"
    by (simp_all add: lost_def pass_ex_def tron_ex_def new_game_def initializePlayers_def trail_def mark_def
        initializeCanvas_def isValidPoint_def board_at_def cell_def MAX_HEIGHT_def MAX_WIDTH_def)
  have e: "pl_x (p2 pass_ex) = pl_x (p1 pass_ex)" "pl_y (p2 pass_ex) = pl_y (p1 pass_ex) + 1"
    "pl_dir (p1 pass_ex) = DOWN" "pl_dir (p2 pass_ex) = LEFT"
    by (simp_all add: pass_ex_def)
  from tron_false_draw [OF e l, of terminal_ex] show ?thesis by blast
qed

text \<open>
  Leaving the board on the left is no loss: the position is compared with the board after it
  was found invalid, and \<open>board[-1]\<close> is not in the array.
\<close>

theorem tron_left_edge_faults:
  assumes "pl_x (p1 t) = - 1" "0 \<le> pl_y (p1 t)" "pl_y (p1 t) < MAX_HEIGHT" "\<not> head_on (p1 t) (p2 t)"
  shows "validPositions t k = Fault"
proof -
  have "board_at (canvas t) (pl_x (p1 t)) (pl_y (p1 t)) = None"
    using assms(1-3) by (simp add: board_at_def cell_def)
  then show ?thesis using assms(4) by (simp add: validPositions_def Let_def)
qed

theorem tron_left_edge_faults_witness:
  "validPositions (tron_ex\<lparr>p1 := (p1 tron_ex)\<lparr>pl_x := - 1\<rparr>\<rparr>) terminal_ex = Fault"
  by (rule tron_left_edge_faults)
    (simp_all add: tron_ex_def trail_def new_game_def initializePlayers_def head_on_def MAX_HEIGHT_def)

end
