(* ===== verification/User_Programs.thy ===== *)
theory User_Programs
  imports User_Lib
begin

text \<open>
  The small programs of \<open>Userland/uCodeModule\<close>: date and time (\<open>timer.c\<close>), word count, vowel
  filter, \<open>cat\<close> and \<open>loop\<close>. The arrays the programs allocate are values here, next to the pointer
  that is freed at the end.
\<close>

definition MAX_BUFFER_SIZE :: nat where "MAX_BUFFER_SIZE = 2048"

section \<open>Date and time\<close>

text \<open>An operation on the array from index \<open>n\<close> on.\<close>

definition at_offset :: "nat \<Rightarrow> (buffer \<Rightarrow> buffer option) \<Rightarrow> buffer \<Rightarrow> buffer option" where
  "at_offset n f b = (if n \<le> length b then map_option (\<lambda>c. take n b @ c) (f (drop n b)) else None)"

definition set_at :: "nat \<Rightarrow> byte \<Rightarrow> buffer \<Rightarrow> buffer option" where
  "set_at n c b = (if n < length b then Some (b[n := c]) else None)"

definition put_itoa :: "int \<Rightarrow> buffer \<Rightarrow> buffer option" where
  "put_itoa v b = map_option fst (itoa v b)"

text \<open>Three numbers with a separator, \<open>itoa\<close> at 0, 3 and 6, and a terminator at 8.\<close>

definition three_numbers :: "byte \<Rightarrow> int \<Rightarrow> int \<Rightarrow> int \<Rightarrow> buffer \<Rightarrow> buffer option" where
  "three_numbers sep x y z b =
     Option.bind (put_itoa x b) (\<lambda>b. Option.bind (set_at 2 sep b) (\<lambda>b.
     Option.bind (at_offset 3 (put_itoa y) b) (\<lambda>b. Option.bind (set_at 5 sep b) (\<lambda>b.
     Option.bind (at_offset 6 (put_itoa z) b) (set_at 8 0)))))"

definition byte_of_long :: "nat \<Rightarrow> u64 \<Rightarrow> int" where
  "byte_of_long i v = uint (drop_bit (8 * i) v AND 0xFF)"

text \<open>Greenwich to local time, three hours earlier, as the four tests do it.\<close>

definition local_hours :: "int \<Rightarrow> int" where
  "local_hours hours =
     (let hours = (if hours > 3 then hours - 3 else hours);
          hours = (if hours = 0 then 21 else hours);
          hours = (if hours = 1 then 22 else hours)
      in if hours = 2 then 23 else hours)"

definition getTimeFormat :: "u64 \<Rightarrow> buffer \<Rightarrow> buffer option" where
  "getTimeFormat timeVar b =
     three_numbers 58 (local_hours (byte_of_long 0 timeVar)) (byte_of_long 1 timeVar) (byte_of_long 2 timeVar) b"

definition getDateFormat :: "u64 \<Rightarrow> buffer \<Rightarrow> buffer option" where
  "getDateFormat dateVar b = three_numbers 47 (byte_of_long 0 dateVar) (byte_of_long 1 dateVar) (byte_of_long 2 dateVar) b"

definition getDateAndTime :: "u64 \<Rightarrow> u64 \<Rightarrow> buffer \<Rightarrow> buffer option" where
  "getDateAndTime dateVar timeVar b =
     Option.bind (getDateFormat dateVar b) (\<lambda>b. Option.bind (set_at 8 32 b) (at_offset 9 (getTimeFormat timeVar)))"

section \<open>Reading the input\<close>

text \<open>
  The loop the three filters share: two characters at a time, echoed and appended, until both
  are 0 or the end character 4. The state is the array read into, the length and the text.
\<close>

definition is_end :: "byte \<Rightarrow> bool" where
  "is_end c \<longleftrightarrow> c = 0 \<or> c = 4"

definition take_char :: "byte \<Rightarrow> nat \<times> buffer \<Rightarrow> kernel \<Rightarrow> (nat \<times> buffer) res" where
  "take_char c st k =
     (let (i, buff) = st in
      if is_end c then Done (i, buff) k
      else bind (putChar (scast c) k) (\<lambda>_ k.
        if i < length buff then Done (i + 1, buff[i := c]) k else Fault))"

definition collect_turn :: "(byte \<Rightarrow> byte \<Rightarrow> nat \<times> buffer \<Rightarrow> kernel \<Rightarrow> (nat \<times> buffer) res) \<Rightarrow>
    buffer \<times> nat \<times> buffer \<Rightarrow> kernel \<Rightarrow> ((buffer \<times> nat \<times> buffer) + (nat \<times> buffer)) res" where
  "collect_turn each st k =
     bind (read_user 0 (fst st) 2 k) (\<lambda>r k.
     let c = snd r in
     bind (take_char (c ! 0) (snd st) k) (\<lambda>s k.
     bind (take_char (c ! 1) s k) (\<lambda>s k.
     bind (each (c ! 0) (c ! 1) s k) (\<lambda>s k.
     Done (if \<not> is_end (c ! 0) \<or> \<not> is_end (c ! 1) then Inl (c, s) else Inr s) k))))"

definition collect :: "buffer \<Rightarrow> buffer \<Rightarrow> kernel \<Rightarrow> (nat \<times> buffer) res" where
  "collect c buff k = iterate (collect_turn (\<lambda>_ _ s k. Done s k)) (c, 0, buff) k"

section \<open>wc\<close>

text \<open>Characters, words, lines and whether the last character was in a word.\<close>

fun wc_loop :: "byte list \<Rightarrow> int \<times> int \<times> int \<times> bool \<Rightarrow> int \<times> int \<times> int \<times> bool" where
  "wc_loop [] st = st"
| "wc_loop (c # cs) (charCount, wordCount, lineCount, inWord) =
     (if c = 0 then (charCount, wordCount, lineCount, inWord)
      else
        let lineCount = (if c = 10 then lineCount + 1 else lineCount) in
        if c = 32 \<or> c = 9 \<or> c = 10 then wc_loop cs (charCount + 1, wordCount, lineCount, False)
        else if \<not> inWord then wc_loop cs (charCount + 1, wordCount + 1, lineCount, True)
        else wc_loop cs (charCount + 1, wordCount, lineCount, inWord))"

definition wc_counts :: "byte list \<Rightarrow> int \<times> int \<times> int" where
  "wc_counts buff =
     (let (charCount, wordCount, lineCount, _) = wc_loop buff (0, 0, 0, False) in
      (charCount, wordCount,
       if charCount > 0 \<and> buff ! nat (charCount - 1) \<noteq> 10 then lineCount + 1 else lineCount))"

definition wc :: "kernel \<Rightarrow> i32 res" where
  "wc k =
     bind (malloc_user (of_nat MAX_BUFFER_SIZE) k) (\<lambda>p k.
     if p = 0 then Done (- 1) k
     else
       bind (collect [0, 0, 1, 1] (replicate MAX_BUFFER_SIZE 0) k) (\<lambda>r k.
       if 0 \<notin> set (snd r) then Fault
       else
         let (chars, words, lines) = wc_counts (snd r) in
         bind (printf_user ([10] @ ascii '' %d    %d    %d'' @ [10]) [Num (of_int chars), Num (of_int words), Num (of_int lines)] k)
           (\<lambda>_ k. bind (free_user p k) (\<lambda>_ k. Done 0 k))))"

section \<open>filter\<close>

definition isVowel :: "byte \<Rightarrow> bool" where
  "isVowel c \<longleftrightarrow> c \<in> of_char ` set ''aeiouAEIOU''"

text \<open>The vowels move to the front of the array, in place: \<open>i\<close> reads, \<open>j\<close> writes.\<close>

function squeeze :: "buffer \<Rightarrow> nat \<Rightarrow> nat \<Rightarrow> (buffer \<times> nat) option" where
  "squeeze b i j =
     (if i \<ge> length b then None
      else if b ! i = 0 then Some (b, j)
      else if isVowel (b ! i) then squeeze (b[j := b ! i]) (i + 1) (j + 1)
      else squeeze b (i + 1) j)"
  by pat_completeness auto
termination by (relation "measure (\<lambda>(b, i, j). length b - i)") auto

declare squeeze.simps [simp del]

definition keep_vowels :: "buffer \<Rightarrow> buffer option" where
  "keep_vowels b = Option.bind (squeeze b 0 0) (\<lambda>(b, j). set_at j 0 b)"

definition filter_vowels :: "buffer \<Rightarrow> kernel \<Rightarrow> unit res" where
  "filter_vowels junk k =
     bind (malloc_user (of_nat MAX_BUFFER_SIZE) k) (\<lambda>p k.
     if p = 0 then Done () k
     else
       bind (collect [0, 0, 1, 1] junk k) (\<lambda>r k.
       case Option.bind (set_at (fst r) 0 (snd r)) keep_vowels of
         None \<Rightarrow> Fault
       | Some b \<Rightarrow>
           bind (printf_user ([10] @ ascii ''Filtered vowels: %s'' @ [10]) [Str (takeWhile (\<lambda>c. c \<noteq> 0) b)] k)
             (\<lambda>_ k. free_user p k)))"

section \<open>cat and loop\<close>

text \<open>After each pair of characters with a line break, \<open>cat\<close> prints the line and starts over.\<close>

definition cat_line :: "byte \<Rightarrow> byte \<Rightarrow> nat \<times> buffer \<Rightarrow> kernel \<Rightarrow> (nat \<times> buffer) res" where
  "cat_line c0 c1 st k =
     (if c0 = 10 \<or> c1 = 10
      then
        (case set_at (fst st) 0 (snd st) of
           None \<Rightarrow> Fault
         | Some b \<Rightarrow> bind (printf_user (ascii ''%s'') [Str (takeWhile (\<lambda>c. c \<noteq> 0) b)] k) (\<lambda>_ k. Done (0, b) k))
      else Done st k)"

definition cat :: "buffer \<Rightarrow> kernel \<Rightarrow> unit res" where
  "cat junk k =
     bind (malloc_user (of_nat MAX_BUFFER_SIZE) k) (\<lambda>p k.
     if p = 0 then Done () k
     else bind (iterate (collect_turn cat_line) ([0, 0, 0], 0, junk) k) (\<lambda>_ k. free_user p k))"

definition loop_turn :: "unit \<Rightarrow> kernel \<Rightarrow> (unit + unit) res" where
  "loop_turn _ k =
     bind (shortSleep 1000 k) (\<lambda>_ k. bind (get_pid k) (\<lambda>pid k.
     bind (printf_user (ascii ''My PID: %d'' @ [10]) [Num pid] k) (\<lambda>_ k. Done (Inl ()) k)))"

definition loop :: "kernel \<Rightarrow> unit res" where
  "loop k = iterate loop_turn () k"

text \<open>
  \<open>_start\<close> of \<open>_loader.c\<close> clears the objects without initial value, given as bytes, and calls
  \<open>main\<close>. Its \<open>memset\<close> is that of the kernel library.
\<close>

definition loader_start :: "buffer \<Rightarrow> (buffer \<Rightarrow> kernel \<Rightarrow> 'a res) \<Rightarrow> kernel \<Rightarrow> 'a res" where
  "loader_start bss_bytes main k =
     (case memset bss_bytes 0 (length bss_bytes) of None \<Rightarrow> Fault | Some b \<Rightarrow> main b k)"

text \<open>\<open>main\<close> of \<open>uCodeModule.c\<close> starts the shell in the foreground and sleeps forever.\<close>

definition main_turn :: "unit \<Rightarrow> kernel \<Rightarrow> (unit + unit) res" where
  "main_turn _ k = bind (shortSleep 1 k) (\<lambda>_ k. Done (Inl ()) k)"

definition user_main :: "u64 \<Rightarrow> u64 \<Rightarrow> u64 \<Rightarrow> kernel \<Rightarrow> unit res" where
  "user_main shell_name shell_entry argv k =
     bind (clear_user k) (\<lambda>_ k. bind (yield_user k) (\<lambda>_ k.
     bind (exec shell_name shell_entry argv 0 1 0 1 k) (\<lambda>_ k. iterate main_turn () k)))"

end
