(* ===== verification/User_Properties.thy ===== *)
theory User_Properties
  imports User_Programs C_Strings_Properties
begin

text \<open>What the filters compute on a text, and the local time the clock shows.\<close>

section \<open>Counting\<close>

definition blank :: "byte \<Rightarrow> bool" where
  "blank c \<longleftrightarrow> c = 32 \<or> c = 9 \<or> c = 10"

text \<open>A word starts at each character that is not blank and has a blank, or nothing, before it.\<close>

definition word_starts :: "byte list \<Rightarrow> nat set" where
  "word_starts w = {i. i < length w \<and> \<not> blank (w ! i) \<and> (i = 0 \<or> blank (w ! (i - 1)))}"

fun starts :: "bool \<Rightarrow> byte list \<Rightarrow> nat" where
  "starts inWord [] = 0"
| "starts inWord (c # cs) = (if \<not> blank c \<and> \<not> inWord then 1 else 0) + starts (\<not> blank c) cs"

lemma starts_card:
  "starts inWord w = card {i. i < length w \<and> \<not> blank (w ! i) \<and> (if i = 0 then \<not> inWord else blank (w ! (i - 1)))}"
proof (induction w arbitrary: inWord)
  case Nil
  then show ?case by simp
next
  case (Cons c w)
  let ?S = "\<lambda>b w. {i. i < length w \<and> \<not> blank (w ! i) \<and> (if i = 0 then \<not> b else blank (w ! (i - 1)))}"
  have "?S inWord (c # w) = (if \<not> blank c \<and> \<not> inWord then {0} else {}) \<union> Suc ` ?S (\<not> blank c) w"
  proof (rule set_eqI)
    fix i
    show "i \<in> ?S inWord (c # w) \<longleftrightarrow> i \<in> (if \<not> blank c \<and> \<not> inWord then {0} else {}) \<union> Suc ` ?S (\<not> blank c) w"
      by (cases i) (auto simp: nth_Cons' split: if_splits)
  qed
  moreover have "card ((if \<not> blank c \<and> \<not> inWord then {0} else {}) \<union> Suc ` ?S (\<not> blank c) w) =
      (if \<not> blank c \<and> \<not> inWord then 1 else 0) + card (?S (\<not> blank c) w)"
    by (subst card_Un_disjoint) (auto simp: card_image)
  ultimately show ?case by (simp add: Cons.IH)
qed

lemma word_starts_card: "card (word_starts w) = starts False w"
proof -
  have "word_starts w = {i. i < length w \<and> \<not> blank (w ! i) \<and> (if i = 0 then \<not> False else blank (w ! (i - 1)))}"
    by (auto simp: word_starts_def)
  then show ?thesis by (simp only: starts_card)
qed

lemma wc_loop_counts:
  "0 \<notin> set w \<Longrightarrow> wc_loop (w @ 0 # r) (n, m, l, b) =
    (n + int (length w), m + int (starts b w), l + int (length (filter (\<lambda>c. c = 10) w)),
     if w = [] then b else \<not> blank (last w))"
proof (induction w arbitrary: n m l b)
  case Nil
  then show ?case by simp
next
  case (Cons c w)
  then show ?case by (auto simp: blank_def Let_def)
qed

section \<open>Filtering\<close>

lemma squeeze_keeps:
  "j \<le> i \<Longrightarrow> 0 \<notin> set w \<Longrightarrow> length pre = i \<Longrightarrow>
   \<exists>x. squeeze (pre @ w @ 0 # r) i j =
       Some (take j pre @ filter isVowel w @ x, j + length (filter isVowel w)) \<and> x \<noteq> []"
proof (induction w arbitrary: pre i j)
  case Nil
  then show ?case
    by (intro exI [of _ "drop j pre @ 0 # r"]) (simp add: squeeze.simps [of _ i] nth_append)
next
  case (Cons c w)
  let ?b = "pre @ (c # w) @ 0 # r"
  have at: "?b ! i = c" "\<not> length ?b \<le> i" "c \<noteq> 0" using Cons.prems by (auto simp: nth_append)
  show ?case
  proof (cases "isVowel c")
    case True
    let ?p = "(pre @ [c])[j := c]"
    have "squeeze ?b i j = squeeze (?b[j := c]) (i + 1) (j + 1)"
      using at True by (subst squeeze.simps) simp
    also have "?b[j := c] = ?p @ w @ 0 # r"
      using Cons.prems(1,3) by (cases "j = i") (auto simp: list_update_append)
    finally have s: "squeeze ?b i j = squeeze (?p @ w @ 0 # r) (i + 1) (j + 1)" .
    have t: "take (j + 1) ?p = take j pre @ [c]"
    proof -
      have "take (Suc j) ?p = take j ?p @ [?p ! j]"
        by (rule take_Suc_conv_app_nth) (use Cons.prems(1,3) in simp)
      then show ?thesis using Cons.prems(1,3) by (simp add: take_update_cancel)
    qed
    obtain x where "squeeze (?p @ w @ 0 # r) (i + 1) (j + 1) =
        Some (take (j + 1) ?p @ filter isVowel w @ x, j + 1 + length (filter isVowel w))" "x \<noteq> []"
      using Cons.IH [of "j + 1" "i + 1" ?p] Cons.prems by auto
    then show ?thesis using True s t by (intro exI [of _ x]) simp
  next
    case False
    have s: "squeeze ?b i j = squeeze ((pre @ [c]) @ w @ 0 # r) (i + 1) j"
      using at False by (subst squeeze.simps) simp
    obtain x where "squeeze ((pre @ [c]) @ w @ 0 # r) (i + 1) j =
        Some (take j (pre @ [c]) @ filter isVowel w @ x, j + length (filter isVowel w))" "x \<noteq> []"
      using Cons.IH [of j "i + 1" "pre @ [c]"] Cons.prems by auto
    then show ?thesis using False s Cons.prems(1,3) by (intro exI [of _ x]) simp
  qed
qed

text \<open>
  C25. On a text \<open>w\<close> in a buffer, \<open>wc\<close> counts its characters, the places where a word starts, and
  its lines, the last one also when it does not end with a line break; \<open>filter\<close> leaves in the
  buffer the vowels of \<open>w\<close>, in order, and a terminator.
\<close>

theorem text_filters_correct:
  assumes "0 \<notin> set w"
  shows "wc_counts (w @ 0 # r) =
      (int (length w), int (card (word_starts w)),
       int (length (filter (\<lambda>c. c = 10) w)) + (if w \<noteq> [] \<and> last w \<noteq> 10 then 1 else 0)) \<and>
    (\<exists>x. keep_vowels (w @ 0 # r) = Some (filter isVowel w @ 0 # x))"
proof
  have n: "nat (int (length w) - 1) = length w - 1" by simp
  show "wc_counts (w @ 0 # r) =
      (int (length w), int (card (word_starts w)),
       int (length (filter (\<lambda>c. c = 10) w)) + (if w \<noteq> [] \<and> last w \<noteq> 10 then 1 else 0))"
  proof (cases "w = []")
    case False
    then have "(w @ 0 # r) ! (length w - 1) = last w" by (simp add: nth_append last_conv_nth)
    then show ?thesis using wc_loop_counts [OF assms] False n by (simp add: wc_counts_def word_starts_card)
  qed (simp add: wc_counts_def word_starts_card)
  obtain x where "squeeze (w @ 0 # r) 0 0 = Some (filter isVowel w @ x, length (filter isVowel w))" "x \<noteq> []"
    using squeeze_keeps [of 0 0 w "[]" r] assms by auto
  then show "\<exists>x. keep_vowels (w @ 0 # r) = Some (filter isVowel w @ 0 # x)"
    by (cases x) (auto simp: keep_vowels_def set_at_def)
qed

theorem text_filters_correct_witness:
  "wc_counts [97, 32, 98, 99, 10, 100, 0, 7] = (6, 3, 2) \<and>
   (\<exists>x. keep_vowels [97, 98, 101, 0] = Some ([97, 101] @ 0 # x))"
  using text_filters_correct [of "[97, 32, 98, 99, 10, 100]" "[7]"] text_filters_correct [of "[97, 98, 101]" "[]"]
  by (simp add: isVowel_def word_starts_card blank_def)

section \<open>The clock\<close>

lemma scast_byte: "(scast (ucast (x :: byte) :: i32) :: u64) = ucast x"
proof (rule bit_word_eqI)
  fix n assume "n < LENGTH(64)"
  have "n < 8 \<or> 8 \<le> n" by auto
  then show "bit (scast (ucast x :: i32) :: u64) n \<longleftrightarrow> bit (ucast x :: u64) n"
    by (auto simp: bit_unsigned_iff bit_signed_iff min_def not_le dest: bit_imp_le_length)
qed

lemma low_byte: "(v :: u64) AND 0xFF = take_bit 8 v"
  by (simp add: take_bit_eq_mask mask_eq_exp_minus_1)

lemma pack3_byte:
  "byte_of_long 0 (pack3 (ucast a) (ucast b) (ucast c)) = uint (a :: byte)"
  "byte_of_long 1 (pack3 (ucast a) (ucast b) (ucast c)) = uint (b :: byte)"
  "byte_of_long 2 (pack3 (ucast a) (ucast b) (ucast c)) = uint (c :: byte)"
proof -
  have u: "uint (ucast x :: u64) = uint x" for x :: byte by (rule uint_up_ucast) (simp add: is_up)
  let ?v = "pack3 (ucast a) (ucast b) (ucast c)"
  have "take_bit 8 ?v = ucast a" "take_bit 8 (drop_bit 8 ?v) = ucast b" "take_bit 8 (drop_bit 16 ?v) = ucast c"
    by (rule bit_word_eqI; auto simp: pack3_def scast_byte bit_take_bit_iff bit_or_iff bit_push_bit_iff bit_drop_bit_eq
        bit_unsigned_iff dest: bit_imp_le_length)+
  then show "byte_of_long 0 ?v = uint a" "byte_of_long 1 ?v = uint b" "byte_of_long 2 ?v = uint c"
    by (simp_all add: byte_of_long_def low_byte u)
qed

text \<open>Two decimal digits.\<close>

definition two_digits :: "int \<Rightarrow> byte list" where
  "two_digits v = [of_int (48 + v div 10), of_int (48 + v mod 10)]"

lemma put_itoa_two:
  assumes "0 \<le> v" "v \<le> 99"
  shows "put_itoa v (x # y # z # r) = Some (two_digits v @ 0 # r)"
proof (cases "v < 10")
  case True
  then have "count_digits v = 1" using assms(1) by (subst count_digits.simps) (simp add: sdiv_nonneg)
  then show ?thesis using True assms(1) by (simp add: put_itoa_def itoa_def two_digits_def add.commute)
next
  case False
  have "count_digits (v div 10) = 1" using assms by (subst count_digits.simps) (simp add: sdiv_nonneg)
  then have "count_digits v = 2" using False assms by (subst count_digits.simps) (simp add: sdiv_nonneg)
  then show ?thesis using False assms
    by (simp add: put_itoa_def itoa_def two_digits_def numeral_2_eq_2 sdiv_nonneg smod_nonneg add.commute)
qed

lemma three_numbers_digits:
  assumes "0 \<le> x" "x \<le> 99" "0 \<le> y" "y \<le> 99" "0 \<le> z" "z \<le> 99" "9 \<le> length b"
  shows "three_numbers sep x y z b = Some (two_digits x @ [sep] @ two_digits y @ [sep] @ two_digits z @ 0 # drop 9 b)"
proof -
  obtain b0 b1 b2 b3 b4 b5 b6 b7 b8 r where b: "b = b0 # b1 # b2 # b3 # b4 # b5 # b6 # b7 # b8 # r"
    using assms(7) by (auto simp: numeral_eq_Suc Suc_le_length_iff)
  have t: "two_digits v = [two_digits v ! 0, two_digits v ! 1]" for v by (simp add: two_digits_def)
  have "three_numbers sep x y z b = Some ([two_digits x ! 0, two_digits x ! 1] @ [sep] @
      [two_digits y ! 0, two_digits y ! 1] @ [sep] @ [two_digits z ! 0, two_digits z ! 1] @ 0 # r)"
    using put_itoa_two [OF assms(1,2)] put_itoa_two [OF assms(3,4)] put_itoa_two [OF assms(5,6)]
    unfolding b three_numbers_def
    by (simp add: at_offset_def set_at_def two_digits_def numeral_eq_Suc)
  then show ?thesis using b t by simp
qed

text \<open>
  The clock, for a buffer of 9 bytes and any time of day: two digits each for the hours, the
  minutes and the seconds. The hours are those of the time zone three hours behind Greenwich for
  every hour except from three to five o'clock, where the correction for the early hours is applied to
  the hour it was already subtracted from, or not at all.
\<close>

theorem getTimeFormat_correct:
  fixes h m s :: byte
  assumes "uint h < 24" "uint m < 60" "uint s < 60" "9 \<le> length b"
  shows "getTimeFormat (pack3 (ucast h) (ucast m) (ucast s)) b =
      Some (two_digits (local_hours (uint h)) @ [58] @ two_digits (uint m) @ [58] @ two_digits (uint s) @ 0 # drop 9 b) \<and>
    (local_hours (uint h) = (uint h - 3) mod 24 \<longleftrightarrow> uint h \<notin> {3, 4, 5})"
proof
  have h0: "0 \<le> uint h" by simp
  then have l: "0 \<le> local_hours (uint h)" "local_hours (uint h) \<le> 99"
    using assms(1) by (auto simp: local_hours_def Let_def)
  show "getTimeFormat (pack3 (ucast h) (ucast m) (ucast s)) b =
      Some (two_digits (local_hours (uint h)) @ [58] @ two_digits (uint m) @ [58] @ two_digits (uint s) @ 0 # drop 9 b)"
    unfolding getTimeFormat_def pack3_byte
    by (rule three_numbers_digits [OF l]) (use assms in simp_all)
  show "local_hours (uint h) = (uint h - 3) mod 24 \<longleftrightarrow> uint h \<notin> {3, 4, 5}"
  proof (cases "uint h < 3")
    case True
    then have "uint h = 0 \<or> uint h = 1 \<or> uint h = 2" using h0 by linarith
    then show ?thesis by (elim disjE) (simp_all add: local_hours_def)
  next
    case False
    then have "(uint h - 3) mod 24 = uint h - 3" using assms(1) by simp
    then show ?thesis using False assms(1) by (auto simp: local_hours_def Let_def)
  qed
qed

theorem getTimeFormat_correct_witness:
  "getTimeFormat (pack3 (ucast (4 :: byte)) (ucast (30 :: byte)) (ucast (5 :: byte))) (replicate 9 0) =
    Some (map of_char ''22:30:05'' @ [0])"
  using getTimeFormat_correct [of 4 30 5 "replicate 9 0"] by (simp add: local_hours_def two_digits_def)

end
