(* ===== verification/Buddy.thy ===== *)
theory Buddy
  imports Memory_Manager "HOL-Library.Monad_Syntax"
begin

text \<open>
  The buddy allocator of \<open>Kernel/memoryBuddy.c\<close>, the manager of a kernel built with
  \<open>BUDDY\<close>. Bookkeeping is kept outside the arena, in the array \<open>blocks\<close> with one entry for each
  unit of 256 bytes; a pointer to an entry is its index, NULL is \<open>None\<close>. The entry of the first
  unit of a block describes the block; the other entries are leftovers. Free blocks of a level
  are in the doubly linked list \<open>bucket[level]\<close>. In the results \<open>None\<close> is an access outside of
  the two arrays or through NULL.
\<close>

section \<open>State\<close>

definition LEVEL_LIMIT :: nat where "LEVEL_LIMIT = 13"
definition BLOCK_LIMIT :: nat where "BLOCK_LIMIT = 2 ^ (LEVEL_LIMIT - 1)"
definition BLOCK_UNIT :: nat where "BLOCK_UNIT = 256"

definition SIZE :: "nat \<Rightarrow> nat" where "SIZE level = 2 ^ level * BLOCK_UNIT"

definition IS_POW2 :: "u64 \<Rightarrow> bool" where "IS_POW2 x \<longleftrightarrow> x \<noteq> 0 \<and> x AND (x - 1) = 0"

record BlockData =
  allocated :: bool
  level :: nat
  nxt :: "nat option"
  prv :: "nat option"

record buddy_state =
  blocks :: "nat \<Rightarrow> BlockData"
  bucket :: "nat \<Rightarrow> nat option"
  levels_count :: nat
  blocks_count :: nat
  base_address :: u64
  memory_info :: memory_info

text \<open>The statics of the file before \<open>initMemoryManager\<close>.\<close>

definition buddy_zero :: buddy_state where
  "buddy_zero = \<lparr>blocks = (\<lambda>_. \<lparr>allocated = False, level = 0, nxt = None, prv = None\<rparr>),
     bucket = (\<lambda>_. None), levels_count = 0, blocks_count = 0, base_address = 0,
     memory_info = \<lparr>mi_allocated = 0, mi_free = 0, mi_total = 0\<rparr>\<rparr>"

abbreviation upd_block :: "nat \<Rightarrow> (BlockData \<Rightarrow> BlockData) \<Rightarrow> buddy_state \<Rightarrow> buddy_state" where
  "upd_block i f s \<equiv> s\<lparr>blocks := (blocks s)(i := f (blocks s i))\<rparr>"

definition move_info :: "nat \<Rightarrow> buddy_state \<Rightarrow> buddy_state" where
  "move_info n s = s\<lparr>memory_info := (memory_info s)
     \<lparr>mi_allocated := mi_allocated (memory_info s) - of_nat n, mi_free := mi_free (memory_info s) + of_nat n\<rparr>\<rparr>"

definition take_info :: "nat \<Rightarrow> buddy_state \<Rightarrow> buddy_state" where
  "take_info n s = s\<lparr>memory_info := (memory_info s)
     \<lparr>mi_allocated := mi_allocated (memory_info s) + of_nat n, mi_free := mi_free (memory_info s) - of_nat n\<rparr>\<rparr>"

section \<open>Operations\<close>

fun log2n :: "nat \<Rightarrow> nat" where
  "log2n n = (if n div 2 = 0 then 0 else Suc (log2n (n div 2)))"

declare log2n.simps [simp del]

definition buddy_init :: "buddy_state \<Rightarrow> u64 \<Rightarrow> u64 \<Rightarrow> buddy_state \<times> int" where
  "buddy_init s address sz =
     (if address mod 8 \<noteq> 0 then (s, 1)
      else if sz mod of_nat BLOCK_UNIT \<noteq> 0 \<or> \<not> IS_POW2 (sz div of_nat BLOCK_UNIT) then (s, 2)
      else
        let l = log2n (unat (sz div of_nat BLOCK_UNIT)) in
        if l = 0 then (s, 3)
        else if l \<ge> LEVEL_LIMIT then (s, 4)
        else
          (\<lparr>blocks = (\<lambda>i. if i < BLOCK_LIMIT
                then \<lparr>allocated = False, level = (if i = 0 then l else 0), nxt = None, prv = None\<rparr>
                else blocks s i),
             bucket = (\<lambda>i. if i = l then Some 0 else if i < LEVEL_LIMIT then None else bucket s i),
             levels_count = l + 1, blocks_count = 2 ^ l, base_address = address,
             memory_info = \<lparr>mi_allocated = 0, mi_free = sz, mi_total = sz\<rparr>\<rparr>, 0))"

definition getAddress :: "buddy_state \<Rightarrow> nat \<Rightarrow> u64" where
  "getAddress s i = base_address s + of_nat (i * BLOCK_UNIT)"

definition buddy_of :: "nat \<Rightarrow> nat \<Rightarrow> nat" where
  "buddy_of l i = (if (i div 2 ^ l) mod 2 \<noteq> 0 then i - 2 ^ l else i + 2 ^ l)"

text \<open>The index of the buddy; every use reads its entry.\<close>

definition getBuddy :: "buddy_state \<Rightarrow> nat \<Rightarrow> nat option" where
  "getBuddy s i = (let j = buddy_of (level (blocks s i)) i in if j < BLOCK_LIMIT then Some j else None)"

definition addBlock :: "nat \<Rightarrow> buddy_state \<Rightarrow> buddy_state option" where
  "addBlock i s =
     (let l = level (blocks s i) in
      if l \<ge> LEVEL_LIMIT then None
      else
        let s = upd_block i (\<lambda>b. b\<lparr>nxt := bucket s l, prv := None\<rparr>) s;
            s = s\<lparr>bucket := (bucket s)(l := Some i)\<rparr>;
            s = (case nxt (blocks s i) of None \<Rightarrow> s | Some n \<Rightarrow> upd_block n (\<lambda>b. b\<lparr>prv := Some i\<rparr>) s);
            s = upd_block i (\<lambda>b. b\<lparr>allocated := False\<rparr>) s
        in Some (move_info (SIZE (level (blocks s i))) s))"

definition removeBlock :: "nat \<Rightarrow> buddy_state \<Rightarrow> buddy_state option" where
  "removeBlock i s =
     (let s = (case nxt (blocks s i) of None \<Rightarrow> s
               | Some n \<Rightarrow> upd_block n (\<lambda>b. b\<lparr>prv := prv (blocks s i)\<rparr>) s) in
      do {
        s \<leftarrow> (case prv (blocks s i) of
                Some p \<Rightarrow> Some (upd_block p (\<lambda>b. b\<lparr>nxt := nxt (blocks s i)\<rparr>) s)
              | None \<Rightarrow> if level (blocks s i) \<ge> LEVEL_LIMIT then None
                        else Some (s\<lparr>bucket := (bucket s)(level (blocks s i) := nxt (blocks s i))\<rparr>));
        let s = upd_block i (\<lambda>b. b\<lparr>nxt := None, prv := None, allocated := True\<rparr>) s;
        Some (take_info (SIZE (level (blocks s i))) s)
      })"

text \<open>The result code of \<open>splitBlock\<close> is not used by its caller.\<close>

definition splitBlock :: "nat \<Rightarrow> buddy_state \<Rightarrow> buddy_state option" where
  "splitBlock l s =
     (if l = 0 then Some s
      else if l \<ge> LEVEL_LIMIT then None
      else case bucket s l of
        None \<Rightarrow> Some s
      | Some i \<Rightarrow>
          do {
            s \<leftarrow> removeBlock i s;
            let s = upd_block i (\<lambda>b. b\<lparr>level := l - 1\<rparr>) s;
            j \<leftarrow> getBuddy s i;
            let s = upd_block j (\<lambda>b. b\<lparr>level := l - 1\<rparr>) s;
            s \<leftarrow> addBlock j s;
            addBlock i s
          })"

text \<open>The recursion is at the end of the function; it stops because the level grows.\<close>

partial_function (option) mergeBuddy :: "nat \<Rightarrow> buddy_state \<Rightarrow> buddy_state option" where
  "mergeBuddy i s =
     (if level (blocks s i) = levels_count s - 1 then Some s
      else Option.bind (getBuddy s i) (\<lambda>j.
        if level (blocks s i) \<noteq> level (blocks s j) then Some s
        else if allocated (blocks s i) \<or> allocated (blocks s j) then Some s
        else Option.bind (removeBlock i s) (\<lambda>s.
             Option.bind (removeBlock j s) (\<lambda>s.
             Option.bind (addBlock (min i j) (upd_block (min i j) (\<lambda>b. b\<lparr>level := level b + 1\<rparr>) s)) (\<lambda>s.
             mergeBuddy (min i j) s)))))"

text \<open>The smallest level of at least \<open>l\<close>, below \<open>levels_count\<close>, with a free block.\<close>

function min_above :: "buddy_state \<Rightarrow> nat \<Rightarrow> nat" where
  "min_above s l = (if l < levels_count s \<and> bucket s l = None then min_above s (l + 1) else l)"
  by pat_completeness auto
termination by (relation "measure (\<lambda>(s, l). levels_count s - l)") auto

declare min_above.simps [simp del]

fun split_down :: "nat \<Rightarrow> nat \<Rightarrow> buddy_state \<Rightarrow> buddy_state option" where
  "split_down m l s = (if m > l then Option.bind (splitBlock m s) (split_down (m - 1) l) else Some s)"

declare split_down.simps [simp del]

text \<open>
  The level of a request. In C \<open>(1 << level) * BLOCK_UNIT\<close> is an \<open>int\<close>, exact for the levels of the
  array; a larger level is an access outside of \<open>bucket\<close> whatever the comparison gives.
\<close>

definition request_level :: "u64 \<Rightarrow> nat" where
  "request_level sz =
     (let l = log2n (unat sz div BLOCK_UNIT) in if SIZE l < unat sz then l + 1 else l)"

definition buddy_malloc :: "buddy_state \<Rightarrow> u64 \<Rightarrow> (buddy_state \<times> u64) option" where
  "buddy_malloc s sz =
     (let l = request_level sz in
      if l \<ge> LEVEL_LIMIT then None
      else
        let take = (\<lambda>s. case bucket s l of None \<Rightarrow> None
                        | Some i \<Rightarrow> map_option (\<lambda>s. (s, getAddress s i)) (removeBlock i s)) in
        if bucket s l \<noteq> None then take s
        else
          let m = min_above s (l + 1) in
          if m = levels_count s then Some (s, 0)
          else Option.bind (split_down m l s) take)"

definition buddy_free :: "buddy_state \<Rightarrow> u64 \<Rightarrow> buddy_state option" where
  "buddy_free s ptr =
     (let offset = unat (ptr - base_address s); i = offset div BLOCK_UNIT in
      if offset mod BLOCK_UNIT \<noteq> 0 then Some s
      else if i \<ge> blocks_count s \<or> \<not> allocated (blocks s i) then Some s
      else Option.bind (addBlock i s) (mergeBuddy i))"

definition buddy_getMemoryInfo :: "buddy_state \<Rightarrow> memory_info" where
  "buddy_getMemoryInfo s = memory_info s"

end
