(* ===== verification/Buddy_Lists.thy ===== *)
theory Buddy_Lists
  imports Buddy
begin

text \<open>
  The free lists of the buddy allocator: doubly linked lists in the array of entries, and what
  taking an entry out of its list or putting one in front does to them.
\<close>

section \<open>Doubly linked lists\<close>

fun dll :: "(nat \<Rightarrow> BlockData) \<Rightarrow> nat option \<Rightarrow> nat option \<Rightarrow> nat list \<Rightarrow> bool" where
  "dll B p f [] \<longleftrightarrow> f = None"
| "dll B p f (x # xs) \<longleftrightarrow> f = Some x \<and> prv (B x) = p \<and> dll B (Some x) (nxt (B x)) xs"

lemma dll_cong:
  "(\<And>x. x \<in> set xs \<Longrightarrow> nxt (B' x) = nxt (B x) \<and> prv (B' x) = prv (B x)) \<Longrightarrow> dll B' p f xs = dll B p f xs"
  by (induction xs arbitrary: p f) auto

lemma dll_unique: "dll B p f xs \<Longrightarrow> dll B p f ys \<Longrightarrow> xs = ys"
proof (induction xs arbitrary: p f ys)
  case Nil
  then show ?case by (cases ys) auto
next
  case (Cons x xs)
  then show ?case by (cases ys) auto
qed

lemma dll_at:
  assumes "dll B p f (xs @ x # ys)"
  shows "prv (B x) = (if xs = [] then p else Some (last xs))"
    and "nxt (B x) = (if ys = [] then None else Some (hd ys))"
    and "f = Some (hd (xs @ [x]))"
  using assms by (induction xs arbitrary: p f) (auto, (cases ys; simp)+)

lemma dll_remove:
  assumes "dll B p f (xs @ x # ys)" and "distinct (xs @ x # ys)"
    and "\<And>z. z \<in> set (xs @ ys) \<Longrightarrow> nxt (B' z) = (if xs \<noteq> [] \<and> z = last xs then nxt (B x) else nxt (B z))"
    and "\<And>z. z \<in> set (xs @ ys) \<Longrightarrow> prv (B' z) = (if ys \<noteq> [] \<and> z = hd ys then prv (B x) else prv (B z))"
  shows "dll B' p (if xs = [] then nxt (B x) else f) (xs @ ys)"
  using assms
proof (induction xs arbitrary: p f)
  case Nil
  show ?case
  proof (cases ys)
    case (Cons n ys')
    have "dll B' (Some n) (nxt (B n)) ys' = dll B (Some n) (nxt (B n)) ys'"
      using Nil.prems Cons by (intro dll_cong) auto
    then show ?thesis using Nil.prems Cons by auto
  qed (use Nil in simp)
next
  case (Cons z xs)
  have "dll B' (Some z) (if xs = [] then nxt (B x) else nxt (B z)) (xs @ ys)"
    using Cons.prems by (intro Cons.IH) (auto split: if_splits)
  moreover have "prv (B' z) = p" using Cons.prems by (cases ys) auto
  ultimately show ?case using Cons.prems(1,2) Cons.prems(3) [of z] by (auto split: if_splits)
qed

lemma dll_push:
  assumes "dll B None f xs" "x \<notin> set xs" "distinct xs" "nxt (B' x) = f" "prv (B' x) = None"
    and "\<And>z. z \<in> set xs \<Longrightarrow> nxt (B' z) = nxt (B z) \<and> prv (B' z) = (if z = hd xs then Some x else prv (B z))"
  shows "dll B' None (Some x) (x # xs)"
proof (cases xs)
  case (Cons n ys)
  have "dll B' (Some n) (nxt (B n)) ys = dll B (Some n) (nxt (B n)) ys"
    using assms Cons by (intro dll_cong) auto
  then show ?thesis using assms Cons by auto
qed (use assms in auto)

section \<open>The free lists\<close>

definition free_lists :: "buddy_state \<Rightarrow> (nat \<Rightarrow> nat list) \<Rightarrow> bool" where
  "free_lists s F \<longleftrightarrow>
     (\<forall>l<LEVEL_LIMIT. dll (blocks s) None (bucket s l) (F l) \<and> distinct (F l)) \<and>
     (\<forall>l\<ge>LEVEL_LIMIT. F l = []) \<and>
     (\<forall>l. \<forall>x\<in>set (F l). level (blocks s x) = l \<and> \<not> allocated (blocks s x))"

lemma free_listsD:
  assumes "free_lists s F"
  shows "l < LEVEL_LIMIT \<Longrightarrow> dll (blocks s) None (bucket s l) (F l)" "distinct (F l)"
    "x \<in> set (F l) \<Longrightarrow> level (blocks s x) = l" "x \<in> set (F l) \<Longrightarrow> \<not> allocated (blocks s x)"
    "x \<in> set (F l) \<Longrightarrow> l < LEVEL_LIMIT"
  using assms unfolding free_lists_def by (force, (metis distinct.simps(1) not_less), auto)
    (metis empty_iff empty_set not_less)

lemma free_lists_bucket:
  assumes "free_lists s F" "l < LEVEL_LIMIT"
  shows "bucket s l = (if F l = [] then None else Some (hd (F l)))"
  using free_listsD(1) [OF assms] by (cases "F l") auto

lemma free_lists_unique:
  assumes "free_lists s F" "free_lists s G" shows "F = G"
proof
  fix l show "F l = G l"
  proof (cases "l < LEVEL_LIMIT")
    case True
    then show ?thesis using assms free_listsD(1) dll_unique by blast
  next
    case False
    then show ?thesis using assms by (simp add: free_lists_def)
  qed
qed

text \<open>What an operation leaves alone: everything but the lists, the flag of \<open>i\<close> and the counters.\<close>

definition same_but :: "nat \<Rightarrow> bool \<Rightarrow> buddy_state \<Rightarrow> buddy_state \<Rightarrow> bool" where
  "same_but i a s s' \<longleftrightarrow>
     (\<forall>x. level (blocks s' x) = level (blocks s x) \<and>
          allocated (blocks s' x) = (if x = i then a else allocated (blocks s x))) \<and>
     levels_count s' = levels_count s \<and> blocks_count s' = blocks_count s \<and> base_address s' = base_address s"

lemma removeBlock_lists:
  assumes fl: "free_lists s F" and F: "F l = xs @ i # ys"
  obtains s' where "removeBlock i s = Some s'" "free_lists s' (F(l := xs @ ys))" "same_but i True s s'"
    "memory_info s' = memory_info (take_info (SIZE l) s)"
proof -
  have i: "i \<in> set (F l)" using F by simp
  note D = free_listsD [OF fl]
  have l: "l < LEVEL_LIMIT" "level (blocks s i) = l" using D(3,5) [OF i] by auto
  have dl: "dll (blocks s) None (bucket s l) (xs @ i # ys)" "distinct (xs @ i # ys)"
    using D(1) [OF l(1)] D(2) [of l] F by auto
  note at = dll_at [OF dl(1)]
  define B where "B = (\<lambda>z. if z = i then (blocks s i)\<lparr>nxt := None, prv := None, allocated := True\<rparr>
     else (blocks s z)\<lparr>nxt := (if xs \<noteq> [] \<and> z = last xs then nxt (blocks s i) else nxt (blocks s z)),
       prv := (if ys \<noteq> [] \<and> z = hd ys then prv (blocks s i) else prv (blocks s z))\<rparr>)"
  define bk where "bk = (if xs = [] then (bucket s)(l := nxt (blocks s i)) else bucket s)"
  define s' where "s' = take_info (SIZE l) (s\<lparr>blocks := B, bucket := bk\<rparr>)"
  have ne: "xs \<noteq> [] \<Longrightarrow> last xs \<noteq> i" "ys \<noteq> [] \<Longrightarrow> hd ys \<noteq> i" "xs \<noteq> [] \<Longrightarrow> ys \<noteq> [] \<Longrightarrow> last xs \<noteq> hd ys"
    using dl(2) by (auto simp: disjoint_iff) (metis last_in_set list.set_sel(1))
  have run: "removeBlock i s = Some s'"
    using l at ne
    by (cases "xs = []"; cases "ys = []")
      (auto simp: removeBlock_def s'_def B_def bk_def take_info_def fun_eq_iff intro!: buddy_state.equality)
  have lev: "level (B z) = level (blocks s z)" "allocated (B z) = (z = i \<or> allocated (blocks s z))" for z
    by (auto simp: B_def)
  have "dll B None (bk m) ((F(l := xs @ ys)) m) \<and> distinct ((F(l := xs @ ys)) m)" if m: "m < LEVEL_LIMIT" for m
  proof (cases "m = l")
    case True
    have "dll B None (if xs = [] then nxt (blocks s i) else bucket s l) (xs @ ys)"
      using dl by (intro dll_remove [OF dl]) (auto simp: B_def)
    then show ?thesis using True dl(2) by (auto simp: bk_def split: if_splits)
  next
    case False
    have "z \<noteq> i \<and> z \<notin> set xs \<and> z \<notin> set ys" if "z \<in> set (F m)" for z
      using D(3) [OF that] D(3) [of z l] False F by auto
    then have "nxt (B z) = nxt (blocks s z) \<and> prv (B z) = prv (blocks s z)" if "z \<in> set (F m)" for z
      using that by (simp add: B_def) (metis last_in_set list.set_sel(1))
    from dll_cong [OF this] D(1) [OF m] D(2) False show ?thesis by (auto simp: bk_def)
  qed
  moreover have "level (B z) = m \<and> \<not> allocated (B z)" if "z \<in> set ((F(l := xs @ ys)) m)" for m z
    using that D(3,4) [of z m] dl(2) F l(2) lev by (cases "m = l") auto
  moreover have "(F(l := xs @ ys)) m = []" if "m \<ge> LEVEL_LIMIT" for m
    using that fl l(1) by (auto simp: free_lists_def)
  ultimately have "free_lists s' (F(l := xs @ ys))"
    by (simp add: free_lists_def s'_def take_info_def)
  moreover have "same_but i True s s'" by (auto simp: same_but_def s'_def take_info_def lev)
  moreover have "memory_info s' = memory_info (take_info (SIZE l) s)" by (simp add: s'_def take_info_def)
  ultimately show ?thesis using run that by blast
qed

lemma addBlock_lists:
  assumes fl: "free_lists s F" and i: "\<And>l. i \<notin> set (F l)" and l: "level (blocks s i) = l" "l < LEVEL_LIMIT"
  obtains s' where "addBlock i s = Some s'" "free_lists s' (F(l := i # F l))" "same_but i False s s'"
    "memory_info s' = memory_info (move_info (SIZE l) s)"
proof -
  note D = free_listsD [OF fl]
  define B where "B = (\<lambda>z. if z = i then (blocks s i)\<lparr>nxt := bucket s l, prv := None, allocated := False\<rparr>
     else (blocks s z)\<lparr>prv := (if F l \<noteq> [] \<and> z = hd (F l) then Some i else prv (blocks s z))\<rparr>)"
  define s' where "s' = move_info (SIZE l) (s\<lparr>blocks := B, bucket := (bucket s)(l := Some i)\<rparr>)"
  have ne: "F l \<noteq> [] \<Longrightarrow> hd (F l) \<noteq> i" using i [of l] hd_in_set [of "F l"] by auto
  have run: "addBlock i s = Some s'"
    using l ne free_lists_bucket [OF fl l(2)]
    by (cases "F l = []")
      (auto simp: addBlock_def Let_def s'_def B_def move_info_def fun_eq_iff intro!: buddy_state.equality)
  have lev: "level (B z) = level (blocks s z)" "allocated (B z) = (z \<noteq> i \<and> allocated (blocks s z))" for z
    by (auto simp: B_def)
  have "dll B None (((bucket s)(l := Some i)) m) ((F(l := i # F l)) m) \<and> distinct ((F(l := i # F l)) m)"
    if m: "m < LEVEL_LIMIT" for m
  proof (cases "m = l")
    case True
    have "dll B None (Some i) (i # F l)"
      using i [of l] by (intro dll_push [OF D(1) [OF l(2)]]) (auto simp: B_def D(2))
    then show ?thesis using True i D(2) by auto
  next
    case False
    have "z \<noteq> i \<and> z \<notin> set (F l)" if "z \<in> set (F m)" for z
      using D(3) [OF that] D(3) [of z l] False i that by auto
    then have "nxt (B z) = nxt (blocks s z) \<and> prv (B z) = prv (blocks s z)" if "z \<in> set (F m)" for z
      using that by (simp add: B_def) (metis list.set_sel(1))
    from dll_cong [OF this] D(1) [OF m] D(2) False show ?thesis by auto
  qed
  moreover have "level (B z) = m \<and> \<not> allocated (B z)" if "z \<in> set ((F(l := i # F l)) m)" for m z
    using that D(3,4) [of z m] i l lev by (cases "m = l") auto
  moreover have "(F(l := i # F l)) m = []" if "m \<ge> LEVEL_LIMIT" for m
    using that fl l by (auto simp: free_lists_def)
  ultimately have "free_lists s' (F(l := i # F l))"
    by (simp add: free_lists_def s'_def move_info_def)
  moreover have "same_but i False s s'" by (auto simp: same_but_def s'_def move_info_def lev)
  moreover have "memory_info s' = memory_info (move_info (SIZE l) s)" by (simp add: s'_def move_info_def)
  ultimately show ?thesis using run that by blast
qed

end
