(* ===== verification/Buddy_Tiles.thy ===== *)
theory Buddy_Tiles
  imports Buddy
begin

text \<open>
  Geometry of the arena, in units: a set \<open>H\<close> of first units with their levels \<open>lv\<close> cuts the
  \<open>2 ^ ht\<close> units into blocks, each as long as a power of two and aligned to its length.
\<close>

definition inside :: "(nat \<Rightarrow> nat) \<Rightarrow> nat \<Rightarrow> nat \<Rightarrow> bool" where
  "inside lv x i \<longleftrightarrow> x \<le> i \<and> i < x + 2 ^ lv x"

definition tiles :: "nat \<Rightarrow> (nat \<Rightarrow> nat) \<Rightarrow> nat set \<Rightarrow> bool" where
  "tiles ht lv H \<longleftrightarrow>
     (\<forall>x\<in>H. lv x \<le> ht \<and> 2 ^ lv x dvd x \<and> x < 2 ^ ht) \<and>
     (\<forall>i<2 ^ ht. \<exists>x\<in>H. inside lv x i) \<and>
     (\<forall>x\<in>H. \<forall>y\<in>H. \<forall>i. inside lv x i \<longrightarrow> inside lv y i \<longrightarrow> x = y)"

lemma tilesD:
  assumes "tiles ht lv H"
  shows "x \<in> H \<Longrightarrow> lv x \<le> ht" "x \<in> H \<Longrightarrow> 2 ^ lv x dvd x" "x \<in> H \<Longrightarrow> x < 2 ^ ht"
    "i < 2 ^ ht \<Longrightarrow> \<exists>x\<in>H. inside lv x i"
    "x \<in> H \<Longrightarrow> y \<in> H \<Longrightarrow> inside lv x i \<Longrightarrow> inside lv y i \<Longrightarrow> x = y"
  using assms by (auto simp: tiles_def)

lemma inside_refl [simp]: "inside lv x x"
  by (simp add: inside_def)

lemma dvd_diff_pow:
  assumes "2 ^ l dvd x" "2 ^ l dvd y" "x < y" shows "x + 2 ^ l \<le> (y::nat)"
proof -
  from assms obtain a b where ab: "x = 2 ^ l * a" "y = 2 ^ l * b" by (auto elim!: dvdE)
  with assms(3) have "Suc a \<le> b" by simp
  then have "2 ^ l * Suc a \<le> 2 ^ l * b" by (rule mult_le_mono2)
  then show ?thesis using ab by simp
qed

lemma pow_dvd_mono: "l \<le> m \<Longrightarrow> (2::nat) ^ m dvd x \<Longrightarrow> 2 ^ l dvd x"
  by (meson dvd_trans le_imp_power_dvd)

text \<open>Two aligned blocks that meet are nested.\<close>

lemma inside_aligned:
  assumes "2 ^ lv x dvd x" "2 ^ l dvd y" "l \<le> lv x" "inside lv x i" "y \<le> i" "i < y + 2 ^ l"
  shows "x \<le> y" "y + 2 ^ l \<le> x + 2 ^ lv x"
proof -
  have d: "2 ^ l dvd x" "2 ^ l dvd x + 2 ^ lv x"
    using assms(1,3) pow_dvd_mono le_imp_power_dvd [of l "lv x" 2] by auto
  show "x \<le> y" using dvd_diff_pow [OF assms(2) d(1)] assms(4-6) by (auto simp: inside_def not_le [symmetric])
  show "y + 2 ^ l \<le> x + 2 ^ lv x"
    using dvd_diff_pow [OF assms(2) d(2)] assms(4-6) by (auto simp: inside_def)
qed

lemma tiles_end:
  assumes "tiles ht lv H" "x \<in> H" shows "x + 2 ^ lv x \<le> 2 ^ ht"
  using tilesD(1-3) [OF assms(1) assms(2)] by (intro dvd_diff_pow) (auto simp: le_imp_power_dvd)

lemma tiles_apart:
  assumes "tiles ht lv H" "x \<in> H" "y \<in> H" "x \<noteq> y"
  shows "x + 2 ^ lv x \<le> y \<or> y + 2 ^ lv y \<le> x"
proof (rule ccontr)
  assume "\<not> ?thesis"
  then have "inside lv x (max x y) \<and> inside lv y (max x y)" by (auto simp: inside_def)
  then show False using tilesD(5) [OF assms(1-3)] assms(4) by blast
qed

section \<open>Buddies\<close>

lemma buddy_of_cases:
  assumes "2 ^ l dvd x"
  obtains "buddy_of l x = x + 2 ^ l" "2 ^ Suc l dvd x"
  | "x = buddy_of l x + 2 ^ l" "2 ^ Suc l dvd buddy_of l x"
proof -
  from assms obtain a where a: "x = 2 ^ l * a" by (auto elim!: dvdE)
  show ?thesis
  proof (cases "even a")
    case True
    then have "buddy_of l x = x + 2 ^ l" "2 ^ Suc l dvd x" using a by (auto simp: buddy_of_def)
    then show ?thesis by (rule that(1))
  next
    case False
    then obtain b where b: "a = Suc (2 * b)" by (auto elim!: oddE)
    have "buddy_of l x = x - 2 ^ l" using a b by (simp add: buddy_of_def)
    then have "x = buddy_of l x + 2 ^ l" "2 ^ Suc l dvd buddy_of l x" using a b by auto
    then show ?thesis by (rule that(2))
  qed
qed

lemma buddy_of_props:
  assumes "2 ^ l dvd x"
  shows "2 ^ l dvd buddy_of l x" "buddy_of l (buddy_of l x) = x" "buddy_of l x \<noteq> x"
    "2 ^ Suc l dvd min x (buddy_of l x)" "max x (buddy_of l x) = min x (buddy_of l x) + 2 ^ l"
proof (atomize (full), rule buddy_of_cases [OF assms], goal_cases)
  case 1
  have d: "2 ^ l dvd x + 2 ^ l" using assms by simp
  have "buddy_of l (x + 2 ^ l) = x"
    using d
  proof (rule buddy_of_cases)
    assume "2 ^ Suc l dvd x + 2 ^ l"
    then have "2 ^ Suc l dvd (2::nat) ^ l" using 1(2) dvd_add_right_iff by blast
    then have "(2::nat) ^ Suc l \<le> 2 ^ l" by (intro dvd_imp_le) auto
    then show ?thesis by simp
  qed simp
  then show ?case using 1 d by (auto simp: min_def max_def)
next
  case 2
  define y where "y = buddy_of l x"
  have y: "x = y + 2 ^ l" "2 ^ Suc l dvd y" using 2 by (auto simp: y_def)
  have d: "2 ^ l dvd y" using y(2) by (rule pow_dvd_mono [rotated]) simp
  have "buddy_of l y = x"
    using d
  proof (rule buddy_of_cases)
    assume "y = buddy_of l y + 2 ^ l" "2 ^ Suc l dvd buddy_of l y"
    then have "2 ^ Suc l dvd (2::nat) ^ l" using y(2) dvd_add_right_iff by metis
    then have "(2::nat) ^ Suc l \<le> 2 ^ l" by (intro dvd_imp_le) auto
    then show ?thesis by simp
  qed (use y in simp)
  then show ?case using y d unfolding y_def [symmetric] by (auto simp: min_def max_def)
qed

lemma buddy_of_bound:
  assumes "2 ^ l dvd x" "x < 2 ^ ht" "l < ht" shows "buddy_of l x < 2 ^ ht"
  using assms(1)
proof (rule buddy_of_cases)
  assume b: "buddy_of l x = x + 2 ^ l" "2 ^ Suc l dvd x"
  have "x + 2 ^ Suc l \<le> 2 ^ ht"
    using b assms by (intro dvd_diff_pow) (auto simp del: power_Suc intro: le_imp_power_dvd)
  moreover have "(2::nat) ^ l < 2 ^ Suc l" by simp
  ultimately show ?thesis using b by linarith
qed (use assms in auto)

text \<open>The buddy of a block is the first unit of a block that is not larger.\<close>

lemma tiles_buddy:
  assumes t: "tiles ht lv H" and x: "x \<in> H" "lv x < ht"
  shows "buddy_of (lv x) x \<in> H" "lv (buddy_of (lv x) x) \<le> lv x"
proof -
  define l y where "l = lv x" and "y = buddy_of l x"
  note T = tilesD [OF t]
  have dx: "2 ^ l dvd x" using T(2) [OF x(1)] by (simp add: l_def)
  note b = buddy_of_props [OF dx, folded y_def]
  have "y < 2 ^ ht" using buddy_of_bound [OF dx T(3) [OF x(1)]] x(2) by (simp add: y_def l_def)
  then obtain z where z: "z \<in> H" "inside lv z y" using T(4) by blast
  have "\<not> lv z > l"
  proof
    assume "lv z > l"
    then have le: "Suc l \<le> lv z" by simp
    have m: "min x y \<le> y" "y < min x y + 2 ^ Suc l" using b(5) by (auto simp: min_def max_def split: if_splits)
    note n = inside_aligned [OF T(2) [OF z(1)] b(4) le z(2) m]
    have "0 < (2::nat) ^ l" by simp
    with n b(5) have "z \<le> x" "x < z + 2 ^ lv z" unfolding power_Suc by linarith+
    then have "inside lv z x" by (simp add: inside_def)
    then have "z = x" using T(5) [OF z(1) x(1)] by simp
    then show False using \<open>lv z > l\<close> by (simp add: l_def)
  qed
  then have "lv z \<le> l" by simp
  moreover have "z = y"
  proof (rule ccontr)
    assume "z \<noteq> y"
    then have lt: "z < y" "y < z + 2 ^ lv z" using z by (auto simp: inside_def)
    have "2 ^ lv z dvd y" using \<open>lv z \<le> l\<close> b(1) pow_dvd_mono by blast
    from dvd_diff_pow [OF T(2) [OF z(1)] this lt(1)] lt(2) show False by simp
  qed
  ultimately show "buddy_of (lv x) x \<in> H" "lv (buddy_of (lv x) x) \<le> lv x"
    using z(1) by (simp_all add: l_def y_def)
qed

section \<open>Splitting and merging\<close>

lemma tiles_cong: "(\<And>x. x \<in> H \<Longrightarrow> lv' x = lv x) \<Longrightarrow> tiles ht lv' H = tiles ht lv H"
  by (auto simp: tiles_def inside_def)

lemma tiles_split:
  assumes t: "tiles ht lv H" and x: "x \<in> H" "lv x = Suc l"
  shows "buddy_of l x = x + 2 ^ l" "x + 2 ^ l \<notin> H" "x + 2 ^ l < 2 ^ ht"
    "tiles ht (lv(x := l, x + 2 ^ l := l)) (insert (x + 2 ^ l) H)"
proof -
  note T = tilesD [OF t]
  let ?y = "x + 2 ^ l"
  let ?lv = "lv(x := l, ?y := l)"
  have dx: "2 ^ Suc l dvd x" using T(2) [OF x(1)] x(2) by simp
  have dl: "2 ^ l dvd x" using dx by (rule pow_dvd_mono [rotated]) simp
  show "buddy_of l x = ?y"
    using dl
  proof (rule buddy_of_cases)
    assume "x = buddy_of l x + 2 ^ l" "2 ^ Suc l dvd buddy_of l x"
    then have "2 ^ Suc l dvd (2::nat) ^ l" using dx dvd_add_right_iff by metis
    then have "(2::nat) ^ Suc l \<le> 2 ^ l" by (intro dvd_imp_le) auto
    then show ?thesis by simp
  qed simp
  have iy: "inside lv x ?y" using x(2) by (simp add: inside_def)
  show ny: "?y \<notin> H" using T(5) [OF x(1) _ iy, of ?y] by auto
  show by1: "?y < 2 ^ ht" 
  proof -
    have "0 < (2::nat) ^ l" by simp
    with tiles_end [OF t x(1)] x(2) show ?thesis by (simp only: power_Suc)
  qed
  have ins: "inside ?lv z i \<longleftrightarrow> inside lv z i" if "z \<in> H" "z \<noteq> x" for z i
    using that ny by (auto simp: inside_def)
  have cut: "inside lv x i \<longleftrightarrow> inside ?lv x i \<or> inside ?lv ?y i" for i
    using x(2) by (auto simp: inside_def)
  have sub: "inside ?lv z i \<Longrightarrow> z = x \<or> z = ?y \<Longrightarrow> inside lv x i" for z i using cut by blast
  have "\<exists>z\<in>insert ?y H. inside ?lv z i" if "i < 2 ^ ht" for i
    using T(4) [OF that] cut ins x(1) by (metis insertCI)
  moreover have "z = w" if "z \<in> insert ?y H" "w \<in> insert ?y H" "inside ?lv z i" "inside ?lv w i" for z w i
  proof (cases "(z = x \<or> z = ?y) = (w = x \<or> w = ?y)")
    case True
    show ?thesis
    proof (cases "z = x \<or> z = ?y")
      case True
      with \<open>(z = x \<or> z = ?y) = (w = x \<or> w = ?y)\<close> that(3,4) show ?thesis
        by (auto simp: inside_def)
    next
      case False
      with True that ins [of z i] ins [of w i] show ?thesis by (intro T(5) [of z w i]) auto
    qed
  next
    case False
    then show ?thesis using that T(5) [OF x(1), of z i] T(5) [OF x(1), of w i] sub ins [of z i] ins [of w i]
      by (metis insertE)
  qed
  moreover have "?lv z \<le> ht \<and> 2 ^ ?lv z dvd z \<and> z < 2 ^ ht" if "z \<in> insert ?y H" for z
    using that T(1-3) [of z] T(1) [OF x(1)] x dl by1 by auto
  ultimately show "tiles ht ?lv (insert ?y H)" unfolding tiles_def by blast
qed

lemma tiles_merge:
  assumes t: "tiles ht lv H" and x: "x \<in> H" "lv x = l" "x + 2 ^ l \<in> H" "lv (x + 2 ^ l) = l"
    and d: "2 ^ Suc l dvd x" and l: "l < ht"
  shows "tiles ht (lv(x := Suc l)) (H - {x + 2 ^ l})"
proof -
  note T = tilesD [OF t]
  let ?y = "x + 2 ^ l"
  let ?lv = "lv(x := Suc l)"
  have ins: "inside ?lv z i \<longleftrightarrow> inside lv z i" if "z \<noteq> x" for z i
    using that by (auto simp: inside_def)
  have join: "inside ?lv x i \<longleftrightarrow> inside lv x i \<or> inside lv ?y i" for i
    using x by (auto simp: inside_def)
  have "\<exists>z\<in>H - {?y}. inside ?lv z i" if i: "i < 2 ^ ht" for i
  proof -
    obtain z where z: "z \<in> H" "inside lv z i" using T(4) [OF i] by blast
    show ?thesis
    proof (cases "z = x \<or> z = ?y")
      case True
      then have "inside ?lv x i" using join z by blast
      moreover have "x \<in> H - {?y}" using x by simp
      ultimately show ?thesis by blast
    next
      case False
      then show ?thesis using z ins by blast
    qed
  qed
  moreover have "z = w" if "z \<in> H - {?y}" "w \<in> H - {?y}" "inside ?lv z i" "inside ?lv w i" for z w i
    using that join ins T(5) x by (metis DiffD1 DiffD2 singletonI)
  moreover have "?lv z \<le> ht \<and> 2 ^ ?lv z dvd z \<and> z < 2 ^ ht" if "z \<in> H - {?y}" for z
    using that T(1-3) [of z] d l by auto
  ultimately show ?thesis unfolding tiles_def by blast
qed

text \<open>The levels of the entries determine the blocks.\<close>

lemma tiles_unique_aux:
  assumes "tiles ht lv H" "tiles ht lv G"
  shows "i < 2 ^ ht \<Longrightarrow> i \<in> H \<Longrightarrow> i \<in> G"
  using assms
proof (induction i arbitrary: H G rule: less_induct)
  case (less i)
  obtain x where x: "x \<in> G" "inside lv x i" using tilesD(4) [OF less.prems(4) less.prems(1)] by blast
  show ?case
  proof (cases "x = i")
    case False
    then have "x < i" using x by (simp add: inside_def)
    then have "x \<in> H" using less.IH [of x G H] less.prems x(1) by auto
    then show ?thesis using tilesD(5) [OF less.prems(3) _ less.prems(2) x(2)] \<open>x < i\<close> by auto
  qed (use x in simp)
qed

lemma tiles_unique:
  assumes "tiles ht lv H" "tiles ht lv G" shows "H = G"
  using tiles_unique_aux [OF assms] tiles_unique_aux [OF assms(2,1)] tilesD(3) assms by blast

lemma tiles_init: "tiles ht (\<lambda>i. if i = 0 then ht else lv i) {0}"
  by (auto simp: tiles_def inside_def)

end
