(* ===== verification/Buddy_Invariant.thy ===== *)
theory Buddy_Invariant
  imports Buddy_Lists Buddy_Tiles
begin

text \<open>
  The invariant of the buddy allocator, over the free lists \<open>F\<close> and the set \<open>A\<close> of blocks in use:
  together they tile the arena, and the counters say how much of it is in use. Each operation
  keeps it. \<open>coalesced\<close> says that no two buddies are both free, which \<open>malloc\<close> and \<open>free\<close> keep too.
\<close>

abbreviation lvl :: "buddy_state \<Rightarrow> nat \<Rightarrow> nat" where "lvl s \<equiv> \<lambda>x. level (blocks s x)"

definition free_set :: "(nat \<Rightarrow> nat list) \<Rightarrow> nat set" where "free_set F = (\<Union>l. set (F l))"

lemma free_set_upd: "free_set (F(l := xs)) = set xs \<union> (\<Union>m\<in>- {l}. set (F m))"
  by (auto simp: free_set_def split: if_splits)

lemma free_set_at: "free_set F = set (F l) \<union> (\<Union>m\<in>- {l}. set (F m))"
  using free_set_upd [of F l "F l"] by simp

definition counters :: "nat \<Rightarrow> buddy_state \<Rightarrow> nat set \<Rightarrow> bool" where
  "counters ht s A \<longleftrightarrow> finite A \<and>
     memory_info s = \<lparr>mi_allocated = of_nat (\<Sum>x\<in>A. SIZE (lvl s x)),
       mi_free = of_nat (SIZE ht) - of_nat (\<Sum>x\<in>A. SIZE (lvl s x)), mi_total = of_nat (SIZE ht)\<rparr>"

definition buddy_rep :: "nat \<Rightarrow> buddy_state \<Rightarrow> (nat \<Rightarrow> nat list) \<Rightarrow> nat set \<Rightarrow> bool" where
  "buddy_rep ht s F A \<longleftrightarrow>
     0 < ht \<and> ht < LEVEL_LIMIT \<and> levels_count s = ht + 1 \<and> blocks_count s = 2 ^ ht \<and>
     free_lists s F \<and> (\<forall>x\<in>A. allocated (blocks s x)) \<and> tiles ht (lvl s) (A \<union> free_set F) \<and> counters ht s A"

lemma buddy_repD:
  assumes "buddy_rep ht s F A"
  shows "0 < ht" "ht < LEVEL_LIMIT" "levels_count s = ht + 1" "blocks_count s = 2 ^ ht" "free_lists s F"
    "x \<in> A \<Longrightarrow> allocated (blocks s x)" "tiles ht (lvl s) (A \<union> free_set F)" "counters ht s A" "finite A"
  using assms by (auto simp: buddy_rep_def counters_def)

lemma buddy_rep_free:
  assumes "buddy_rep ht s F A" "x \<in> set (F l)"
  shows "lvl s x = l" "\<not> allocated (blocks s x)" "x \<in> free_set F" "x \<notin> A" "l \<le> ht" "x < 2 ^ ht" "2 ^ l dvd x"
proof -
  note D = buddy_repD [OF assms(1)]
  show l: "lvl s x = l" "\<not> allocated (blocks s x)" using free_listsD [OF D(5)] assms(2) by auto
  show i: "x \<in> free_set F" using assms(2) by (auto simp: free_set_def)
  show "x \<notin> A" using D(6) l(2) by blast
  show "l \<le> ht" "x < 2 ^ ht" "2 ^ l dvd x" using tilesD(1-3) [OF D(7), of x] i l(1) by auto
qed

lemma buddy_rep_used:
  assumes "buddy_rep ht s F A" "x \<in> A"
  shows "lvl s x \<le> ht" "x < 2 ^ ht" "2 ^ lvl s x dvd x" "x \<notin> free_set F" "x \<notin> set (F l)"
proof -
  note D = buddy_repD [OF assms(1)]
  show "lvl s x \<le> ht" "x < 2 ^ ht" "2 ^ lvl s x dvd x" using tilesD(1-3) [OF D(7), of x] assms(2) by auto
  show "x \<notin> set (F l)" using D(6) [OF assms(2)] free_listsD(4) [OF D(5)] by blast
  show "x \<notin> free_set F" using D(6) [OF assms(2)] free_listsD(4) [OF D(5)] by (auto simp: free_set_def)
qed

text \<open>The free lists and the blocks in use are determined by the state.\<close>

lemma buddy_rep_unique:
  assumes r: "buddy_rep ht s F A" and r': "buddy_rep ht' s G B"
  shows "ht' = ht" "G = F" "B = A"
proof -
  show h: "ht' = ht" using buddy_repD(3) [OF r] buddy_repD(3) [OF r'] by simp
  show g: "G = F" using free_lists_unique buddy_repD(5) [OF r] buddy_repD(5) [OF r'] by blast
  have "A \<union> free_set F = B \<union> free_set F"
    using tiles_unique buddy_repD(7) [OF r] buddy_repD(7) [OF r'] h g by blast
  moreover have "A \<inter> free_set F = {}" "B \<inter> free_set F = {}"
    using buddy_rep_used(4) [OF r] buddy_rep_used(4) [OF r'] g by auto
  ultimately show "B = A" by blast
qed

definition coalesced :: "nat \<Rightarrow> (nat \<Rightarrow> nat list) \<Rightarrow> bool" where
  "coalesced ht F \<longleftrightarrow> (\<forall>l<ht. \<forall>x\<in>set (F l). buddy_of l x \<notin> set (F l))"

text \<open>The same but for the block at \<open>i\<close> and its buddy.\<close>

definition coalesced_but :: "nat \<Rightarrow> nat \<Rightarrow> (nat \<Rightarrow> nat list) \<Rightarrow> bool" where
  "coalesced_but i ht F \<longleftrightarrow>
     (\<forall>l<ht. \<forall>x\<in>set (F l). x \<noteq> i \<longrightarrow> buddy_of l x \<noteq> i \<longrightarrow> buddy_of l x \<notin> set (F l))"

text \<open>What \<open>malloc\<close> and \<open>free\<close> leave alone: the levels of the blocks in use and the constants.\<close>

definition keeps :: "nat set \<Rightarrow> buddy_state \<Rightarrow> buddy_state \<Rightarrow> bool" where
  "keeps A s s' \<longleftrightarrow> (\<forall>x\<in>A. lvl s' x = lvl s x) \<and> base_address s' = base_address s"

lemma keeps_trans: "keeps A s s' \<Longrightarrow> keeps A s' s'' \<Longrightarrow> keeps A s s''"
  by (simp add: keeps_def)

lemma keeps_refl [simp]: "keeps A s s"
  by (simp add: keeps_def)

lemma keeps_mono: "keeps A s s' \<Longrightarrow> B \<subseteq> A \<Longrightarrow> keeps B s s'"
  by (auto simp: keeps_def)

section \<open>Taking a free block, giving one back\<close>

lemma set_remove1 [simp]: "distinct xs \<Longrightarrow> set (remove1 x xs) = set xs - {x}"
  by simp

lemma removeBlock_rep:
  assumes rep: "buddy_rep ht s F A" and x: "x \<in> set (F l)"
  obtains s' where "removeBlock x s = Some s'" "buddy_rep ht s' (F(l := remove1 x (F l))) (insert x A)"
    "lvl s' = lvl s" "base_address s' = base_address s"
proof -
  note D = buddy_repD [OF rep] note X = buddy_rep_free [OF rep x]
  from x obtain xs ys where F: "F l = xs @ x # ys" by (auto dest: split_list)
  have dist: "distinct (F l)" using free_listsD(2) [OF D(5)] .
  then have F': "remove1 x (F l) = xs @ ys" using F by (simp add: remove1_append)
  obtain s' where s': "removeBlock x s = Some s'" "free_lists s' (F(l := xs @ ys))" "same_but x True s s'"
    "memory_info s' = memory_info (take_info (SIZE l) s)"
    using removeBlock_lists [OF D(5) F] .
  have lv: "lvl s' = lvl s" using s'(3) by (auto simp: same_but_def)
  have "insert x A \<union> free_set (F(l := xs @ ys)) = A \<union> free_set F"
    using F free_set_at [of F l] by (auto simp: free_set_upd)
  then have "tiles ht (lvl s') (insert x A \<union> free_set (F(l := xs @ ys)))" using D(7) lv by simp
  moreover have "counters ht s' (insert x A)"
    using D(8) X(1,4) s'(4) fun_cong [OF lv] by (simp add: counters_def take_info_def)
  ultimately have "buddy_rep ht s' (F(l := xs @ ys)) (insert x A)"
    using D s'(2,3) unfolding buddy_rep_def same_but_def by auto
  then show ?thesis using that s' lv F' by (simp add: same_but_def)
qed

text \<open>The level of an entry in no list can change.\<close>

lemma free_lists_upd_level:
  assumes "free_lists s F" "\<And>l. i \<notin> set (F l)"
  shows "free_lists (upd_block i (\<lambda>b. b\<lparr>level := v\<rparr>) s) F"
proof -
  have "dll ((blocks s)(i := (blocks s i)\<lparr>level := v\<rparr>)) None (bucket s l) (F l) = dll (blocks s) None (bucket s l) (F l)" for l
    using assms(2) by (intro dll_cong) auto
  moreover have "z \<noteq> i" if "z \<in> set (F l)" for z l using that assms(2) by blast
  ultimately show ?thesis using assms(1) unfolding free_lists_def by simp
qed

lemma addBlock_rep:
  assumes rep: "buddy_rep ht s F A" and x: "x \<in> A"
  obtains s' where "addBlock x s = Some s'" "buddy_rep ht s' (F(lvl s x := x # F (lvl s x))) (A - {x})"
    "lvl s' = lvl s" "base_address s' = base_address s"
proof -
  note D = buddy_repD [OF rep] note X = buddy_rep_used [OF rep x]
  let ?l = "lvl s x"
  have l: "?l < LEVEL_LIMIT" using X(1) D(2) by simp
  obtain s' where s': "addBlock x s = Some s'" "free_lists s' (F(?l := x # F ?l))" "same_but x False s s'"
    "memory_info s' = memory_info (move_info (SIZE ?l) s)"
    using addBlock_lists [OF D(5) X(5) refl l] .
  have lv: "lvl s' = lvl s" using s'(3) by (auto simp: same_but_def)
  have "(A - {x}) \<union> free_set (F(?l := x # F ?l)) = A \<union> free_set F"
    using x free_set_at [of F ?l] by (auto simp: free_set_upd)
  then have "tiles ht (lvl s') ((A - {x}) \<union> free_set (F(?l := x # F ?l)))" using D(7) lv by simp
  moreover have "counters ht s' (A - {x})"
    using D(8) x s'(4) fun_cong [OF lv] by (simp add: counters_def move_info_def sum_diff1)
  ultimately have "buddy_rep ht s' (F(?l := x # F ?l)) (A - {x})"
    using D s'(2,3) unfolding buddy_rep_def same_but_def by auto
  then show ?thesis using that s' lv by (simp add: same_but_def)
qed


section \<open>Splitting\<close>

lemma SIZE_Suc: "SIZE (Suc l) = SIZE l + SIZE l"
  by (simp add: SIZE_def)

lemma BLOCK_LIMIT_less: "x < 2 ^ ht \<Longrightarrow> ht < LEVEL_LIMIT \<Longrightarrow> x < BLOCK_LIMIT"
proof -
  assume "x < 2 ^ ht" "ht < LEVEL_LIMIT"
  then have "(2::nat) ^ ht \<le> BLOCK_LIMIT" unfolding BLOCK_LIMIT_def by (intro power_increasing) auto
  with \<open>x < 2 ^ ht\<close> show ?thesis by simp
qed

lemma splitBlock_rep:
  assumes rep: "buddy_rep ht s F A" and x: "F (Suc l) = x # xs"
  obtains s' where "splitBlock (Suc l) s = Some s'"
    "buddy_rep ht s' (F(Suc l := xs, l := x # (x + 2 ^ l) # F l)) A" "keeps A s s'" "buddy_of l x = x + 2 ^ l"
proof -
  note D = buddy_repD [OF rep]
  have xin: "x \<in> set (F (Suc l))" using x by simp
  note X = buddy_rep_free [OF rep xin]
  let ?y = "x + 2 ^ l" and ?F1 = "F(Suc l := xs)"
  note S = tiles_split [OF D(7) _ X(1), simplified, OF disjI2, OF X(3)]
  have lt: "Suc l < LEVEL_LIMIT" "?y < BLOCK_LIMIT"
    using X(5) D(2) BLOCK_LIMIT_less [OF S(3) D(2)] by auto
  obtain s1 where s1: "removeBlock x s = Some s1" "buddy_rep ht s1 ?F1 (insert x A)"
    "lvl s1 = lvl s" "base_address s1 = base_address s"
    using removeBlock_rep [OF rep xin] x by auto
  note D1 = buddy_repD [OF s1(2)]
  have nx: "x \<notin> set (?F1 m)" for m using buddy_rep_used(5) [OF s1(2), of x m] by simp
  have ny: "?y \<notin> set (?F1 m)" "?y \<notin> A" "?y \<noteq> x" for m
    using S(2) x set_subset_Cons [of xs x] by (auto simp: free_set_def split: if_splits) (metis list.set_intros(2))
  define s2 where "s2 = upd_block x (\<lambda>b. b\<lparr>level := l\<rparr>) s1"
  define s3 where "s3 = upd_block ?y (\<lambda>b. b\<lparr>level := l\<rparr>) s2"
  have fl3: "free_lists s3 ?F1"
    unfolding s3_def s2_def by (intro free_lists_upd_level D1(5) nx ny)
  have lv3: "lvl s3 = (lvl s)(x := l, ?y := l)"
    using ny(3) fun_cong [OF s1(3)] by (auto simp: s3_def s2_def)
  obtain s4 where s4: "addBlock ?y s3 = Some s4" "free_lists s4 (?F1(l := ?y # ?F1 l))" "same_but ?y False s3 s4"
    "memory_info s4 = memory_info (move_info (SIZE l) s3)"
    using addBlock_lists [OF fl3 ny(1) fun_cong [OF lv3, of ?y, simplified] Suc_lessD [OF lt(1)]] .
  have nx4: "x \<notin> set ((?F1(l := ?y # ?F1 l)) m)" for m using nx [of m] nx [of l] ny(3) by (auto split: if_splits)
  have "lvl s4 x = l" using s4(3) fun_cong [OF lv3, of x] by (simp add: same_but_def)
  from addBlock_lists [OF s4(2) nx4 this Suc_lessD [OF lt(1)]] obtain s5
    where s5': "addBlock x s4 = Some s5" "same_but x False s4 s5"
      "free_lists s5 ((?F1(l := ?y # ?F1 l))(l := x # (?F1(l := ?y # ?F1 l)) l))"
      "memory_info s5 = memory_info (move_info (SIZE l) s4)" .
  have "(?F1(l := ?y # ?F1 l))(l := x # (?F1(l := ?y # ?F1 l)) l) = ?F1(l := x # ?y # F l)" by simp
  note s5 = s5'(1) s5'(3) [unfolded this] s5'(2,4)
  have lv5: "lvl s5 = (lvl s)(x := l, ?y := l)"
    using s5(3) s4(3) lv3 by (simp add: same_but_def)
  have "removeBlock x s = Some s1" "getBuddy s2 x = Some ?y" "bucket s (Suc l) = Some x"
    using s1 S(1) lt free_lists_bucket [OF D(5) lt(1)] x by (auto simp: getBuddy_def s2_def)
  moreover have "s3 = s1\<lparr>blocks := (blocks s1)(x := (blocks s1 x)\<lparr>level := l\<rparr>, ?y := (blocks s1 ?y)\<lparr>level := l\<rparr>)\<rparr>"
    using ny(3) by (simp add: s3_def s2_def)
  ultimately have run: "splitBlock (Suc l) s = Some s5"
    using lt s4(1) s5(1) ny(3) by (simp add: splitBlock_def s2_def [symmetric])
  have H: "A \<union> free_set (?F1(l := x # ?y # F l)) = insert ?y (A \<union> free_set F)"
    using x free_set_at [of F "Suc l"] free_set_at [of ?F1 l] by (auto simp: free_set_upd [of ?F1 l] free_set_upd)
  have al: "allocated (blocks s5 z)" if "z \<in> A" for z
    using that D1(6) [of z] X(4) ny(2) s5(3) s4(3) by (auto simp: same_but_def s3_def s2_def)
  have lvA: "lvl s5 z = lvl s z" if "z \<in> A" for z
    using that X(4) ny(2) fun_cong [OF lv5, of z] by auto
  have "(\<Sum>z\<in>A. SIZE (lvl s5 z)) = (\<Sum>z\<in>A. SIZE (lvl s z))" using lvA by simp
  then have "counters ht s5 A"
    using D(8) D1(8) s5(4) s4(4) X(4) X(1) fun_cong [OF s1(3)] D(9)
    by (simp add: counters_def s3_def s2_def move_info_def SIZE_Suc)
  moreover have "levels_count s5 = ht + 1" "blocks_count s5 = 2 ^ ht" "base_address s5 = base_address s"
    using D1(3,4) s1(4) s5(3) s4(3) by (auto simp: same_but_def s3_def s2_def)
  ultimately have "buddy_rep ht s5 (?F1(l := x # ?y # F l)) A"
    using D(1,2) s5(2) al S(4) H lv5 unfolding buddy_rep_def by simp
  moreover have "keeps A s s5" using lvA \<open>base_address s5 = base_address s\<close> by (simp add: keeps_def)
  ultimately show ?thesis using run S(1) that by (simp add: fun_upd_twist)
qed


text \<open>\<open>malloc\<close> splits down from level \<open>m\<close>; the first block of the list is split next.\<close>

lemma coalesced_but_split:
  assumes c: "coalesced_but x ht F" and x: "F (Suc l) = x # xs" and d: "buddy_of l x = x + 2 ^ l" "2 ^ l dvd x"
    and al: "\<And>z. z \<in> set (F l) \<Longrightarrow> 2 ^ l dvd z"
  shows "coalesced_but x ht (F(Suc l := xs, l := x # (x + 2 ^ l) # F l))"
  unfolding coalesced_but_def
proof (intro allI ballI impI notI)
  fix k z assume k: "k < ht" and z: "z \<in> set ((F(Suc l := xs, l := x # (x + 2 ^ l) # F l)) k)"
    and ne: "z \<noteq> x" "buddy_of k z \<noteq> x" and b: "buddy_of k z \<in> set ((F(Suc l := xs, l := x # (x + 2 ^ l) # F l)) k)"
  have by1: "buddy_of l (x + 2 ^ l) = x" using buddy_of_props(2) [OF d(2)] d(1) by simp
  show False
  proof (cases "k = l")
    case True
    have zF: "z \<in> set (F l)" using z ne by1 True by auto
    show False
    proof (cases "buddy_of l z = x + 2 ^ l")
      case True
      then have "z = x" using buddy_of_props(2) [OF al [OF zF]] by1 by simp
      then show False using ne by simp
    next
      case False
      then show False using c zF k ne b \<open>k = l\<close> by (auto simp: coalesced_but_def)
    qed
  next
    case False
    then have "z \<in> set (F k)" "buddy_of k z \<in> set (F k)" using z b x by (auto split: if_splits)
    then show False using c k ne by (auto simp: coalesced_but_def)
  qed
qed


lemma split_down_rep:
  assumes "buddy_rep ht s F A" "F m \<noteq> []" "l \<le> m" "coalesced_but (hd (F m)) ht F"
  shows "\<exists>s' F'. split_down m l s = Some s' \<and> buddy_rep ht s' F' A \<and> F' l \<noteq> [] \<and>
    coalesced_but (hd (F' l)) ht F' \<and> keeps A s s'"
  using assms
proof (induction m l s arbitrary: F rule: split_down.induct)
  case (1 m l s)
  show ?case
  proof (cases "m > l")
    case False
    then have ml: "m = l" using 1(4) by simp
    have "split_down m l s = Some s" unfolding ml by (subst split_down.simps) simp
    then show ?thesis using 1 ml by auto
  next
    case True
    then obtain k where k: "m = Suc k" "l \<le> k" by (cases m) auto
    obtain x xs where F: "F (Suc k) = x # xs" using 1(3) k by (cases "F m") auto
    let ?F = "F(Suc k := xs, k := x # (x + 2 ^ k) # F k)"
    obtain s1 where s1: "splitBlock (Suc k) s = Some s1" "buddy_rep ht s1 ?F A" "keeps A s s1" "buddy_of k x = x + 2 ^ k"
      using splitBlock_rep [OF 1(2) F] .
    have d: "2 ^ k dvd x" using buddy_rep_free(7) [OF 1(2), of x "Suc k"] F pow_dvd_mono [of k "Suc k" x] by simp
    have "coalesced_but x ht ?F"
      using 1(5) k F buddy_rep_free(7) [OF 1(2)] by (intro coalesced_but_split s1(4) d) auto
    moreover have "hd (?F k) = x" "?F k \<noteq> []" by simp_all
    ultimately have "\<exists>s' F'. split_down (m - 1) l s1 = Some s' \<and> buddy_rep ht s' F' A \<and> F' l \<noteq> [] \<and>
        coalesced_but (hd (F' l)) ht F' \<and> keeps A s1 s'"
      using 1(1) [OF True, of s1 ?F] s1(1,2) k(2) unfolding k(1) diff_Suc_1 by metis
    then obtain s' F' where s': "split_down k l s1 = Some s'" "buddy_rep ht s' F' A" "F' l \<noteq> []"
      "coalesced_but (hd (F' l)) ht F'" "keeps A s1 s'" unfolding k(1) diff_Suc_1 by blast
    have "split_down m l s = Some s'"
      using s1(1) s'(1) True unfolding k(1) by (subst split_down.simps) simp
    moreover have "keeps A s s'" using s1(3) s'(5) by (rule keeps_trans)
    ultimately show ?thesis using s' by blast
  qed
qed

text \<open>Taking the exceptional block away leaves no two free buddies.\<close>

lemma coalesced_remove:
  assumes "coalesced_but x ht F" "x \<in> set (F l)" "buddy_rep ht s F A"
  shows "coalesced ht (F(l := remove1 x (F l)))"
  unfolding coalesced_def
proof (intro allI ballI impI notI)
  fix k z assume k: "k < ht" and z: "z \<in> set ((F(l := remove1 x (F l))) k)"
    and b: "buddy_of k z \<in> set ((F(l := remove1 x (F l))) k)"
  note fl = buddy_repD(5) [OF assms(3)]
  have "k \<noteq> l \<Longrightarrow> x \<notin> set (F k)" by (metis assms(2) free_listsD(3) fl)
  then have sub: "set ((F(l := remove1 x (F l))) k) \<subseteq> set (F k) - {x}"
    using free_listsD(2) [OF fl] by auto
  then show False using assms(1) k z b unfolding coalesced_but_def by blast
qed

lemma coalesced_but_all: "coalesced ht F \<Longrightarrow> coalesced_but x ht F"
  by (auto simp: coalesced_def coalesced_but_def)

section \<open>Merging\<close>

lemma mergeBuddy_rep:
  assumes "buddy_rep ht s F A" "i \<in> set (F l)" "coalesced_but i ht F"
  shows "\<exists>s' F'. mergeBuddy i s = Some s' \<and> buddy_rep ht s' F' A \<and> coalesced ht F' \<and> keeps A s s'"
  using assms
proof (induction "ht - l" arbitrary: l i s F rule: less_induct)
  case less
  note rep = less.prems(1) note D = buddy_repD [OF rep] note I = buddy_rep_free [OF rep less.prems(2)]
  let ?j = "buddy_of l i"
  have done_: ?case if "?j \<notin> set (F l)" "mergeBuddy i s = Some s"
  proof -
    have "coalesced ht F"
      unfolding coalesced_def
    proof (intro allI ballI impI notI)
      fix k z assume k: "k < ht" "z \<in> set (F k)" "buddy_of k z \<in> set (F k)"
      note d = buddy_rep_free(7) [OF rep k(2)] buddy_of_props(2) [OF buddy_rep_free(7) [OF rep k(2)]]
      have "z = i \<or> buddy_of k z = i" using less.prems(3) k by (auto simp: coalesced_but_def)
      then show False
      proof
        assume "z = i"
        then show False using k that(1) I(1) free_listsD(3) [OF D(5), of i k] by simp
      next
        assume b: "buddy_of k z = i"
        then have "k = l" using k(3) I(1) free_listsD(3) [OF D(5), of i k] by simp
        then show False using b d k(2) that(1) by auto
      qed
    qed
    then show ?thesis using rep that by auto
  qed
  show ?case
  proof (cases "l = ht")
    case True
    have "set (F ht) = {} \<or> l = ht" by (simp add: True)
    have "mergeBuddy i s = Some s" using True D(3) I(1) by (simp add: mergeBuddy.simps)
    moreover have "?j \<notin> set (F l)"
    proof
      assume "?j \<in> set (F l)"
      then have "?j < 2 ^ ht" "2 ^ ht dvd ?j" using buddy_rep_free(6,7) [OF rep, of ?j l] True by auto
      moreover have "i = 0" using I(6,7) True by (auto dest: dvd_imp_le)
      ultimately have "?j = 0" by (auto dest: dvd_imp_le)
      then show False using \<open>i = 0\<close> buddy_of_props(3) [OF I(7)] by simp
    qed
    ultimately show ?thesis using done_ by blast
  next
    case False
    then have l: "l < ht" using I(5) by simp
    have "i \<in> A \<union> free_set F" using I(3) by simp
    note T = tiles_buddy [OF D(7) this] 
    have j: "?j \<in> A \<union> free_set F" "lvl s ?j \<le> l" using T l I(1) by auto
    have gb: "getBuddy s i = Some ?j"
      using BLOCK_LIMIT_less [OF tilesD(3) [OF D(7) j(1)] D(2)] I(1) by (simp add: getBuddy_def)
    show ?thesis
    proof (cases "lvl s ?j = l \<and> \<not> allocated (blocks s ?j)")
      case False
      then have "?j \<notin> set (F l)" using free_listsD(3,4) [OF D(5)] by blast
      moreover have "mergeBuddy i s = Some s"
        using False l I(1,2) D(3) gb by (auto simp: mergeBuddy.simps [of i s])
      ultimately show ?thesis using done_ by blast
    next
      case True
      then have jF: "?j \<in> set (F l)" using j(1) D(6) free_listsD(3) [OF D(5)] by (auto simp: free_set_def)
      note b = buddy_of_props [OF I(7)]
      let ?m = "min i ?j"
      obtain s1 where s1: "removeBlock i s = Some s1" "buddy_rep ht s1 (F(l := remove1 i (F l))) (insert i A)"
        "lvl s1 = lvl s" "base_address s1 = base_address s"
        using removeBlock_rep [OF rep less.prems(2)] .
      have dF: "distinct (F l)" using free_listsD(2) [OF D(5)] .
      have "?j \<in> set ((F(l := remove1 i (F l))) l)" using jF b(3) dF by simp
      from removeBlock_rep [OF s1(2) this] obtain s2 where s2: "removeBlock ?j s1 = Some s2"
        "buddy_rep ht s2 (F(l := remove1 ?j (remove1 i (F l)))) (insert ?j (insert i A))"
        "lvl s2 = lvl s" "base_address s2 = base_address s"
        unfolding s1(3,4) fun_upd_same fun_upd_upd .
      let ?F2 = "F(l := remove1 ?j (remove1 i (F l)))"
      note D2 = buddy_repD [OF s2(2)]
      let ?M = "max i ?j" let ?F4 = "?F2(Suc l := ?m # ?F2 (Suc l))"
      have sl: "Suc l < LEVEL_LIMIT" using l D(2) by simp
      have im: "?m \<in> insert ?j (insert i A)" "?M \<in> insert ?j (insert i A)" by (auto simp: min_def max_def)
      have jX: "?j \<notin> A" "?j \<noteq> i" "?m \<noteq> ?M" using buddy_rep_free(4) [OF rep jF] b(3) by (auto simp: min_def max_def)
      have mM: "?m \<notin> A" "?M \<notin> A" "lvl s2 ?m = l" "lvl s2 ?M = l"
        using I(1,4) jX(1) True fun_cong [OF s2(3)] by (auto simp: min_def max_def)
      have nm: "?m \<notin> set (?F2 k)" "?M \<notin> free_set ?F2" for k
        using buddy_rep_used(4,5) [OF s2(2)] im by blast+
      define s3 where "s3 = upd_block ?m (\<lambda>b. b\<lparr>level := level b + 1\<rparr>) s2"
      have s3': "s3 = upd_block ?m (\<lambda>b. b\<lparr>level := Suc l\<rparr>) s2" using mM(3) by (simp add: s3_def)
      have fl3: "free_lists s3 ?F2" unfolding s3' by (intro free_lists_upd_level D2(5) nm(1))
      have lv3: "lvl s3 = (lvl s2)(?m := Suc l)" by (auto simp: s3')
      obtain s4 where s4: "addBlock ?m s3 = Some s4" "free_lists s4 ?F4" "same_but ?m False s3 s4"
        "memory_info s4 = memory_info (move_info (SIZE (Suc l)) s3)"
        using addBlock_lists [OF fl3 nm(1) fun_cong [OF lv3, of ?m, unfolded fun_upd_same] sl] .
      have lv4: "lvl s4 = (lvl s2)(?m := Suc l)" using s4(3) lv3 by (simp add: same_but_def)
      have lvA: "lvl s4 z = lvl s z" if "z \<in> A" for z
        using that mM(1) fun_cong [OF lv4, of z] fun_cong [OF s2(3), of z] by auto
      have M: "?M = ?m + 2 ^ l" by (rule b(5))
      have "tiles ht ((lvl s2)(?m := Suc l)) ((insert ?j (insert i A) \<union> free_set ?F2) - {?M})"
        unfolding M using im mM M b(4) l by (intro tiles_merge [OF D2(7)]) auto
      moreover have "(insert ?j (insert i A) \<union> free_set ?F2) - {?M} = A \<union> free_set ?F4"
        using nm(2) mM(2) free_set_at [of ?F2 "Suc l"] jX(3)
        by (auto simp: free_set_upd [of ?F2 "Suc l"] min_def max_def)
      moreover have "counters ht s4 A"
      proof -
        have "(\<Sum>z\<in>A. SIZE (lvl s4 z)) = (\<Sum>z\<in>A. SIZE (lvl s z))" using lvA by simp
        then show ?thesis using D2(8) s4(4) I(1,4) jX(1,2) True D(9) fun_cong [OF s2(3)]
          by (simp add: counters_def s3_def move_info_def SIZE_Suc)
      qed
      moreover have "levels_count s4 = ht + 1" "blocks_count s4 = 2 ^ ht" "base_address s4 = base_address s"
        using D2(3,4) s2(4) s4(3) by (auto simp: same_but_def s3_def)
      moreover have "allocated (blocks s4 z)" if "z \<in> A" for z
        using that D2(6) [of z] mM(1) s4(3) by (auto simp: same_but_def s3_def)
      ultimately have rep4: "buddy_rep ht s4 ?F4 A"
        using D(1,2) s4(2) lv4 unfolding buddy_rep_def by simp
      have kp: "keeps A s s4" using lvA \<open>base_address s4 = base_address s\<close> by (simp add: keeps_def)
      have cb: "coalesced_but ?m ht ?F4"
        unfolding coalesced_but_def
      proof (intro allI ballI impI notI)
        fix k z assume k: "k < ht" "z \<in> set (?F4 k)" "z \<noteq> ?m" "buddy_of k z \<noteq> ?m" "buddy_of k z \<in> set (?F4 k)"
        have sub: "w \<in> set (F k) \<and> w \<noteq> i" if "w \<in> set (?F4 k)" "w \<noteq> ?m" for w
        proof -
          have "w \<in> set (?F2 k)" using that by (auto split: if_splits)
          moreover from this have "w \<noteq> i" using buddy_rep_used(5) [OF s2(2), of i k] by blast
          ultimately show ?thesis using dF by (auto split: if_splits)
        qed
        show False using sub k less.prems(3) unfolding coalesced_but_def by blast
      qed
      have "mergeBuddy i s = mergeBuddy ?m s4"
        using l I(1,2) D(3) gb True s1(1) s2(1) s4(1) by (simp add: mergeBuddy.simps [of i s] s3_def)
      moreover have "\<exists>s' F'. mergeBuddy ?m s4 = Some s' \<and> buddy_rep ht s' F' A \<and> coalesced ht F' \<and> keeps A s4 s'"
        using l by (intro less.hyps [OF _ rep4 _ cb, of "Suc l"]) auto
      ultimately show ?thesis using kp keeps_trans by metis
    qed
  qed
qed

end
