(* ===== verification/Buddy_Provider.thy ===== *)
theory Buddy_Provider
  imports Buddy_Invariant Allocator
begin

text \<open>
  The buddy manager as a provider of the allocator interface: what \<open>malloc\<close> and \<open>free\<close> do to the
  blocks in use, the pointers they stand for, and the interpretation of the locale. The manager
  is a provider of \<open>allocator\<close> only, not of \<open>checked_allocator\<close>: a stale pointer can be accepted.
\<close>

section \<open>The level of a request\<close>

lemma log2n_bounds: "n < 2 ^ Suc (log2n n)" "n \<noteq> 0 \<Longrightarrow> 2 ^ log2n n \<le> n"
proof (induction n rule: log2n.induct)
  case (1 n)
  {
    case 1
    show ?case
    proof (cases "n div 2 = 0")
      case True
      then show ?thesis by (subst log2n.simps) simp
    next
      case False
      then have "log2n n = Suc (log2n (n div 2))" by (subst log2n.simps) simp
      moreover have "n div 2 < 2 ^ Suc (log2n (n div 2))" using "1.IH"(1) False by blast
      moreover from this have "n < 2 * (2 * 2 ^ log2n (n div 2))" unfolding power_Suc by linarith
      ultimately show ?thesis by simp
    qed
  next
    case 2
    show ?case using "1.IH"(2) 2 by (subst log2n.simps) auto
  }
qed

lemma SIZE_mono: "k \<le> l \<Longrightarrow> SIZE k \<le> SIZE l"
  by (simp add: SIZE_def)

lemma SIZE_strict: "k < l \<Longrightarrow> SIZE k < SIZE l"
  by (simp add: SIZE_def BLOCK_UNIT_def)

text \<open>It is the least level whose blocks are large enough.\<close>

lemma request_level_iff: "request_level sz \<le> k \<longleftrightarrow> unat sz \<le> SIZE k"
proof -
  define q l where "q = unat sz div BLOCK_UNIT" and "l = log2n q"
  have r: "request_level sz = (if SIZE l < unat sz then l + 1 else l)"
    by (simp add: request_level_def q_def l_def)
  have "unat sz < Suc q * BLOCK_UNIT" unfolding q_def BLOCK_UNIT_def by (simp add: dividend_less_div_times)
  also have "\<dots> \<le> SIZE (Suc l)" using log2n_bounds(1) [of q] by (simp add: SIZE_def l_def BLOCK_UNIT_def)
  finally have up: "unat sz < SIZE (Suc l)" .
  show ?thesis
  proof (cases "SIZE l < unat sz")
    case True
    then show ?thesis using r up SIZE_mono [of "Suc l" k] SIZE_mono [of k l] by (cases "k \<le> l") auto
  next
    case False
    have low: "l = 0 \<or> SIZE l \<le> unat sz"
    proof (cases "q = 0")
      case True
      then show ?thesis by (simp add: l_def log2n.simps [of 0])
    next
      case False
      then have "SIZE l \<le> q * BLOCK_UNIT" using log2n_bounds(2) [of q] by (simp add: SIZE_def l_def)
      also have "\<dots> \<le> unat sz" by (simp add: q_def)
      finally show ?thesis by simp
    qed
    show ?thesis using r False low SIZE_mono [of l k] SIZE_strict [of k l] by (cases "l \<le> k") auto
  qed
qed

section \<open>The operations on the invariant\<close>

lemma min_above_spec:
  assumes "free_lists s F" "levels_count s \<le> LEVEL_LIMIT" "l \<le> levels_count s"
  shows "l \<le> min_above s l \<and> min_above s l \<le> levels_count s \<and> (\<forall>k. l \<le> k \<and> k < min_above s l \<longrightarrow> F k = []) \<and>
    (min_above s l < levels_count s \<longrightarrow> F (min_above s l) \<noteq> [])"
  using assms
proof (induction s l rule: min_above.induct)
  case (1 s l)
  show ?case
  proof (cases "l < levels_count s \<and> bucket s l = None")
    case True
    then have e: "min_above s l = min_above s (l + 1)" by (simp add: min_above.simps [of s l])
    have "F l = []" using free_lists_bucket [OF 1(2), of l] True 1(3) by (auto split: if_splits)
    then show ?thesis using 1(1) [OF True 1(2,3)] True unfolding e
      by (metis Suc_eq_plus1 Suc_leD Suc_leI le_neq_implies_less)
  next
    case False
    have "min_above s l = l" by (subst min_above.simps) (use False in auto)
    then show ?thesis using False free_lists_bucket [OF 1(2), of l] 1(3,4) by (auto split: if_splits)
  qed
qed

lemma buddy_malloc_rep:
  assumes rep: "buddy_rep ht s F A" and co: "coalesced ht F" and n: "unat n \<le> SIZE ht"
  obtains "buddy_malloc s n = Some (s, 0)" "\<And>k. request_level n \<le> k \<Longrightarrow> F k = []"
  | s' F' x where "buddy_malloc s n = Some (s', getAddress s x)" "x \<notin> A" "buddy_rep ht s' F' (insert x A)"
    "coalesced ht F'" "keeps A s s'" "lvl s' x = request_level n"
proof -
  note D = buddy_repD [OF rep]
  define l where "l = request_level n"
  have "l \<le> ht" using n by (simp add: l_def request_level_iff)
  then have l: "l \<le> ht" "l < LEVEL_LIMIT" using D(2) by auto
  define take where "take = (\<lambda>s. case bucket s l of None \<Rightarrow> None
    | Some i \<Rightarrow> map_option (\<lambda>s. (s, getAddress s i)) (removeBlock i s))"
  have fin: "\<exists>s' F' x. take s1 = Some (s', getAddress s x) \<and> x \<notin> A \<and> buddy_rep ht s' F' (insert x A) \<and>
      coalesced ht F' \<and> keeps A s s' \<and> lvl s' x = l"
    if r: "buddy_rep ht s1 F1 A" "F1 l \<noteq> []" "coalesced_but (hd (F1 l)) ht F1" "keeps A s s1" for s1 F1
  proof -
    have x: "hd (F1 l) \<in> set (F1 l)" using r(2) by simp
    obtain s' where s': "removeBlock (hd (F1 l)) s1 = Some s'"
      "buddy_rep ht s' (F1(l := remove1 (hd (F1 l)) (F1 l))) (insert (hd (F1 l)) A)"
      "lvl s' = lvl s1" "base_address s' = base_address s1"
      using removeBlock_rep [OF r(1) x] .
    have "take s1 = Some (s', getAddress s (hd (F1 l)))"
      using free_lists_bucket [OF buddy_repD(5) [OF r(1)] l(2)] r(2,4) s'(1,4)
      by (simp add: take_def getAddress_def keeps_def)
    moreover have "coalesced ht (F1(l := remove1 (hd (F1 l)) (F1 l)))"
      by (rule coalesced_remove [OF r(3) x r(1)])
    moreover have "keeps A s s'" using r(4) s'(4) fun_cong [OF s'(3)] by (simp add: keeps_def)
    moreover have "lvl s' (hd (F1 l)) = l" "hd (F1 l) \<notin> A"
      using buddy_rep_free(1,4) [OF r(1) x] fun_cong [OF s'(3)] by auto
    ultimately show ?thesis using s'(2) by blast
  qed
  have bk: "bucket s l = None \<longleftrightarrow> F l = []" using free_lists_bucket [OF D(5) l(2)] by simp
  have run: "buddy_malloc s n = (if F l \<noteq> [] then take s else if min_above s (l + 1) = levels_count s then Some (s, 0)
      else Option.bind (split_down (min_above s (l + 1)) l s) take)"
    using l(2) bk unfolding buddy_malloc_def l_def [symmetric] Let_def take_def by simp
  show thesis
  proof (cases "F l = []")
    case False
    from fin [OF rep False coalesced_but_all [OF co] keeps_refl] show thesis
      using that(2) run False unfolding l_def by (metis (no_types, lifting))
  next
    case True
    define m where "m = min_above s (l + 1)"
    have lc: "levels_count s \<le> LEVEL_LIMIT" "l + 1 \<le> levels_count s" using D(2,3) l(1) by auto
    note m = min_above_spec [OF D(5) lc, folded m_def]
    show thesis
    proof (cases "m = levels_count s")
      case True
      have none: "F k = []" if "l \<le> k" for k
      proof (cases "k < levels_count s")
        case kl: True
        have "k = l \<or> l + 1 \<le> k" using that by linarith
        then show ?thesis using m kl True \<open>F l = []\<close> by metis
      next
        case False
        then have "set (F k) = {}" using buddy_rep_free(5) [OF rep, of _ k] D(3) by fastforce
        then show ?thesis by simp
      qed
      show thesis
        by (rule that(1)) (use run \<open>F l = []\<close> True none in \<open>auto simp: m_def l_def\<close>)
    next
      case False
      then have Fm: "F m \<noteq> []" using m by simp
      have "l \<le> m" using m by simp
      from split_down_rep [OF rep Fm this coalesced_but_all [OF co]] obtain s1 F1
        where s1: "split_down m l s = Some s1" "buddy_rep ht s1 F1 A" "F1 l \<noteq> []"
          "coalesced_but (hd (F1 l)) ht F1" "keeps A s s1" by blast
      have "buddy_malloc s n = take s1" using run \<open>F l = []\<close> False s1(1) by (simp add: m_def)
      with fin [OF s1(2-5)] show thesis using that(2) unfolding l_def by (metis (no_types, lifting))
    qed
  qed
qed

section \<open>Addresses\<close>

text \<open>The arena lies in the address space, aligned and not at NULL.\<close>

definition arena_ok :: "nat \<Rightarrow> u64 \<Rightarrow> bool" where
  "arena_ok ht base \<longleftrightarrow> base \<noteq> 0 \<and> unat base mod 8 = 0 \<and> unat base + SIZE ht \<le> 2 ^ 64"

lemma getAddress_unat:
  assumes "arena_ok ht (base_address s)" "x < 2 ^ ht"
  shows "unat (getAddress s x) = unat (base_address s) + x * BLOCK_UNIT"
    "unat (getAddress s x - base_address s) = x * BLOCK_UNIT" "getAddress s x \<noteq> 0"
proof -
  have "Suc x * BLOCK_UNIT \<le> SIZE ht" using assms(2) unfolding SIZE_def by (intro mult_le_mono1) simp
  then have lt: "unat (base_address s) + x * BLOCK_UNIT < 2 ^ 64" "x * BLOCK_UNIT < 2 ^ 64"
    using assms(1) by (auto simp: arena_ok_def BLOCK_UNIT_def)
  have u: "unat (of_nat (x * BLOCK_UNIT) :: u64) = x * BLOCK_UNIT" using lt(2) by (simp add: unat_of_nat del: of_nat_mult)
  show a: "unat (getAddress s x) = unat (base_address s) + x * BLOCK_UNIT"
    unfolding getAddress_def using u lt(1) by (subst unat_plus) auto
  show "unat (getAddress s x - base_address s) = x * BLOCK_UNIT" unfolding getAddress_def using u by simp
  show "getAddress s x \<noteq> 0" using a assms(1) by (auto simp: arena_ok_def unat_eq_zero)
qed

definition block_index :: "buddy_state \<Rightarrow> u64 \<Rightarrow> nat" where
  "block_index s p = unat (p - base_address s) div BLOCK_UNIT"

lemma block_index_address:
  assumes "arena_ok ht (base_address s)" "x < 2 ^ ht" shows "block_index s (getAddress s x) = x"
  using getAddress_unat(2) [OF assms] by (simp add: block_index_def BLOCK_UNIT_def)

text \<open>The pointers in use, with the size of their block.\<close>

definition buddy_live :: "buddy_state \<Rightarrow> u64 \<Rightarrow> nat option" where
  "buddy_live s p =
     (if \<exists>ht F A. buddy_rep ht s F A \<and> p \<in> getAddress s ` A then Some (SIZE (lvl s (block_index s p))) else None)"

definition buddy_inv :: "nat \<Rightarrow> u64 \<Rightarrow> buddy_state \<Rightarrow> bool" where
  "buddy_inv ht base s \<longleftrightarrow>
     arena_ok ht base \<and> base_address s = base \<and> (\<exists>F A. buddy_rep ht s F A \<and> coalesced ht F)"

lemma buddy_live_rep:
  assumes "buddy_rep ht s F A"
  shows "buddy_live s p = (if p \<in> getAddress s ` A then Some (SIZE (lvl s (block_index s p))) else None)"
proof -
  have "(\<exists>ht F A. buddy_rep ht s F A \<and> p \<in> getAddress s ` A) \<longleftrightarrow> p \<in> getAddress s ` A"
    using buddy_rep_unique(3) [OF assms] assms by blast
  then show ?thesis by (simp add: buddy_live_def)
qed

lemma buddy_live_block:
  assumes "buddy_rep ht s F A" "arena_ok ht (base_address s)" "x \<in> A"
  shows "buddy_live s (getAddress s x) = Some (SIZE (lvl s x))"
  using buddy_live_rep [OF assms(1)] block_index_address [OF assms(2) buddy_rep_used(2) [OF assms(1,3)]] assms(3) by simp

lemma buddy_live_Some:
  assumes "buddy_rep ht s F A" "arena_ok ht (base_address s)" "buddy_live s p = Some c"
  obtains x where "x \<in> A" "p = getAddress s x" "c = SIZE (lvl s x)"
proof -
  from assms(3) obtain x where x: "x \<in> A" "p = getAddress s x"
    using buddy_live_rep [OF assms(1), of p] by (auto split: if_splits)
  with buddy_live_block [OF assms(1,2) x(1)] assms(3) that show thesis by simp
qed

text \<open>Two states whose blocks in use differ in one block.\<close>

lemma buddy_live_insert:
  assumes r: "buddy_rep ht s F A" and r': "buddy_rep ht s' F' (insert x A)" and x: "x \<notin> A" and k: "keeps A s s'"
    and ok: "arena_ok ht (base_address s)"
  shows "buddy_live s (getAddress s x) = None"
    "buddy_live s' = (buddy_live s)(getAddress s x \<mapsto> SIZE (lvl s' x))"
proof -
  have b: "base_address s' = base_address s" "getAddress s' = getAddress s"
    using k by (auto simp: keeps_def getAddress_def fun_eq_iff)
  have inj: "getAddress s y = getAddress s z \<longleftrightarrow> y = z" if "y \<in> insert x A" "z \<in> insert x A" for y z
    using that block_index_address [OF ok] buddy_rep_used(2) [OF r'] by metis
  show "buddy_live s (getAddress s x) = None"
    using buddy_live_rep [OF r] inj x by auto
  show "buddy_live s' = (buddy_live s)(getAddress s x \<mapsto> SIZE (lvl s' x))"
  proof
    fix p
    show "buddy_live s' p = ((buddy_live s)(getAddress s x \<mapsto> SIZE (lvl s' x))) p"
    proof (cases "p \<in> getAddress s ` insert x A")
      case True
      then obtain y where y: "y \<in> insert x A" "p = getAddress s y" by blast
      then have "buddy_live s' p = Some (SIZE (lvl s' y))"
        using buddy_live_block [OF r' _ y(1)] ok b by simp
      moreover have "buddy_live s p = Some (SIZE (lvl s y)) \<and> lvl s' y = lvl s y" if "y \<noteq> x"
        using buddy_live_block [OF r ok, of y] y that k by (auto simp: keeps_def)
      ultimately show ?thesis using inj y by auto
    next
      case False
      then show ?thesis using buddy_live_rep [OF r] buddy_live_rep [OF r'] b(2) by auto
    qed
  qed
qed

section \<open>Freeing\<close>

lemma buddy_free_rep:
  assumes rep: "buddy_rep ht s F A" and co: "coalesced ht F" and ok: "arena_ok ht (base_address s)" and x: "x \<in> A"
  obtains s' F' where "buddy_free s (getAddress s x) = Some s'" "buddy_rep ht s' F' (A - {x})" "coalesced ht F'"
    "keeps (A - {x}) s s'"
proof -
  note D = buddy_repD [OF rep] note X = buddy_rep_used [OF rep x]
  note a = getAddress_unat [OF ok X(2)]
  let ?F = "F(lvl s x := x # F (lvl s x))"
  obtain s1 where s1: "addBlock x s = Some s1" "buddy_rep ht s1 ?F (A - {x})" "lvl s1 = lvl s"
    "base_address s1 = base_address s"
    using addBlock_rep [OF rep x] .
  have "coalesced_but x ht ?F"
    using co unfolding coalesced_but_def coalesced_def by (auto split: if_splits)
  from mergeBuddy_rep [OF s1(2) _ this, of "lvl s x"] obtain s' F'
    where s': "mergeBuddy x s1 = Some s'" "buddy_rep ht s' F' (A - {x})" "coalesced ht F'" "keeps (A - {x}) s1 s'"
    by auto
  have "buddy_free s (getAddress s x) = Some s'"
    using a(2) X(2) D(4) D(6) [OF x] s1(1) s'(1) by (simp add: buddy_free_def Let_def BLOCK_UNIT_def)
  moreover have "keeps (A - {x}) s s'" using s'(4) s1(4) fun_cong [OF s1(3)] by (simp add: keeps_def)
  ultimately show thesis using that s'(2,3) by blast
qed

text \<open>A free arena is one block.\<close>

lemma coalesced_empty:
  assumes rep: "buddy_rep ht s F {}" and co: "coalesced ht F"
  shows "F = (\<lambda>l. if l = ht then [0] else [])"
proof -
  note D = buddy_repD [OF rep]
  have t: "tiles ht (lvl s) (free_set F)" using D(7) by simp
  have low: "F l = []" if "l < ht" for l
    using that
  proof (induction l rule: less_induct)
    case (less l)
    show ?case
    proof (rule ccontr)
      assume "F l \<noteq> []"
      then obtain x where x: "x \<in> set (F l)" by (cases "F l") auto
      note X = buddy_rep_free [OF rep x]
      from tiles_buddy [OF t X(3)] X(1) less.prems
      have b: "buddy_of l x \<in> free_set F" "lvl s (buddy_of l x) \<le> l" by auto
      then obtain k where k: "buddy_of l x \<in> set (F k)" by (auto simp: free_set_def)
      then have "k \<le> l" using buddy_rep_free(1) [OF rep k] b(2) by simp
      moreover have "k \<noteq> l" using co k x less.prems by (auto simp: coalesced_def)
      ultimately show False using less.IH [of k] k less.prems by auto
    qed
  qed
  have high: "F l = []" if "l > ht" for l
    using that buddy_rep_free(5) [OF rep, of _ l] by (cases "F l") fastforce+
  have z: "x = 0" if "x \<in> set (F ht)" for x
    using buddy_rep_free(6,7) [OF rep that] by (auto dest: dvd_imp_le)
  obtain x where x: "x \<in> free_set F" using tilesD(4) [OF t, of 0] by auto
  then obtain l where "x \<in> set (F l)" by (auto simp: free_set_def)
  then have "x \<in> set (F ht)" using low high by (cases l ht rule: linorder_cases) auto
  then have "set (F ht) = {0}" using z by auto
  then have "F ht = [0]" using free_listsD(2) [OF D(5), of ht]
    by (metis List.finite_set distinct_card card_1_singleton_iff length_0_conv length_Suc_conv list.set_intros(1)
        One_nat_def is_singletonI is_singleton_altdef list.simps(15) singletonD)
  then show ?thesis using low high by (auto simp: fun_eq_iff not_less_iff_gr_or_eq) (metis linorder_neqE_nat)
qed

section \<open>The provider of the allocator interface\<close>

interpretation bd: allocator buddy_malloc buddy_free "buddy_inv ht base" buddy_live "SIZE ht"
  for ht base
proof (unfold_locales, goal_cases)
  case (1 s n)
  then obtain F A where r: "buddy_rep ht s F A" "coalesced ht F" by (auto simp: buddy_inv_def)
  show ?case by (rule buddy_malloc_rep [OF r 1(2)]) auto
next
  case (2 s n s' p)
  then obtain F A where r: "buddy_rep ht s F A" "coalesced ht F" by (auto simp: buddy_inv_def)
  show ?case by (rule buddy_malloc_rep [OF r 2(2)]) (use 2 in \<open>auto simp: buddy_inv_def keeps_def\<close>)
next
  case (3 s n s')
  then obtain F A where r: "buddy_rep ht s F A" "coalesced ht F" and ok: "arena_ok ht (base_address s)"
    by (auto simp: buddy_inv_def)
  show ?case
  proof (rule buddy_malloc_rep [OF r 3(2)])
    fix t G x assume t: "buddy_malloc s n = Some (t, getAddress s x)" "buddy_rep ht t G (insert x A)"
    have "getAddress s x \<noteq> 0" using getAddress_unat(3) [OF ok] buddy_rep_used(2) [OF t(2)] by blast
    then show ?case using t(1) 3(3) by simp
  qed (use 3 in auto)
next
  case (4 s n s' p)
  then obtain F A where r: "buddy_rep ht s F A" "coalesced ht F" and ok: "arena_ok ht (base_address s)"
    by (auto simp: buddy_inv_def)
  show ?case
  proof (rule buddy_malloc_rep [OF r 4(2)])
    fix t G x assume t: "buddy_malloc s n = Some (t, getAddress s x)" "x \<notin> A" "buddy_rep ht t G (insert x A)"
      "keeps A s t" "lvl t x = request_level n"
    have "unat n \<le> SIZE (lvl t x)" using t(5) request_level_iff [of n "lvl t x"] by simp
    then show ?case using buddy_live_insert [OF r(1) t(3,2,4) ok] t(1) 4(3) by auto
  qed (use 4 in auto)
next
  case (5 s p c)
  then obtain F A where r: "buddy_rep ht s F A" "coalesced ht F" and ok: "arena_ok ht (base_address s)"
    by (auto simp: buddy_inv_def)
  obtain x where x: "x \<in> A" "p = getAddress s x" using buddy_live_Some [OF r(1) ok 5(2)] .
  obtain s' G where s': "buddy_free s p = Some s'" "buddy_rep ht s' G (A - {x})" "coalesced ht G" "keeps (A - {x}) s s'"
    using buddy_free_rep [OF r ok x(1)] x(2) by metis
  have b: "base_address s' = base_address s" "getAddress s' = getAddress s"
    using s'(4) by (auto simp: keeps_def getAddress_def fun_eq_iff)
  have "buddy_live s = (buddy_live s')(p \<mapsto> SIZE (lvl s x))" "buddy_live s' p = None"
    using buddy_live_insert [OF s'(2), of s F x] r(1) x ok b s'(4) by (auto simp: insert_absorb keeps_def)
  then have "buddy_live s' = (buddy_live s)(p := None)" by (auto simp: fun_upd_idem)
  then show ?case using s' 5(1) b(1) by (auto simp: buddy_inv_def)
next
  case (6 s)
  then obtain F A where r: "buddy_rep ht s F A" and ok: "arena_ok ht (base_address s)" by (auto simp: buddy_inv_def)
  show ?case
  proof (rule ccontr)
    assume "buddy_live s 0 \<noteq> None"
    then obtain c where "buddy_live s 0 = Some c" by auto
    from buddy_live_Some [OF r ok this] getAddress_unat(3) [OF ok] buddy_rep_used(2) [OF r] show False by metis
  qed
next
  case (7 s p c q d)
  then obtain F A where r: "buddy_rep ht s F A" and ok: "arena_ok ht (base_address s)" by (auto simp: buddy_inv_def)
  obtain x y where xy: "x \<in> A" "p = getAddress s x" "c = SIZE (lvl s x)" "y \<in> A" "q = getAddress s y" "d = SIZE (lvl s y)"
    using buddy_live_Some [OF r ok 7(2)] buddy_live_Some [OF r ok 7(3)] by metis
  then have "x + 2 ^ lvl s x \<le> y \<or> y + 2 ^ lvl s y \<le> x"
    using tiles_apart [OF buddy_repD(7) [OF r], of x y] 7(4) by auto
  then show ?case using xy getAddress_unat(1) [OF ok] buddy_rep_used(2) [OF r]
    by (auto simp: SIZE_def BLOCK_UNIT_def)
qed

end
