(* ===== verification/Buddy_Properties.thy ===== *)
theory Buddy_Properties
  imports Buddy_Provider
begin

text \<open>
  The properties of the buddy manager: what a request and a release do, that any sequence of them
  is safe and leaves no fragmentation behind, and where the manager trusts its callers.
\<close>

section \<open>Initialisation\<close>

lemma IS_POW2_unat:
  assumes "IS_POW2 x" shows "unat x = 2 ^ log2n (unat x)"
proof (rule ccontr)
  let ?k = "log2n (unat x)"
  have x0: "unat x \<noteq> 0" using assms by (simp add: IS_POW2_def unat_eq_zero)
  assume "unat x \<noteq> 2 ^ ?k"
  then have b: "2 ^ ?k < unat x" "unat x < 2 ^ Suc ?k" using log2n_bounds(2) [OF x0] log2n_bounds(1) [of "unat x"] by auto
  have bit_top: "bit w ?k" if "2 ^ ?k \<le> unat w" "unat w < 2 ^ Suc ?k" for w :: u64
  proof -
    have "unat w div 2 ^ ?k = 1" using that by (intro div_nat_eqI) auto
    then have "bit (unat w) ?k" by (simp add: bit_iff_odd)
    then show ?thesis by (simp add: bit_unsigned_iff)
  qed
  have "unat (x - 1) = unat x - 1" using x0 by (subst unat_minus) auto
  then have "bit (x AND (x - 1)) ?k" using bit_top [of x] bit_top [of "x - 1"] b by (simp add: bit_and_iff)
  then show False using assms by (simp add: IS_POW2_def)
qed

lemma buddy_init_inv:
  assumes "buddy_init s0 address sz = (s, 0)" "address \<noteq> 0" "unat address + unat sz \<le> 2 ^ 64"
  obtains ht where "unat sz = SIZE ht" "buddy_inv ht address s" "buddy_live s = (\<lambda>_. None)"
proof -
  let ?q = "sz div of_nat BLOCK_UNIT" let ?ht = "log2n (unat ?q)"
  have c: "address mod 8 = 0" "sz mod of_nat BLOCK_UNIT = 0" "IS_POW2 ?q" "?ht \<noteq> 0" "?ht < LEVEL_LIMIT"
    and s: "s = \<lparr>blocks = (\<lambda>i. if i < BLOCK_LIMIT
                then \<lparr>allocated = False, level = (if i = 0 then ?ht else 0), nxt = None, prv = None\<rparr>
                else blocks s0 i),
             bucket = (\<lambda>i. if i = ?ht then Some 0 else if i < LEVEL_LIMIT then None else bucket s0 i),
             levels_count = ?ht + 1, blocks_count = 2 ^ ?ht, base_address = address,
             memory_info = \<lparr>mi_allocated = 0, mi_free = sz, mi_total = sz\<rparr>\<rparr>"
    using assms(1) by (auto simp: buddy_init_def Let_def split: if_splits)
  have u: "unat (of_nat BLOCK_UNIT :: u64) = BLOCK_UNIT" by (simp add: BLOCK_UNIT_def)
  have q: "unat ?q = unat sz div BLOCK_UNIT" "unat sz mod BLOCK_UNIT = 0"
    using arg_cong [OF c(2), of unat] by (simp_all only: unat_div unat_mod u unat_0)
  have size: "unat sz = SIZE ?ht"
    using IS_POW2_unat [OF c(3)] q unfolding SIZE_def by (metis mult.commute mult_div_mod_eq add_0_right)
  then have w: "sz = of_nat (SIZE ?ht)" by (simp flip: size)
  let ?F = "\<lambda>l. if l = ?ht then [0] else []"
  have z: "0 < BLOCK_LIMIT" by (simp add: BLOCK_LIMIT_def)
  have "free_lists s ?F" using c(5) z by (auto simp: free_lists_def s)
  moreover have "tiles ?ht (lvl s) ({} \<union> free_set ?F)"
  proof -
    have "free_set ?F = {0}" by (auto simp: free_set_def)
    then show ?thesis using tiles_init [of ?ht "lvl s"] z
      by (simp add: tiles_def inside_def s)
  qed
  ultimately have rep: "buddy_rep ?ht s ?F {}"
    using c(4,5) w by (auto simp: buddy_rep_def counters_def s)
  have "unat address mod 8 = 0"
    using arg_cong [OF c(1), of unat] by (simp add: unat_mod)
  then have "buddy_inv ?ht address s"
    using rep assms(2,3) size unfolding buddy_inv_def arena_ok_def coalesced_def
    by (auto simp: s intro!: exI [of _ ?F] exI [of _ "{}"])
  moreover have "buddy_live s = (\<lambda>_. None)" using buddy_live_rep [OF rep] by auto
  ultimately show thesis using size that by blast
qed

section \<open>Requests and releases\<close>

text \<open>
  C27. A request of any size up to the whole arena returns: either NULL, when no free block of the
  level of the request or above exists, and nothing changes; or a pointer that was not in use, to
  a block of the smallest power of two of units that holds the request.
\<close>

theorem buddy_malloc_correct:
  assumes "buddy_inv ht base s" "unat n \<le> SIZE ht"
  shows "\<exists>s' p. buddy_malloc s n = Some (s', p) \<and> buddy_inv ht base s' \<and>
    (if p = 0 then s' = s \<and> (\<forall>k. request_level n \<le> k \<and> k \<le> ht \<longrightarrow> bucket s k = None)
     else buddy_live s p = None \<and> buddy_live s' = (buddy_live s)(p \<mapsto> SIZE (request_level n))) \<and>
    unat n \<le> SIZE (request_level n) \<and> (\<forall>k. unat n \<le> SIZE k \<longrightarrow> request_level n \<le> k)"
proof -
  have lev: "unat n \<le> SIZE (request_level n) \<and> (\<forall>k. unat n \<le> SIZE k \<longrightarrow> request_level n \<le> k)"
    using request_level_iff [of n] by auto
  from assms(1) obtain F A where r: "buddy_rep ht s F A" "coalesced ht F" and ok: "arena_ok ht (base_address s)"
    by (auto simp: buddy_inv_def)
  show ?thesis
  proof (rule buddy_malloc_rep [OF r assms(2)])
    assume n: "buddy_malloc s n = Some (s, 0)" "\<And>k. request_level n \<le> k \<Longrightarrow> F k = []"
    then have "bucket s k = None" if "request_level n \<le> k" "k \<le> ht" for k
      using free_lists_bucket [OF buddy_repD(5) [OF r(1)], of k] buddy_repD(2) [OF r(1)] that by simp
    then show ?thesis using n(1) assms(1) lev by auto
  next
    fix t G x assume t: "buddy_malloc s n = Some (t, getAddress s x)" "x \<notin> A" "buddy_rep ht t G (insert x A)"
      "coalesced ht G" "keeps A s t" "lvl t x = request_level n"
    have "getAddress s x \<noteq> 0" using getAddress_unat(3) [OF ok] buddy_rep_used(2) [OF t(3)] by blast
    moreover have "buddy_inv ht base t" using assms(1) t(3-5) by (auto simp: buddy_inv_def keeps_def)
    ultimately show ?thesis using buddy_live_insert [OF r(1) t(3,2,5) ok] t(1,6) lev by auto
  qed
qed

section \<open>Sequences\<close>

lemma buddy_malloc_null:
  assumes inv: "buddy_inv ht base s" and rep: "buddy_rep ht s F A" and n: "unat n \<le> SIZE ht"
    and null: "buddy_malloc s n = Some (s', 0)" and k: "request_level n \<le> k"
  shows "F k = []"
proof -
  from inv obtain G B where r: "buddy_rep ht s G B" "coalesced ht G" and ok: "arena_ok ht (base_address s)"
    by (auto simp: buddy_inv_def)
  have GF: "G = F" using buddy_rep_unique(2) [OF rep r(1)] .
  show ?thesis
  proof (rule buddy_malloc_rep [OF r n])
    fix t H x assume t: "buddy_malloc s n = Some (t, getAddress s x)" "buddy_rep ht t H (insert x B)"
    have "getAddress s x \<noteq> 0" using getAddress_unat(3) [OF ok] buddy_rep_used(2) [OF t(2)] by blast
    then show ?thesis using t(1) null by simp
  qed (use k GF in auto)
qed

text \<open>Requests that fit the arena and releases of pointers in use.\<close>

inductive buddy_run :: "nat \<Rightarrow> buddy_state \<Rightarrow> buddy_state \<Rightarrow> bool" for ht where
  run_start: "buddy_run ht s s"
| run_malloc: "buddy_run ht s s' \<Longrightarrow> unat n \<le> SIZE ht \<Longrightarrow> buddy_malloc s' n = Some (s'', p) \<Longrightarrow> buddy_run ht s s''"
| run_free: "buddy_run ht s s' \<Longrightarrow> buddy_live s' p \<noteq> None \<Longrightarrow> buddy_free s' p = Some s'' \<Longrightarrow> buddy_run ht s s''"

lemma buddy_run_inv: "buddy_run ht s s' \<Longrightarrow> buddy_inv ht base s \<Longrightarrow> buddy_inv ht base s'"
proof (induction rule: buddy_run.induct)
  case (run_free s s' p s'')
  then show ?case using bd.release_live [of ht base s' p] by auto
qed (auto intro: bd.alloc_inv)

text \<open>
  C26. After a successful \<open>initMemoryManager\<close>, through any sequence of requests up to the size of
  the arena and releases of pointers in use, every further such call returns, blocks in use do
  not overlap, and once nothing is in use the arena is a single free block again: no order of
  calls leaves fragmentation behind.
\<close>

theorem buddy_run_safe:
  assumes "buddy_init s0 address (of_nat (SIZE ht)) = (s, 0)" "address \<noteq> 0" "unat address + SIZE ht \<le> 2 ^ 64"
    and "ht < LEVEL_LIMIT" "buddy_run ht s s'"
  shows "(\<forall>n. unat n \<le> SIZE ht \<longrightarrow> buddy_malloc s' n \<noteq> None) \<and>
    (\<forall>p. buddy_live s' p \<noteq> None \<longrightarrow> buddy_free s' p \<noteq> None) \<and>
    (\<forall>p q c d. buddy_live s' p = Some c \<and> buddy_live s' q = Some d \<and> p \<noteq> q \<longrightarrow>
       unat p + c \<le> unat q \<or> unat q + d \<le> unat p) \<and>
    (buddy_live s' = (\<lambda>_. None) \<longrightarrow>
       (\<forall>l<LEVEL_LIMIT. bucket s' l = (if l = ht then Some 0 else None)) \<and>
       mi_allocated (buddy_getMemoryInfo s') = 0 \<and> buddy_malloc s' (of_nat (SIZE ht)) \<noteq> Some (s', 0))"
proof -
  have "SIZE ht < 2 ^ 64"
    using assms(4) SIZE_mono [of ht 12] by (simp add: LEVEL_LIMIT_def) (simp add: SIZE_def BLOCK_UNIT_def)
  then have u: "unat (of_nat (SIZE ht) :: u64) = SIZE ht" by (simp add: unat_of_nat)
  obtain ht' where h: "unat (of_nat (SIZE ht) :: u64) = SIZE ht'" "buddy_inv ht' address s"
    using buddy_init_inv [OF assms(1,2)] assms(3) u by metis
  have "ht' = ht" using h(1) u SIZE_strict [of ht ht'] SIZE_strict [of ht' ht] by (cases ht ht' rule: linorder_cases) auto
  then have inv: "buddy_inv ht address s'" using buddy_run_inv [OF assms(5)] h(2) by simp
  then obtain F A where r: "buddy_rep ht s' F A" "coalesced ht F" and ok: "arena_ok ht (base_address s')"
    by (auto simp: buddy_inv_def)
  note D = buddy_repD [OF r(1)]
  have whole: "(\<forall>l<LEVEL_LIMIT. bucket s' l = (if l = ht then Some 0 else None)) \<and>
      mi_allocated (buddy_getMemoryInfo s') = 0 \<and> buddy_malloc s' (of_nat (SIZE ht)) \<noteq> Some (s', 0)"
    if "buddy_live s' = (\<lambda>_. None)"
  proof -
    have A: "A = {}" using that buddy_live_block [OF r(1) ok] by (metis equals0I option.distinct(1))
    note F = coalesced_empty [OF r [unfolded A]]
    have b: "\<forall>l<LEVEL_LIMIT. bucket s' l = (if l = ht then Some 0 else None)"
      using free_lists_bucket [OF D(5)] by (simp add: F)
    have "request_level (of_nat (SIZE ht)) \<le> ht" using u by (simp add: request_level_iff)
    moreover have "F ht \<noteq> []" by (simp add: F)
    ultimately have "buddy_malloc s' (of_nat (SIZE ht)) \<noteq> Some (s', 0)"
      using buddy_malloc_null [OF inv r(1), of "of_nat (SIZE ht)" s' ht] u by auto
    then show ?thesis using b D(8) A by (simp add: counters_def buddy_getMemoryInfo_def)
  qed
  have m: "\<forall>n. unat n \<le> SIZE ht \<longrightarrow> buddy_malloc s' n \<noteq> None"
    using bd.alloc_returns [OF inv] by auto
  have f: "\<forall>p. buddy_live s' p \<noteq> None \<longrightarrow> buddy_free s' p \<noteq> None"
    using bd.release_live [OF inv] by fastforce
  have a: "\<forall>p q c d. buddy_live s' p = Some c \<and> buddy_live s' q = Some d \<and> p \<noteq> q \<longrightarrow>
       unat p + c \<le> unat q \<or> unat q + d \<le> unat p"
    using bd.live_apart [OF inv] by blast
  show ?thesis by (intro conjI m f a impI whole [THEN conjunct1] whole [THEN conjunct2, THEN conjunct1]
    whole [THEN conjunct2, THEN conjunct2])
qed


section \<open>Concrete runs\<close>

text \<open>An arena of two units at address 4096, on the statics of a fresh kernel.\<close>

definition small_arena :: buddy_state where
  "small_arena = fst (buddy_init buddy_zero 4096 512)"

lemma log2n_2: "log2n 2 = 1" "log2n 1 = 0" "log2n 0 = 0"
  by (simp_all add: log2n.simps)

lemma small_arena_init: "buddy_init buddy_zero 4096 512 = (small_arena, 0)"
  by (simp add: small_arena_def buddy_init_def BLOCK_UNIT_def IS_POW2_def LEVEL_LIMIT_def log2n_2 Let_def)

lemma small_arena_inv: "buddy_inv 1 4096 small_arena" "buddy_live small_arena = (\<lambda>_. None)"
proof -
  obtain ht where h: "unat (512 :: u64) = SIZE ht" "buddy_inv ht 4096 small_arena" "buddy_live small_arena = (\<lambda>_. None)"
    using buddy_init_inv [OF small_arena_init] by auto
  have "SIZE 1 = 512" by (simp add: SIZE_def BLOCK_UNIT_def)
  then have "ht = 1" using h(1) SIZE_strict [of ht 1] SIZE_strict [of 1 ht]
    by (cases ht "1 :: nat" rule: linorder_cases) auto
  with h show "buddy_inv 1 4096 small_arena" "buddy_live small_arena = (\<lambda>_. None)" by auto
qed

theorem buddy_malloc_correct_witness:
  "\<exists>s' p. buddy_malloc small_arena 300 = Some (s', p) \<and> buddy_inv 1 4096 s'"
  using buddy_malloc_correct [OF small_arena_inv(1), of 300] by (auto simp: SIZE_def BLOCK_UNIT_def)

theorem buddy_run_safe_witness:
  "\<exists>s' p. buddy_malloc small_arena 300 = Some (s', p) \<and> buddy_run 1 small_arena s' \<and> buddy_malloc s' 512 \<noteq> None"
proof -
  obtain s' p where m: "buddy_malloc small_arena 300 = Some (s', p)"
    using bd.alloc_returns [OF small_arena_inv(1), of 300] by (auto simp: SIZE_def BLOCK_UNIT_def)
  have r: "buddy_run 1 small_arena s'"
    by (rule run_malloc [OF run_start _ m]) (simp add: SIZE_def BLOCK_UNIT_def)
  have "buddy_init buddy_zero 4096 (of_nat (SIZE 1)) = (small_arena, 0)"
    using small_arena_init by (simp add: SIZE_def BLOCK_UNIT_def)
  from buddy_run_safe [OF this _ _ _ r] have "buddy_malloc s' 512 \<noteq> None"
    by (simp add: SIZE_def BLOCK_UNIT_def LEVEL_LIMIT_def)
  with m r show ?thesis by blast
qed


section \<open>Where the manager trusts its callers\<close>

text \<open>
  A request larger than the arena is not refused: there is no list of its level, and the code
  goes on to take the block NULL, or looks beyond the array of lists.
\<close>

theorem buddy_large_request:
  assumes "buddy_inv ht base s" "SIZE ht < unat n"
  shows "buddy_malloc s n = None"
proof -
  from assms(1) obtain F A where r: "buddy_rep ht s F A" by (auto simp: buddy_inv_def)
  note D = buddy_repD [OF r]
  let ?l = "request_level n"
  have l: "ht < ?l" using assms(2) request_level_iff [of n ht] by simp
  have F: "F k = []" if "ht < k" for k
    using that buddy_rep_free(5) [OF r, of _ k] by (cases "F k") fastforce+
  have bk: "bucket s k = None" if "ht < k" "k < LEVEL_LIMIT" for k
    using free_lists_bucket [OF D(5) that(2)] F [OF that(1)] by simp
  have m: "min_above s (?l + 1) = ?l + 1" by (subst min_above.simps) (use l D(3) in simp)
  show ?thesis
  proof (cases "?l < LEVEL_LIMIT")
    case True
    have "splitBlock (?l + 1) s = (if ?l + 1 < LEVEL_LIMIT then Some s else None)"
      using bk [of "?l + 1"] l by (simp add: splitBlock_def)
    then have "split_down (?l + 1) ?l s = (if ?l + 1 < LEVEL_LIMIT then Some s else None)"
      by (subst split_down.simps) (simp add: split_down.simps [of ?l ?l])
    then show ?thesis using True bk [of ?l] l m D(3) by (simp add: buddy_malloc_def Let_def)
  qed (simp add: buddy_malloc_def)
qed

theorem buddy_large_request_witness: "buddy_malloc small_arena 513 = None"
  using buddy_large_request [OF small_arena_inv(1), of 513] by (simp add: SIZE_def BLOCK_UNIT_def)

text \<open>One step of \<open>mergeBuddy\<close>, for concrete runs.\<close>

lemma mergeBuddy_run:
  "level (blocks s i) = levels_count s - 1 \<Longrightarrow> mergeBuddy i s = Some s"
  "level (blocks s i) \<noteq> levels_count s - 1 \<Longrightarrow> getBuddy s i = Some j \<Longrightarrow>
     level (blocks s i) \<noteq> level (blocks s j) \<or> allocated (blocks s i) \<or> allocated (blocks s j) \<Longrightarrow> mergeBuddy i s = Some s"
  "level (blocks s i) \<noteq> levels_count s - 1 \<Longrightarrow> getBuddy s i = Some j \<Longrightarrow>
     level (blocks s i) = level (blocks s j) \<Longrightarrow> \<not> allocated (blocks s i) \<Longrightarrow> \<not> allocated (blocks s j) \<Longrightarrow>
     mergeBuddy i s = Option.bind (Option.bind (removeBlock i s) (\<lambda>s. Option.bind (removeBlock j s) (\<lambda>s.
       addBlock (min i j) (upd_block (min i j) (\<lambda>b. b\<lparr>level := level b + 1\<rparr>) s)))) (mergeBuddy (min i j))"
  by (simp_all add: mergeBuddy.simps [of i s])

text \<open>A block written down.\<close>

abbreviation bblock :: "bool \<Rightarrow> nat \<Rightarrow> BlockData" where
  "bblock a l \<equiv> \<lparr>allocated = a, level = l, nxt = None, prv = None\<rparr>"

definition arena2 :: "u64 \<Rightarrow> BlockData \<Rightarrow> BlockData \<Rightarrow> nat option \<Rightarrow> nat option \<Rightarrow> u64 \<Rightarrow> buddy_state" where
  "arena2 base b0 b1 f0 f1 a = \<lparr>blocks = (\<lambda>i. if i = 0 then b0 else if i = 1 then b1 else bblock False 0),
     bucket = (\<lambda>l. if l = 0 then f0 else if l = 1 then f1 else None), levels_count = 2, blocks_count = 2,
     base_address = base, memory_info = \<lparr>mi_allocated = a, mi_free = 512 - a, mi_total = 512\<rparr>\<rparr>"

lemmas arena2_run = Let_def LEVEL_LIMIT_def BLOCK_LIMIT_def BLOCK_UNIT_def SIZE_def arena2_def addBlock_def
  removeBlock_def splitBlock_def getBuddy_def buddy_of_def getAddress_def move_info_def take_info_def fun_eq_iff

lemma request_level_small: "request_level 256 = 0" "request_level 512 = 1" "request_level 200 = 0"
  using request_level_iff [of 256 0] request_level_iff [of 512 0] request_level_iff [of 512 1] request_level_iff [of 200 0]
  by (simp_all add: SIZE_def BLOCK_UNIT_def)

lemma init_arena2:
  "base mod 8 = 0 \<Longrightarrow> buddy_init buddy_zero base 512 = (arena2 base (bblock False 1) (bblock False 0) None (Some 0) 0, 0)"
  by (auto simp: buddy_init_def buddy_zero_def arena2_run IS_POW2_def log2n_2)

lemma first_request:
  "buddy_malloc (arena2 base (bblock False 1) (bblock False 0) None (Some 0) 0) 256 =
     Some (arena2 base (bblock True 0) (bblock False 0) (Some 1) None 256, base)"
  by (auto simp: buddy_malloc_def request_level_small arena2_run min_above.simps [of _ "Suc 0"]
    split_down.simps)

lemma second_request:
  "buddy_malloc (arena2 base (bblock True 0) (bblock False 0) (Some 1) None 256) 256 =
     Some (arena2 base (bblock True 0) (bblock True 0) None None 512, base + 256)"
  by (auto simp: buddy_malloc_def request_level_small arena2_run)

lemma first_release:
  "buddy_free (arena2 base (bblock True 0) (bblock True 0) None None 512) base =
     Some (arena2 base (bblock False 0) (bblock True 0) (Some 0) None 256)"
  by (auto simp: buddy_free_def arena2_run mergeBuddy_run)

lemma second_release:
  "buddy_free (arena2 base (bblock False 0) (bblock True 0) (Some 0) None 256) (base + 256) =
     Some (arena2 base (bblock False 1) (bblock True 0) None (Some 0) 0)"
  by (auto simp: buddy_free_def arena2_run mergeBuddy_run)

lemma third_release:
  "buddy_free (arena2 base (bblock False 1) (bblock True 0) None (Some 0) 0) (base + 256) =
     Some (arena2 base (bblock False 1) (bblock False 0) (Some 1) (Some 0) (- 256))"
  by (auto simp: buddy_free_def arena2_run mergeBuddy_run)

lemma last_requests:
  "buddy_malloc (arena2 base (bblock False 1) (bblock False 0) (Some 1) (Some 0) (- 256)) 512 =
     Some (arena2 base (bblock True 1) (bblock False 0) (Some 1) None 256, base)"
  "buddy_malloc (arena2 base (bblock True 1) (bblock False 0) (Some 1) None 256) 200 =
     Some (arena2 base (bblock True 1) (bblock True 0) None None 512, base + 256)"
  by (auto simp: buddy_malloc_def request_level_small arena2_run)

text \<open>
  A pointer freed twice is accepted when its block had been merged into the buddy below it:
  the entry of the swallowed half still says that it is allocated. After that \<open>malloc\<close> gives out the
  whole arena and, next, the upper half of it a second time.
\<close>

theorem buddy_double_free:
  assumes "base mod 8 = 0"
  shows "do { (s, a) \<leftarrow> buddy_malloc (fst (buddy_init buddy_zero base 512)) 256; (s, b) \<leftarrow> buddy_malloc s 256;
      s \<leftarrow> buddy_free s a; s \<leftarrow> buddy_free s b; s \<leftarrow> buddy_free s b;
      (s, p) \<leftarrow> buddy_malloc s 512; (s, q) \<leftarrow> buddy_malloc s 200; Some (p, q) } = Some (base, base + 256)"
  using assms
  by (simp add: init_arena2 first_request second_request first_release second_release third_release last_requests
    del: One_nat_def)

theorem buddy_double_free_witness:
  "do { (s, a) \<leftarrow> buddy_malloc (fst (buddy_init buddy_zero 4096 512)) 256; (s, b) \<leftarrow> buddy_malloc s 256;
      s \<leftarrow> buddy_free s a; s \<leftarrow> buddy_free s b; s \<leftarrow> buddy_free s b;
      (s, p) \<leftarrow> buddy_malloc s 512; (s, q) \<leftarrow> buddy_malloc s 200; Some (p, q) } = Some (4096, 4352)"
  using buddy_double_free [of 4096] by simp

end
