(* ===== verification/Exceptions.thy ===== *)
theory Exceptions
  imports Syscalls
begin

text \<open>
  The exception handlers of \<open>Kernel/exceptions.c\<close> and the number printing of
  \<open>Kernel/videoDriver.c\<close> they use. \<open>loadMain\<close> restarts the system from assembler code
  (\<open>Kernel/loader.asm\<close>) and is an argument.
\<close>

definition REGISTER_NUM :: nat where "REGISTER_NUM = 17"

definition REGISTER_NAMES :: "string list" where
  "REGISTER_NAMES = [''RIP'', ''RAX'', ''RBX'', ''RCX'', ''RDX'', ''RSI'', ''RDI'', ''RBP'', ''RSP'',
     ''R8 '', ''R9 '', ''R10'', ''R11'', ''R12'', ''R13'', ''R14'', ''R15'']"

section \<open>Numbers of the video driver\<close>

text \<open>The digits are written to a static array of 64 bytes.\<close>

definition printBase_video :: "u64 \<Rightarrow> int \<Rightarrow> kernel \<Rightarrow> unit res" where
  "printBase_video value base k =
     (case uintToBase value (replicate 64 0) base of
        None \<Rightarrow> Fault
      | Some (b, _) \<Rightarrow> printString (takeWhile (\<lambda>c. c \<noteq> 0) b) WHITE k)"

definition printBin :: "u64 \<Rightarrow> kernel \<Rightarrow> unit res" where
  "printBin value k = bind (printBase_video value 2 k) (\<lambda>_ k. printString (ascii ''b'') WHITE k)"

section \<open>The handlers\<close>

text \<open>One register of \<open>printSavedRegisters\<close>, and the loop from register \<open>i\<close> on.\<close>

definition print_register :: "nat \<Rightarrow> kernel \<Rightarrow> unit res" where
  "print_register i k =
     bind (printString (ascii (REGISTER_NAMES ! i)) MAGENTA k) (\<lambda>_ k.
     bind (printString (replicate 6 9) MAGENTA k) (\<lambda>_ k.
     bind (if i < length (registers k) then printBin (registers k ! i) k else Fault) (\<lambda>_ k.
     printString [10] MAGENTA k)))"

fun print_registers :: "nat list \<Rightarrow> kernel \<Rightarrow> unit res" where
  "print_registers [] k = Done () k"
| "print_registers (i # is) k = bind (print_register i k) (\<lambda>_ k. print_registers is k)"

definition printSavedRegisters :: "kernel \<Rightarrow> unit res" where
  "printSavedRegisters k = print_registers [0..<REGISTER_NUM - 1] k"

definition endException :: "(kernel \<Rightarrow> unit res) \<Rightarrow> cstring \<Rightarrow> kernel \<Rightarrow> unit res" where
  "endException loadMain errorString k =
     (let k = on_screen (\<lambda>s. printStringAt 0 0 errorString RED (colorScreen BLUE s)) k in
      bind (printString ([10] @ ascii ''YOU WILL BE RETURNED TO THE SHELL IN TEN SECONDS'' @ [10, 10]) GREEN k) (\<lambda>_ k.
      bind (printSavedRegisters k) (\<lambda>_ k.
      bind (sys_wait 10000 k) (\<lambda>_ k. loadMain k))))"

definition divideZeroException :: "(kernel \<Rightarrow> unit res) \<Rightarrow> kernel \<Rightarrow> unit res" where
  "divideZeroException loadMain k = endException loadMain (ascii ''Divide Zero Exception'') (on_screen clearScreen k)"

definition invalidOpcodeException :: "(kernel \<Rightarrow> unit res) \<Rightarrow> kernel \<Rightarrow> unit res" where
  "invalidOpcodeException loadMain k =
     endException loadMain (ascii ''Invalid Operand Code Exception'') (on_screen clearScreen k)"

definition exceptionDispatcher :: "(kernel \<Rightarrow> unit res) \<Rightarrow> u64 \<Rightarrow> kernel \<Rightarrow> unit res" where
  "exceptionDispatcher loadMain e k =
     (if e = 0 then divideZeroException loadMain k
      else if e = 6 then invalidOpcodeException loadMain k
      else Done () k)"

end
