(* ===== verification/Shell.thy ===== *)
theory Shell
  imports Tron User_Programs Exceptions
begin

text \<open>
  The command interpreter, \<open>Userland/uCodeModule/shell.c\<close>. Where the program hands addresses to
  the kernel, the places the linker and the stack give to string literals, functions and local
  arrays are in the record \<open>image\<close>; the strings at the places of literals are there from the start.
  Commands that run as processes of their own are started through \<open>exec\<close> at their entry points.
\<close>

definition MAX_WORDS :: nat where "MAX_WORDS = 100"
definition MAX_WORD_LENGTH :: nat where "MAX_WORD_LENGTH = 50"

text \<open>
  \<open>text_at\<close> and \<open>entry\<close>: literals and functions. \<open>words_at\<close>, \<open>argv_at\<close>, \<open>test_argv_at\<close>: the arrays
  of \<open>readBuffer\<close>. \<open>now\<close> and \<open>today\<close>: what the real-time clock gives. \<open>raise0\<close> and \<open>raise6\<close>: the
  assembler routines that raise an exception. \<open>junk\<close>: the cells of the game board outside the canvas.
\<close>

record image =
  text_at :: "string \<Rightarrow> u64"
  entry :: "string \<Rightarrow> u64"
  words_at :: u64
  argv_at :: u64
  test_argv_at :: u64
  now :: "kernel \<Rightarrow> u64"
  today :: "kernel \<Rightarrow> u64"
  raise0 :: "kernel \<Rightarrow> unit res"
  raise6 :: "kernel \<Rightarrow> unit res"
  junk :: "int \<Rightarrow> byte"

section \<open>Words\<close>

text \<open>
  The words of a line, each cut to 50 characters. \<open>None\<close>: the line has no terminator, or there
  are 100 words, so that the terminator of the list is written behind the array.
\<close>

definition is_word_char :: "byte \<Rightarrow> bool" where
  "is_word_char c \<longleftrightarrow> c \<noteq> 32 \<and> c \<noteq> 0"

function parse_words :: "nat \<Rightarrow> buffer \<Rightarrow> cstring list option" where
  "parse_words n str =
     (case str of
        [] \<Rightarrow> None
      | c # _ \<Rightarrow>
          if c = 0 \<or> n \<ge> MAX_WORDS then Some []
          else
            (case dropWhile (\<lambda>c. c = 32) str of
               [] \<Rightarrow> None
             | c # cs \<Rightarrow>
                 if c = 0 then Some []
                 else map_option ((#) (take MAX_WORD_LENGTH (takeWhile is_word_char (c # cs))))
                        (parse_words (n + 1) (dropWhile is_word_char cs))))"
  by pat_completeness auto
termination
proof (relation "measure (\<lambda>(n, str). length str)", simp, goal_cases)
  case (1 n str c cs d ds)
  have "length (dropWhile is_word_char ds) \<le> length ds" by (rule length_dropWhile_le)
  moreover have "length (d # ds) \<le> length str" using length_dropWhile_le [of "\<lambda>c. c = 32" str] 1 by simp
  ultimately show ?case by simp
qed

declare parse_words.simps [simp del]

definition parseString :: "buffer \<Rightarrow> cstring list option" where
  "parseString str =
     (case parse_words 0 str of
        None \<Rightarrow> None
      | Some ws \<Rightarrow> if length ws < MAX_WORDS then Some ws else None)"

section \<open>Messages\<close>

definition printNewline :: "kernel \<Rightarrow> unit res" where
  "printNewline k = printString_user [10] WHITE k"

definition printErrorMessage :: "cstring \<Rightarrow> string \<Rightarrow> kernel \<Rightarrow> unit res" where
  "printErrorMessage program errorMessage k =
     bind (printString_user (ascii ''Shell'') GREEN k) (\<lambda>_ k.
     bind (printf_user (ascii '' : %s : '') [Str program] k) (\<lambda>_ k.
     printError (ascii errorMessage) k))"

definition HELP_MESSAGE :: cstring where
  "HELP_MESSAGE = concat (map (\<lambda>line. ascii line @ [10]) 
     [
     ''HELP:'',
     ''The following is a list of the different commands the shell can interpret and a short description of what they do:'',
     ''help              - Displays the available commands the shell can interpret and a short description of them'',
     ''clear             - Clears screen allowing more text to be written'',
     ''exit              - Exit the shell returning to kernel space. This command will shut down the program'',
     ''tron              - Launches tron game'',
     ''div-zero          - Calls function that showcases the Divide By Zero Exception'',
     ''invalid-op        - Calls function that showcases the Invalid Opcode Exception'',
     ''date              - Displays date'',
     ''time              - Displays time'',
     ''datetime          - Displays date and time'',
     ''inc-font          - Increases font size'',
     ''dec-font          - Decreases font size'',
     ''inforeg           - Displays the contents of all the registers at a given time.'',
     ''                    To save registers press and release the CTRL key.'',
     ''                    If the command is called before pressing CTRL at least once,'',
     ''                    the registers will appear as if they have the value 0'',
     ''printmem          - Receives a parameter in hexadecimal format. Displays the next 32 bytes after the given memory direction'',
     ''ps                - Displays the current processes information'',
     ''loop              - Creates a process that loops infinitely'',
     ''kill              - Kills the process with the given pid, receives pid as argument'',
     ''block             - Blocks the process with the given pid, receives pid as argument'',
     ''unblock           - Unblocks the process with the given pid, receives pid as argument'',
     ''nice              - Changes the priority of the process with the given pid, receives pid and priority respectively as arguments'',
     ''cat               - Prints the contents of the given input'',
     ''filter            - Prints the contents of the file without consonants'',
     ''wc                - Prints the number of lines, words and characters of the given input'',
     ''sh                - Creates a new shell'',
     ''test-processes    - Runs a test, receives the number of processes to run as an argument'',
     ''test-mm           - Runs a test, receives a number with the maximum memory as an argument'',
     ''test-sync         - Runs a test, receives two numbers as arguments, the first one with the amount of iterations'',
     ''                    and the second one as a flag for semaphore use (0 - sync, 1 - no sync)'',
     ''test-prio         - Runs a test changing priorities of processes'',
     ''phylo             - Runs the dining philosophers problem, to add a philosopher during runtime press 'a', to remove one press 'r'' @ [CHR 0x27],
     ''mem-info          - Shows free, allocated and total heap memory''])"

definition helpCommand :: "kernel \<Rightarrow> unit res" where
  "helpCommand k = bind (printf_user HELP_MESSAGE [] k) (\<lambda>_ k. printNewline k)"

definition printInfoReg :: "kernel \<Rightarrow> unit res" where
  "printInfoReg k =
     bind (infoReg (replicate REGISTER_NUM 0) k) (\<lambda>r k.
     steps (map (\<lambda>i k.
         bind (printf_user (ascii ''%s : '') [Str (ascii (REGISTER_NAMES ! i))] k) (\<lambda>_ k.
         bind (printBase (snd r ! i) 16 k) (\<lambda>_ k.
         printf_user (ascii ''h'' @ [10]) [] k))) [0..<REGISTER_NUM]) k)"

section \<open>Font size\<close>

definition increaseFontSize :: "kernel \<Rightarrow> i32 res" where
  "increaseFontSize k = to_i32 (changeFontSize_user 1 k)"

definition decreaseFontSize :: "kernel \<Rightarrow> i32 res" where
  "decreaseFontSize k = to_i32 (changeFontSize_user (- 1) k)"

definition shrink_turn :: "nat \<Rightarrow> kernel \<Rightarrow> (nat + nat) res" where
  "shrink_turn count k = bind (decreaseFontSize k) (\<lambda>r k. Done (if r \<noteq> 0 then Inl (count + 1) else Inr count) k)"

definition tronCommand :: "image \<Rightarrow> kernel \<Rightarrow> unit res" where
  "tronCommand img k =
     bind (clear_user k) (\<lambda>_ k.
     bind (iterate shrink_turn 0 k) (\<lambda>count k.
     bind (mainTron (junk img) (game_scores k) k) (\<lambda>scores k.
     bind (steps (replicate count (\<lambda>k. bind (increaseFontSize k) (\<lambda>_ k. Done () k))) (k\<lparr>game_scores := scores\<rparr>)) (\<lambda>_ k.
     clear_user k))))"

section \<open>Memory dump\<close>

text \<open>The value of the digits that follow \<open>0x\<close>: \<open>Some None\<close> for another character, \<open>None\<close> when a \<open>long long\<close> overflows.\<close>

fun parse_hex :: "int \<Rightarrow> cstring \<Rightarrow> int option option" where
  "parse_hex accum [] = Some (Some accum)"
| "parse_hex accum (c # cs) =
     (let next = (\<lambda>v. if 16 * accum + v < 2 ^ 63 then parse_hex (16 * accum + v) cs else None) in
      if 97 \<le> sint c \<and> sint c \<le> 102 then next (sint c - 97 + 10)
      else if 48 \<le> sint c \<and> sint c \<le> 57 then next (sint c - 48)
      else Some None)"

definition PRINT_BYTES :: nat where "PRINT_BYTES = 32"

definition printmem_error :: "string \<Rightarrow> kernel \<Rightarrow> unit res" where
  "printmem_error msg k = bind (printErrorMessage (ascii ''printmem'') msg k) (\<lambda>_ k. printNewline k)"

text \<open>The dump: \<open>pointer\<close> points to 8-byte integers.\<close>

definition dump :: "int \<Rightarrow> kernel \<Rightarrow> unit res" where
  "dump accum k =
     steps (map (\<lambda>j k.
       bind (printBase (of_nat j) 10 k) (\<lambda>_ k.
       bind (printf_user (ascii '':'' @ [9]) [] k) (\<lambda>_ k.
       bind (printBase (cells k (of_int accum + 8 * of_nat j)) 16 k) (\<lambda>_ k.
       printf_user (ascii ''h'' @ [10]) [] k)))) [0..<PRINT_BYTES]) k"

definition printMem :: "u64 \<Rightarrow> kernel \<Rightarrow> unit res" where
  "printMem argv k =
     (let buf = dropWhile (\<lambda>c. c = 32) (cstr k (cells k argv)) in
      if buf = [] then printmem_error ''No argument received'' k
      else if hd buf \<noteq> 48 \<or> tl buf = [] \<or> hd (tl buf) \<noteq> 120 \<or> tl (tl buf) = []
      then printmem_error ''Argument must be a hexadecimal value'' k
      else
        case parse_hex 0 (tl (tl buf)) of
          None \<Rightarrow> Fault
        | Some None \<Rightarrow> printmem_error ''Argument must be a hexadecimal value'' k
        | Some (Some accum) \<Rightarrow>
            if 0xFFFFFFFF - accum \<le> 32
            then printmem_error ''Input number is too big, limit is 0xFFFFFFDE'' k
            else dump accum k)"

end
