(* ===== verification/Shell_Commands.thy ===== *)
theory Shell_Commands
  imports Shell
begin

text \<open>
  The dispatch of the commands, pipelines of two commands and the loop of the shell,
  \<open>Userland/uCodeModule/shell.c\<close> from \<open>readBuffer\<close> on.
\<close>

section \<open>One command\<close>

definition named :: "cstring \<Rightarrow> string \<Rightarrow> bool" where
  "named buf s \<longleftrightarrow> strcmp_user (buf @ [0]) (ascii s @ [0]) = Some 0"

text \<open>
  The words and the array of arguments in memory: the words are 51 bytes apart, the pointers to
  all but the first one are followed by NULL.
\<close>

definition word_at :: "image \<Rightarrow> nat \<Rightarrow> u64" where
  "word_at img i = words_at img + of_nat (i * (MAX_WORD_LENGTH + 1))"

definition place_words :: "image \<Rightarrow> cstring list \<Rightarrow> kernel \<Rightarrow> kernel" where
  "place_words img ws k = k\<lparr>cstr := fold (\<lambda>i m. m(word_at img i := ws ! i)) [0..<length ws] (cstr k)\<rparr>"

definition place_argv :: "image \<Rightarrow> nat \<Rightarrow> kernel \<Rightarrow> kernel" where
  "place_argv img numArgs k =
     set_cell (argv_at img) numArgs 0
       (fold (\<lambda>i. set_cell (argv_at img) i (word_at img (i + 1))) [0..<numArgs] k)"

definition ask_wait_pid :: "i32 \<Rightarrow> kernel \<Rightarrow> unit res" where
  "ask_wait_pid is_foreground k = (if is_foreground = 1 then wait_pid_user k else Done () k)"

text \<open>A process for a program; its pid is the result.\<close>

definition spawn :: "image \<Rightarrow> string \<Rightarrow> string \<Rightarrow> u64 \<Rightarrow> i32 \<Rightarrow> i32 \<Rightarrow> i32 \<Rightarrow> i32 \<Rightarrow> kernel \<Rightarrow> i32 res" where
  "spawn img name program argv fd_read fd_write priority is_foreground k =
     to_i32 (exec (text_at img name) (entry img program) argv fd_read fd_write priority is_foreground k)"

definition run_program :: "image \<Rightarrow> string \<Rightarrow> string \<Rightarrow> u64 \<Rightarrow> i32 \<Rightarrow> i32 \<Rightarrow> i32 \<Rightarrow> i32 \<Rightarrow> kernel \<Rightarrow> i32 res" where
  "run_program img name program argv fd_read fd_write priority is_foreground k =
     bind (spawn img name program argv fd_read fd_write priority is_foreground k) (\<lambda>ret k.
     bind (ask_wait_pid is_foreground k) (\<lambda>_ k. Done ret k))"

text \<open>The commands that run as processes: command, name, entry point and priority.\<close>

definition programs :: "(string \<times> string \<times> string \<times> i32) list" where
  "programs =
     [(''inforeg'', ''inforeg'', ''printInfoReg'', 5), (''ps'', ''ps'', ''ps'', 1),
      (''test-mm'', ''test_mm'', ''test_mm'', 1), (''test-sync'', ''test_sync'', ''test_sync'', 1),
      (''test-prio'', ''test_prio'', ''test_prio'', 1), (''loop'', ''loop'', ''loop'', 1),
      (''cat'', ''cat'', ''cat'', 1), (''filter'', ''filter'', ''filter'', 1), (''wc'', ''wc'', ''wc'', 1),
      (''sh'', ''shell'', ''shell'', 1), (''phylo'', ''phylo'', ''phylo'', 1),
      (''mem-info'', ''mem_info'', ''memory_info'', 1)]"

text \<open>The calls \<open>atoi(argv[i])\<close>: NULL is followed, like any pointer.\<close>

definition int_arg :: "image \<Rightarrow> nat \<Rightarrow> kernel \<Rightarrow> int option" where
  "int_arg img i k = atoi (cstr k (cells k (argv_at img + 8 * of_nat i)) @ [0])"

definition report_pid :: "string \<Rightarrow> string \<Rightarrow> i32 \<Rightarrow> u64 res \<Rightarrow> unit res" where
  "report_pid ok failed pid m =
     bind m (\<lambda>r k.
       if r = scast pid then printf_user ([10] @ ascii ok @ [10]) [Num (scast pid)] k
       else printf_user ([10] @ ascii failed @ [10]) [Num (scast pid)] k)"

definition pid_command :: "image \<Rightarrow> (i32 \<Rightarrow> kernel \<Rightarrow> u64 res) \<Rightarrow> string \<Rightarrow> string \<Rightarrow> kernel \<Rightarrow> unit res" where
  "pid_command img act ok failed k =
     (case int_arg img 0 k of
        None \<Rightarrow> Fault
      | Some pid \<Rightarrow> report_pid ok failed (of_int pid) (act (of_int pid) k))"

definition nice_command :: "image \<Rightarrow> kernel \<Rightarrow> unit res" where
  "nice_command img k =
     (case (int_arg img 0 k, int_arg img 1 k) of
        (Some pid, Some priority) \<Rightarrow>
          report_pid ''PID %d had its priority modified successfully'' ''Failed to modify priority of PID %d'' (of_int pid)
            (bind (to_i32 (change_priority_user (of_int pid) (of_int priority) k)) (\<lambda>r k. Done (scast r) k))
      | _ \<Rightarrow> Fault)"

text \<open>A line made by \<open>timer.c\<close> in an array of zeros.\<close>

definition show_time :: "(buffer \<Rightarrow> buffer option) \<Rightarrow> kernel \<Rightarrow> unit res" where
  "show_time f k =
     (case f (replicate MAX_TERMINAL_CHARS 0) of
        None \<Rightarrow> Fault
      | Some b \<Rightarrow> printf_user (ascii ''%s'' @ [10]) [Str (takeWhile (\<lambda>c. c \<noteq> 0) b)] k)"

definition font_command :: "(kernel \<Rightarrow> i32 res) \<Rightarrow> string \<Rightarrow> cstring \<Rightarrow> kernel \<Rightarrow> unit res" where
  "font_command change msg buf k =
     bind (change k) (\<lambda>check k.
       if check = 0 then bind (printErrorMessage buf msg k) (\<lambda>_ k. printNewline k)
       else clear_user k)"

definition result :: "i32 \<Rightarrow> unit res \<Rightarrow> i32 res" where
  "result r m = bind m (\<lambda>_ k. Done r k)"

text \<open>The commands the shell runs itself: what they do, and the result of \<open>readBuffer\<close>.\<close>

definition builtin :: "image \<Rightarrow> cstring \<Rightarrow> kernel \<Rightarrow> i32 res option" where
  "builtin img buf k =
     (if named buf '''' then Some (Done 1 k)
      else if named buf ''help'' then Some (result 1 (helpCommand k))
      else if named buf ''clear'' then Some (result 1 (clear_user k))
      else if named buf ''tron'' then Some (result 1 (tronCommand img k))
      else if named buf ''date'' then Some (result 1 (show_time (getDateFormat (today img k)) k))
      else if named buf ''time'' then Some (result 1 (show_time (getTimeFormat (now img k)) k))
      else if named buf ''datetime'' then Some (result 1 (show_time (getDateAndTime (today img k) (now img k)) k))
      else if named buf ''inc-font'' then Some (result 1 (font_command increaseFontSize ''Maximum font size reached'' buf k))
      else if named buf ''dec-font'' then Some (result 1 (font_command decreaseFontSize ''Minimum font size reached'' buf k))
      else if named buf ''div-zero'' then Some (result 0 (raise0 img k))
      else if named buf ''invalid-op'' then Some (result 0 (raise6 img k))
      else if named buf ''exit'' then Some (result 0 (clear_user k))
      else if named buf ''kill'' then
        Some (result 1 (pid_command img kill_user ''PID %d killed successfully'' ''Failed to kill PID %d'' k))
      else if named buf ''block'' then
        Some (result 1 (pid_command img block_user ''PID %d blocked successfully'' ''Failed to block PID %d'' k))
      else if named buf ''unblock'' then
        Some (result 1 (pid_command img unblock_user ''PID %d unblocked successfully'' ''Failed to unblock PID %d'' k))
      else if named buf ''nice'' then Some (result 1 (nice_command img k))
      else None)"

text \<open>
  \<open>readBuffer\<close>. Without arguments the test for the ampersand looks at the pointer in front of the
  array. The names of the commands are different, so the order of the tests does not matter.
\<close>

definition dispatch_command :: "image \<Rightarrow> cstring \<Rightarrow> i32 \<Rightarrow> i32 \<Rightarrow> i32 \<Rightarrow> kernel \<Rightarrow> i32 res" where
  "dispatch_command img buf fd_read fd_write is_foreground k =
     (case builtin img buf k of
        Some m \<Rightarrow> m
      | None \<Rightarrow>
          if named buf ''printmem''
          then bind (spawn img ''printmem'' ''printMem'' (argv_at img) fd_read fd_write 5 is_foreground k) (\<lambda>ret k.
               bind (wait_pid_user k) (\<lambda>_ k. Done ret k))
          else if named buf ''test-processes''
          then run_program img ''test_processes'' ''test_processes'' (test_argv_at img) fd_read fd_write 1 is_foreground
                 (set_cell (test_argv_at img) 1 0 (set_cell (test_argv_at img) 0 (text_at img ''2'') k))
          else
            case find (\<lambda>(c, _). named buf c) programs of
              Some (_, name, program, priority) \<Rightarrow>
                run_program img name program (argv_at img) fd_read fd_write priority is_foreground k
            | None \<Rightarrow>
                bind (printErrorMessage buf ''Command not found'' k) (\<lambda>_ k.
                bind (printNewline k) (\<lambda>_ k. Done (- 1) k)))"

definition readBuffer :: "image \<Rightarrow> buffer \<Rightarrow> i32 \<Rightarrow> i32 \<Rightarrow> i32 \<Rightarrow> kernel \<Rightarrow> i32 res" where
  "readBuffer img line fd_read fd_write is_foreground k =
     (case parseString line of
        None \<Rightarrow> Fault
      | Some ws \<Rightarrow>
          let buf = (case ws of [] \<Rightarrow> [] | w # _ \<Rightarrow> w);
              numArgs = length ws - 1;
              k = place_argv img numArgs (place_words img ws k);
              last_arg = argv_at img + 8 * of_nat numArgs - 8
          in
          if named (cstr k (cells k last_arg)) ''&''
          then
            bind (pipe_open_user (ascii ''&'') (k\<lparr>cells := (cells k)(last_arg := 0)\<rparr>)) (\<lambda>fd k.
            dispatch_command img buf fd fd_write 0 k)
          else dispatch_command img buf fd_read fd_write is_foreground k)"

section \<open>Pipelines\<close>

text \<open>
  The result is -1 when the line has no bar or memory ran out. The pid of the left command is
  what \<open>readBuffer\<close> returned.
\<close>

definition pipedBuffer :: "image \<Rightarrow> buffer \<Rightarrow> kernel \<Rightarrow> i32 res" where
  "pipedBuffer img buf k =
     (case (strchr buf 124, strlen buf) of
        (Some (Some delimiterPos), Some totalLength) \<Rightarrow>
          bind (malloc_user (of_nat delimiterPos + 1) k) (\<lambda>left k.
          if left = 0 then Done (- 1) k
          else
            case strncpy (replicate (delimiterPos + 1) 0) buf delimiterPos of
              None \<Rightarrow> Fault
            | Some left_str \<Rightarrow>
                bind (malloc_user (of_nat (totalLength - delimiterPos)) k) (\<lambda>right k.
                if right = 0 then bind (free_user left k) (\<lambda>_ k. Done (- 1) k)
                else
                  case strncpy (replicate (totalLength - delimiterPos) 0) (drop (delimiterPos + 1) buf)
                         (totalLength - delimiterPos) of
                    None \<Rightarrow> Fault
                  | Some right_str \<Rightarrow>
                      bind (pipe_open_user (ascii ''pipes'') k) (\<lambda>fd k.
                      bind (readBuffer img left_str 0 fd 0 k) (\<lambda>leftPid k.
                      if leftPid = - 1
                      then bind (free_user left k) (\<lambda>_ k. bind (free_user right k) (\<lambda>_ k. Done 2 k))
                      else
                        bind (yield_user k) (\<lambda>_ k.
                        bind (readBuffer img right_str fd 1 1 k) (\<lambda>rightPid k.
                        if rightPid = - 1
                        then
                          bind (free_user left k) (\<lambda>_ k. bind (free_user right k) (\<lambda>_ k.
                          bind (kill_user leftPid k) (\<lambda>_ k. Done 3 k)))
                        else
                          bind (free_user left k) (\<lambda>_ k. bind (free_user right k) (\<lambda>_ k.
                          bind (pipe_close_user fd k) (\<lambda>_ k. Done 1 k)))))))))
      | (None, _) \<Rightarrow> Fault
      | (_, None) \<Rightarrow> Fault
      | _ \<Rightarrow> Done (- 1) k)"

section \<open>The loop\<close>

definition prompt :: "kernel \<Rightarrow> unit res" where
  "prompt k = bind (printString_user (ascii ''$> '') GREEN k) (\<lambda>_ k. printf_user CURSOR [] k)"

definition shell_turn :: "image \<Rightarrow> unit \<Rightarrow> kernel \<Rightarrow> (unit + unit) res" where
  "shell_turn img _ k =
     bind (inputRead (replicate MAX_TERMINAL_CHARS 0) k) (\<lambda>r k.
     bind (printNewline k) (\<lambda>_ k.
     bind (pipedBuffer img (snd r) k) (\<lambda>ret k.
     bind (if ret = - 1 then readBuffer img (snd r) 0 1 1 k else Done ret k) (\<lambda>ret k.
     bind (prompt k) (\<lambda>_ k. Done (if ret \<noteq> 0 then Inl () else Inr ()) k)))))"

definition shell :: "image \<Rightarrow> kernel \<Rightarrow> unit res" where
  "shell img k = bind (prompt k) (\<lambda>_ k. iterate (shell_turn img) () k)"

end
