(* ===== verification/Shell_Properties.thy ===== *)
theory Shell_Properties
  imports Shell_Commands C_Strings_Properties Memory_Properties Terminal_Properties
begin

text \<open>
  The shell: the words it reads off a line, how they reach the kernel as arguments, and what a
  pipeline does when its right command does not exist.
\<close>

section \<open>Words\<close>

text \<open>The words of a text between its blanks, by one scan; \<open>acc\<close> is the word begun, backwards.\<close>

fun words_of :: "cstring \<Rightarrow> cstring \<Rightarrow> cstring list" where
  "words_of acc [] = (if acc = [] then [] else [rev acc])"
| "words_of acc (c # cs) =
     (if c = 32 then (if acc = [] then words_of [] cs else rev acc # words_of [] cs)
      else words_of (c # acc) cs)"

lemma words_of_blanks: "words_of [] (dropWhile (\<lambda>c. c = 32) w) = words_of [] w"
  by (induction w) auto

lemma words_of_begun:
  "acc \<noteq> [] \<Longrightarrow> words_of acc w = (rev acc @ takeWhile (\<lambda>c. c \<noteq> 32) w) # words_of [] (dropWhile (\<lambda>c. c \<noteq> 32) w)"
  by (induction w arbitrary: acc) auto

lemma words_of_word:
  "c \<noteq> 32 \<Longrightarrow> words_of [] (c # cs) = (c # takeWhile (\<lambda>c. c \<noteq> 32) cs) # words_of [] (dropWhile (\<lambda>c. c \<noteq> 32) cs)"
  using words_of_begun [of "[c]" cs] by simp

lemma words_of_chars:
  "u \<in> set (words_of acc w) \<Longrightarrow> 32 \<notin> set acc \<Longrightarrow> u \<noteq> [] \<and> 32 \<notin> set u \<and> set u \<subseteq> set acc \<union> set w"
  by (induction acc w rule: words_of.induct) (auto split: if_splits)

text \<open>Each word but the last has a blank after it.\<close>

lemma words_of_length: "2 * length (words_of acc w) \<le> length acc + length w + 1"
proof (induction acc w rule: words_of.induct)
  case (1 acc)
  then show ?case by (cases acc) auto
next
  case (2 acc c cs)
  then show ?case by (cases acc) auto
qed

text \<open>The scanning functions on a text with its terminator.\<close>

lemma scan_terminated:
  assumes "0 \<notin> set w"
  shows "dropWhile (\<lambda>c. c = 32) (w @ 0 # x) = dropWhile (\<lambda>c. c = 32) w @ 0 # x"
    "takeWhile is_word_char (w @ 0 # x) = takeWhile (\<lambda>c. c \<noteq> 32) w"
    "dropWhile is_word_char (w @ 0 # x) = dropWhile (\<lambda>c. c \<noteq> 32) w @ 0 # x"
  using assms by (induction w) (auto simp: is_word_char_def)

lemma parse_words_correct:
  assumes "0 \<notin> set w" "n \<le> MAX_WORDS"
  shows "parse_words n (w @ 0 # x) = Some (take (MAX_WORDS - n) (map (take MAX_WORD_LENGTH) (words_of [] w)))"
  using assms
proof (induction w arbitrary: n rule: length_induct)
  case (1 w)
  let ?d = "dropWhile (\<lambda>c. c = 32) w"
  have un: "parse_words n (w @ 0 # x) =
      (if hd (w @ [0]) = 0 \<or> n \<ge> MAX_WORDS then Some []
       else case ?d of
           [] \<Rightarrow> Some []
         | c # cs \<Rightarrow> map_option ((#) (take MAX_WORD_LENGTH (c # takeWhile (\<lambda>c. c \<noteq> 32) cs)))
             (parse_words (n + 1) (dropWhile (\<lambda>c. c \<noteq> 32) cs @ 0 # x)))"
  proof -
    obtain c0 r where w: "w @ 0 # x = c0 # r" "c0 = hd (w @ [0])" by (cases w) auto
    note dd = scan_terminated(1) [OF 1(2), of x]
    show ?thesis
    proof (cases ?d)
      case Nil
      show ?thesis by (subst parse_words.simps, unfold dd Nil, simp add: w)
    next
      case (Cons c cs)
      then have c: "c \<noteq> 0" "c \<noteq> 32" "0 \<notin> set cs"
        using 1(2) set_dropWhileD [of c "\<lambda>c. c = 32" w] set_dropWhileD [of 0 "\<lambda>c. c = 32" w]
          hd_dropWhile [of "\<lambda>c. c = 32" w] by auto
      then have "takeWhile is_word_char (c # (cs @ 0 # x)) = c # takeWhile (\<lambda>c. c \<noteq> 32) cs"
        using scan_terminated(2) [OF c(3), of x] by (simp add: is_word_char_def)
      then show ?thesis using c scan_terminated(3) [OF c(3), of x]
        by (subst parse_words.simps, unfold dd Cons, simp add: w)
    qed
  qed
  show ?case
  proof (cases "hd (w @ [0]) = 0 \<or> n = MAX_WORDS")
    case True
    then have "w = [] \<or> n = MAX_WORDS" using 1(2) by (cases w) auto
    then show ?thesis using un by auto
  next
    case False
    then have n: "n < MAX_WORDS" using 1(3) by simp
    show ?thesis
    proof (cases ?d)
      case Nil
      then have "words_of [] w = []" by (metis words_of_blanks words_of.simps(1))
      then show ?thesis using un unfolding Nil by simp
    next
      case (Cons c cs)
      have c: "c \<noteq> 32" using hd_dropWhile [of "\<lambda>c. c = 32" w] Cons by simp
      have sub: "0 \<notin> set (dropWhile (\<lambda>c. c \<noteq> 32) cs)"
        using 1(2) Cons by (metis list.set_intros(2) set_dropWhileD)
      have len: "length (dropWhile (\<lambda>c. c \<noteq> 32) cs) < length w"
        using length_dropWhile_le [of "\<lambda>c. c = 32" w] length_dropWhile_le [of "\<lambda>c. c \<noteq> 32" cs] Cons by simp
      have "parse_words (n + 1) (dropWhile (\<lambda>c. c \<noteq> 32) cs @ 0 # x) =
          Some (take (MAX_WORDS - (n + 1)) (map (take MAX_WORD_LENGTH) (words_of [] (dropWhile (\<lambda>c. c \<noteq> 32) cs))))"
        using 1(1) len sub n by simp
      moreover have "words_of [] w = (c # takeWhile (\<lambda>c. c \<noteq> 32) cs) # words_of [] (dropWhile (\<lambda>c. c \<noteq> 32) cs)"
        using words_of_blanks [of w] words_of_word [OF c, of cs] Cons by simp
      moreover have "MAX_WORDS - n = Suc (MAX_WORDS - (n + 1))" using n by simp
      ultimately show ?thesis using un False n Cons by simp
    qed
  qed
qed

text \<open>
  C28. The words of a line: \<open>parseString\<close> gives the words between the blanks, each cut to 50
  characters, so every one is short, not empty and without blanks; with 100 words or more it
  writes behind its array. A line of the terminal, at most 123 characters, never has that many.
\<close>

theorem parseString_correct:
  assumes "0 \<notin> set w"
  shows "parseString (w @ 0 # x) =
      (if length (words_of [] w) < MAX_WORDS then Some (map (take MAX_WORD_LENGTH) (words_of [] w)) else None) \<and>
    (\<forall>ws. parseString (w @ 0 # x) = Some ws \<longrightarrow>
      (\<forall>u\<in>set ws. u \<noteq> [] \<and> length u \<le> MAX_WORD_LENGTH \<and> 32 \<notin> set u \<and> 0 \<notin> set u)) \<and>
    (length w < MAX_TERMINAL_CHARS \<longrightarrow> parseString (w @ 0 # x) \<noteq> None)"
proof -
  let ?ws = "map (take MAX_WORD_LENGTH) (words_of [] w)"
  have "parse_words 0 (w @ 0 # x) = Some (take MAX_WORDS ?ws)"
    using parse_words_correct [OF assms, of 0 x] by simp
  then have p: "parseString (w @ 0 # x) = (if length (words_of [] w) < MAX_WORDS then Some ?ws else None)"
    by (simp add: parseString_def)
  have q: "u \<noteq> [] \<and> length u \<le> MAX_WORD_LENGTH \<and> 32 \<notin> set u \<and> 0 \<notin> set u" if "u \<in> set ?ws" for u
  proof -
    from that obtain v where v: "v \<in> set (words_of [] w)" "u = take MAX_WORD_LENGTH v" by auto
    have "v \<noteq> [] \<and> 32 \<notin> set v \<and> set v \<subseteq> set w" using words_of_chars [OF v(1)] by simp
    then show ?thesis using v(2) assms by (auto simp: MAX_WORD_LENGTH_def dest: in_set_takeD)
  qed
  have r: "length (words_of [] w) < MAX_WORDS" if "length w < MAX_TERMINAL_CHARS"
    using that words_of_length [of "[]" w] by (simp add: MAX_WORDS_def MAX_TERMINAL_CHARS_def)
  have "\<forall>u\<in>set ws. u \<noteq> [] \<and> length u \<le> MAX_WORD_LENGTH \<and> 32 \<notin> set u \<and> 0 \<notin> set u"
    if "parseString (w @ 0 # x) = Some ws" for ws
  proof -
    have "ws = ?ws" using that p by (simp split: if_splits)
    then show ?thesis using q by blast
  qed
  with p r show ?thesis by (metis option.distinct(1))
qed

theorem parseString_correct_witness:
  "parseString [107, 105, 108, 108, 32, 32, 55, 0] = Some [[107, 105, 108, 108], [55]]"
proof -
  let ?w = "[107, 105, 108, 108, 32, 32, 55] :: cstring"
  have "0 \<notin> set ?w" by simp
  note p = parseString_correct [OF this, of "[]", THEN conjunct1]
  have "words_of [] ?w = [[107, 105, 108, 108], [55]]" by code_simp
  with p show ?thesis by (simp add: MAX_WORDS_def MAX_WORD_LENGTH_def)
qed


section \<open>Arguments\<close>












section \<open>Pipelines\<close>

































end
