(* ===== verification/Phylo.thy ===== *)
theory Phylo
  imports User_Lib
begin

text \<open>
  The dining philosophers, \<open>Userland/uCodeModule/phylo.c\<close>. The table the processes share is an
  object in the kernel record, at the address that each of them gets as an argument. The part of
  a step that reads and writes the table is a function on tables; \<open>None\<close> is an access outside of its
  arrays or a division by a count of zero.
\<close>

definition PHYLO_MAX :: nat where "PHYLO_MAX = 10"
definition PHYLO_MIN :: nat where "PHYLO_MIN = 2"
definition INITIAL :: nat where "INITIAL = 5"

definition MUTEX :: cstring where "MUTEX = ascii ''phylo/main''"
definition SEM_PHYLO_H :: cstring where "SEM_PHYLO_H = ascii ''phylo/t/0''"
definition SEM_PHYLO_T :: cstring where "SEM_PHYLO_T = ascii ''phylo/h/0''"

section \<open>The table\<close>

definition left_of :: "SharedData \<Rightarrow> u64 \<Rightarrow> u64" where
  "left_of d i = (i + sd_count d - 1) mod sd_count d"

definition right_of :: "SharedData \<Rightarrow> u64 \<Rightarrow> u64" where
  "right_of d i = (i + 1) mod sd_count d"

definition seat :: "SharedData \<Rightarrow> u64 \<Rightarrow> State option" where
  "seat d i = (if unat i < length (sd_state d) then Some (sd_state d ! unat i) else None)"

definition set_seat :: "u64 \<Rightarrow> State \<Rightarrow> SharedData \<Rightarrow> SharedData option" where
  "set_seat i st d = (if unat i < length (sd_state d) then Some (d\<lparr>sd_state := (sd_state d)[unat i := st]\<rparr>) else None)"

text \<open>The condition of \<open>test\<close>, evaluated from left to right, and the table after it.\<close>

definition may_eat :: "u64 \<Rightarrow> SharedData \<Rightarrow> bool option" where
  "may_eat i d =
     (case seat d i of
        None \<Rightarrow> None
      | Some s \<Rightarrow>
          if s \<noteq> HUNGRY then Some False
          else if sd_count d = 0 then None
          else case seat d (left_of d i) of
            None \<Rightarrow> None
          | Some l \<Rightarrow>
              if l = EATING then Some False
              else map_option (\<lambda>r. r \<noteq> EATING) (seat d (right_of d i)))"

definition test_table :: "u64 \<Rightarrow> SharedData \<Rightarrow> (bool \<times> SharedData) option" where
  "test_table i d =
     (case may_eat i d of
        None \<Rightarrow> None
      | Some go \<Rightarrow> if go then map_option (Pair True) (set_seat i EATING d) else Some (False, d))"

section \<open>The philosophers\<close>

definition with_table :: "u64 \<Rightarrow> (SharedData \<Rightarrow> 'a res) \<Rightarrow> kernel \<Rightarrow> 'a res" where
  "with_table p f k = (case shared k p of None \<Rightarrow> Fault | Some d \<Rightarrow> f d)"

definition put_table :: "u64 \<Rightarrow> SharedData \<Rightarrow> kernel \<Rightarrow> kernel" where
  "put_table p d k = k\<lparr>shared := (shared k)(p \<mapsto> d)\<rparr>"

text \<open>\<open>shared_data->state[id] = st\<close>, and the names of the semaphores.\<close>

definition set_state_of :: "u64 \<Rightarrow> u64 \<Rightarrow> State \<Rightarrow> kernel \<Rightarrow> unit res" where
  "set_state_of p i st k =
     with_table p (\<lambda>d. case set_seat i st d of None \<Rightarrow> Fault | Some d \<Rightarrow> Done () (put_table p d k)) k"

definition lock_name :: "(SharedData \<Rightarrow> cstring list) \<Rightarrow> u64 \<Rightarrow> u64 \<Rightarrow> (cstring \<Rightarrow> kernel \<Rightarrow> i32 res) \<Rightarrow> kernel \<Rightarrow> unit res" where
  "lock_name names p i act k =
     with_table p (\<lambda>d. if unat i < length (names d) then bind (act (names d ! unat i) k) (\<lambda>_ k. Done () k) else Fault) k"

definition lock :: "kernel \<Rightarrow> unit res" where
  "lock k = bind (sem_wait_user MUTEX k) (\<lambda>_ k. Done () k)"

definition unlock :: "kernel \<Rightarrow> unit res" where
  "unlock k = bind (sem_post_user MUTEX k) (\<lambda>_ k. Done () k)"

definition test :: "u64 \<Rightarrow> u64 \<Rightarrow> kernel \<Rightarrow> unit res" where
  "test p i k =
     with_table p (\<lambda>d.
       case test_table i d of
         None \<Rightarrow> Fault
       | Some (go, d) \<Rightarrow>
           if go then lock_name hungry_lock p i sem_post_user (put_table p d k) else Done () k) k"

text \<open>The parts of \<open>take_fork\<close> and \<open>put_fork\<close> between the two calls on the mutex.\<close>

definition take_section :: "u64 \<Rightarrow> u64 \<Rightarrow> kernel \<Rightarrow> unit res" where
  "take_section p i k = bind (set_state_of p i HUNGRY k) (\<lambda>_ k. test p i k)"

definition put_section :: "u64 \<Rightarrow> u64 \<Rightarrow> kernel \<Rightarrow> unit res" where
  "put_section p i k =
     bind (set_state_of p i THINKING k) (\<lambda>_ k.
     bind (with_table p (\<lambda>d. if sd_count d = 0 then Fault else test p (left_of d i) k) k) (\<lambda>_ k.
     with_table p (\<lambda>d. test p (right_of d i) k) k))"

definition take_fork :: "u64 \<Rightarrow> u64 \<Rightarrow> kernel \<Rightarrow> unit res" where
  "take_fork p i k =
     bind (lock k) (\<lambda>_ k.
     bind (take_section p i k) (\<lambda>_ k.
     bind (unlock k) (\<lambda>_ k.
     lock_name hungry_lock p i sem_wait_user k)))"

text \<open>\<open>id\<close> is an \<open>int\<close> here, and extended again for the neighbours.\<close>

definition put_fork :: "u64 \<Rightarrow> i32 \<Rightarrow> kernel \<Rightarrow> unit res" where
  "put_fork p n k = bind (lock k) (\<lambda>_ k. bind (put_section p (scast n) k) (\<lambda>_ k. unlock k))"

definition phylo_turn :: "u64 \<Rightarrow> u64 \<Rightarrow> unit \<Rightarrow> kernel \<Rightarrow> (unit + int) res" where
  "phylo_turn p i _ k =
     bind (take_fork p i k) (\<lambda>_ k.
     bind (yield_user k) (\<lambda>_ k.
     bind (put_fork p (ucast i) k) (\<lambda>_ k.
     bind (lock_name think_unlock p i sem_post_user k) (\<lambda>_ k.
     bind (yield_user k) (\<lambda>_ k.
     bind (lock_name think_unlock p i sem_wait_user k) (\<lambda>_ k.
     bind (lock k) (\<lambda>_ k.
     with_table p (\<lambda>d.
       case seat d i of
         None \<Rightarrow> Fault
       | Some s \<Rightarrow> bind (unlock k) (\<lambda>_ k. Done (if s = LEAVING then Inr 0 else Inl ()) k)) k)))))))"

definition phylo_proc :: "u64 \<Rightarrow> kernel \<Rightarrow> int res" where
  "phylo_proc argv k =
     (case (atoul (cstr k (cells k argv) @ [0]), atoul (cstr k (cells k (argv + 8)) @ [0])) of
        (Some i, Some p) \<Rightarrow> iterate (phylo_turn p i) () k
      | _ \<Rightarrow> Fault)"

section \<open>The host\<close>

text \<open>
  Where the arrays of the functions that start a philosopher are: the digit of its number, the
  digits of the address of the table, and the array of arguments. Then the name and the entry point.
\<close>

record phylo_frame =
  id_at :: u64
  addr_at :: u64
  args_at :: u64
  name_at :: u64
  prog_at :: u64

definition start_phylo :: "phylo_frame \<Rightarrow> u64 \<Rightarrow> u64 \<Rightarrow> kernel \<Rightarrow> unit res" where
  "start_phylo fr p i k =
     (case ultoa p (replicate 64 0) of
        None \<Rightarrow> Fault
      | Some (b, _) \<Rightarrow>
          let k = k\<lparr>cstr := (cstr k)(id_at fr := [48 + ucast i], addr_at fr := takeWhile (\<lambda>c. c \<noteq> 0) b)\<rparr>;
              k = set_cell (args_at fr) 2 0 (set_cell (args_at fr) 1 (addr_at fr) (set_cell (args_at fr) 0 (id_at fr) k))
          in bind (exec (name_at fr) (prog_at fr) (args_at fr) 0 1 1 0 k) (\<lambda>_ k. Done () k))"

definition add_section :: "u64 \<Rightarrow> u64 \<Rightarrow> kernel \<Rightarrow> unit res" where
  "add_section p i k =
     bind (set_state_of p i THINKING k) (\<lambda>_ k.
     with_table p (\<lambda>d. Done () (put_table p (d\<lparr>sd_count := sd_count d + 1\<rparr>) k)) k)"

text \<open>The number of the new philosopher is read before the table is locked.\<close>

definition addPhylo :: "phylo_frame \<Rightarrow> u64 \<Rightarrow> kernel \<Rightarrow> unit res" where
  "addPhylo fr p k =
     with_table p (\<lambda>d.
       let i = sd_count d in
       bind (lock k) (\<lambda>_ k.
       bind (add_section p i k) (\<lambda>_ k.
       bind (start_phylo fr p i k) (\<lambda>_ k.
       unlock k)))) k"

definition remove_section :: "u64 \<Rightarrow> u64 \<Rightarrow> kernel \<Rightarrow> unit res" where
  "remove_section p i k =
     bind (set_state_of p i LEAVING k) (\<lambda>_ k.
     with_table p (\<lambda>d. Done () (put_table p (d\<lparr>sd_count := sd_count d - 1\<rparr>) k)) k)"

definition removePhylo :: "u64 \<Rightarrow> kernel \<Rightarrow> unit res" where
  "removePhylo p k =
     with_table p (\<lambda>d.
       let i = sd_count d - 1 in
       bind (lock_name think_unlock p i sem_wait_user k) (\<lambda>_ k.
       bind (lock k) (\<lambda>_ k.
       bind (remove_section p i k) (\<lambda>_ k.
       bind (unlock k) (\<lambda>_ k.
       lock_name think_unlock p i sem_post_user k))))) k"

text \<open>The names with the digit of a philosopher in place of the last character.\<close>

definition numbered :: "cstring \<Rightarrow> nat \<Rightarrow> cstring" where
  "numbered name i = name[8 := 48 + of_nat i]"

fun open_locks :: "nat list \<Rightarrow> kernel \<Rightarrow> unit res" where
  "open_locks [] k = Done () k"
| "open_locks (i # is) k =
     bind (sem_open_user (numbered SEM_PHYLO_H i) 0 k) (\<lambda>_ k.
     bind (sem_open_user (numbered SEM_PHYLO_T i) 0 k) (\<lambda>_ k.
     open_locks is k))"

fun start_all :: "phylo_frame \<Rightarrow> u64 \<Rightarrow> nat list \<Rightarrow> kernel \<Rightarrow> unit res" where
  "start_all fr p [] k = Done () k"
| "start_all fr p (i # is) k = bind (start_phylo fr p (of_nat i) k) (\<lambda>_ k. start_all fr p is k)"

definition picture :: "SharedData \<Rightarrow> cstring option" where
  "picture d =
     (if unat (sd_count d) \<le> length (sd_state d)
      then Some (map (\<lambda>s. if s = EATING then 69 else 46) (take (unat (sd_count d)) (sd_state d)))
      else None)"

definition host_turn :: "phylo_frame \<Rightarrow> u64 \<Rightarrow> unit \<Rightarrow> kernel \<Rightarrow> (unit + unit) res" where
  "host_turn fr p _ k =
     bind (getTimedChar k) (\<lambda>c k.
     bind (with_table p (\<lambda>d.
         if c = 97 \<and> unat (sd_count d) < PHYLO_MAX then addPhylo fr p k
         else if c = 114 \<and> unat (sd_count d) > PHYLO_MIN then removePhylo p k
         else Done () k) k) (\<lambda>_ k.
     bind (lock k) (\<lambda>_ k.
     with_table p (\<lambda>d.
       case picture d of
         None \<Rightarrow> Fault
       | Some s \<Rightarrow>
           bind (printf_user (ascii ''%s'' @ [10]) [Str s] k) (\<lambda>_ k.
           bind (unlock k) (\<lambda>_ k.
           bind (yield_user k) (\<lambda>_ k. Done (Inl ()) k)))) k)))"

text \<open>\<open>p\<close> is where the table is, \<open>stale\<close> what its states are before the program writes them.\<close>

definition phylo_main :: "phylo_frame \<Rightarrow> u64 \<Rightarrow> State list \<Rightarrow> kernel \<Rightarrow> unit res" where
  "phylo_main fr p stale k =
     (let k = put_table p \<lparr>sd_count = of_nat INITIAL, sd_state = stale,
            hungry_lock = map (numbered SEM_PHYLO_H) [0..<PHYLO_MAX],
            think_unlock = map (numbered SEM_PHYLO_T) [0..<PHYLO_MAX]\<rparr> k in
      bind (sem_open_user MUTEX 0 k) (\<lambda>_ k.
      bind (open_locks [0..<PHYLO_MAX] k) (\<lambda>_ k.
      bind (start_all fr p [0..<INITIAL] k) (\<lambda>_ k.
      bind (unlock k) (\<lambda>_ k.
      iterate (host_turn fr p) () k)))))"

end
