(* ===== verification/Boot.thy ===== *)
theory Boot
  imports Exceptions
begin

text \<open>
  The start of the kernel: the modules unpacked to where they run (\<open>Kernel/moduleLoader.c\<close>), the
  interrupt descriptors (\<open>Kernel/idtLoader.c\<close>), and the two functions the assembler code calls
  (\<open>Kernel/kernel.c\<close>). Memory is a function on addresses here.
\<close>

type_synonym memory = "u64 \<Rightarrow> byte"

definition peek :: "memory \<Rightarrow> u64 \<Rightarrow> nat \<Rightarrow> buffer" where
  "peek mem a n = map (\<lambda>i. mem (a + of_nat i)) [0..<n]"

definition poke :: "memory \<Rightarrow> u64 \<Rightarrow> buffer \<Rightarrow> memory" where
  "poke mem a b = (\<lambda>x. if unat (x - a) < length b then b ! unat (x - a) else mem x)"

section \<open>Modules\<close>

definition readUint32 :: "memory \<Rightarrow> u64 \<Rightarrow> u32 \<times> u64" where
  "readUint32 mem address =
     (ucast (mem address) OR push_bit 8 (ucast (mem (address + 1))) OR push_bit 16 (ucast (mem (address + 2)))
        OR push_bit 24 (ucast (mem (address + 3))), address + 4)"

text \<open>
  \<open>memcpy\<close> does not support overlapping buffers: \<open>None\<close>. The result is memory, the address
  behind the module in the payload and that behind its copy.
\<close>

definition overlap :: "u64 \<Rightarrow> u64 \<Rightarrow> nat \<Rightarrow> bool" where
  "overlap a b n \<longleftrightarrow> n \<noteq> 0 \<and> (unat (a - b) < n \<or> unat (b - a) < n)"

definition loadModule :: "memory \<Rightarrow> u64 \<Rightarrow> u64 \<Rightarrow> (memory \<times> u64 \<times> u64) option" where
  "loadModule mem module target =
     (let (moduleSize, module) = readUint32 mem module; n = unat moduleSize in
      if overlap target module n then None
      else
        map_option (\<lambda>d. (poke mem target d, module + ucast moduleSize, target + ucast moduleSize))
          (memcpy target module (peek mem target n) (peek mem module n) n))"

fun load_each :: "nat \<Rightarrow> u64 list \<Rightarrow> memory \<Rightarrow> u64 \<Rightarrow> u64 \<Rightarrow> (memory \<times> u64) option" where
  "load_each 0 targets mem currentModule endOfModules = Some (mem, endOfModules)"
| "load_each (Suc n) [] mem currentModule endOfModules = None"
| "load_each (Suc n) (t # targets) mem currentModule endOfModules =
     (case loadModule mem currentModule t of
        None \<Rightarrow> None
      | Some (mem, currentModule, endOfModules) \<Rightarrow> load_each n targets mem currentModule endOfModules)"

text \<open>\<open>stale\<close>: the end before any module is loaded, a variable that is not initialised.\<close>

definition loadModules :: "u64 \<Rightarrow> memory \<Rightarrow> u64 \<Rightarrow> u64 list \<Rightarrow> (memory \<times> u64) option" where
  "loadModules stale mem payloadStart targetModuleAddress =
     (let (moduleCount, currentModule) = readUint32 mem payloadStart in
      load_each (unat moduleCount) targetModuleAddress mem currentModule stale)"

section \<open>Interrupt descriptors\<close>

record DESCR_INT =
  offset_l :: "16 word"
  selector :: "16 word"
  cero :: byte
  access :: byte
  offset_m :: "16 word"
  offset_h :: u32
  other_cero :: u32

type_synonym idt = "nat \<Rightarrow> DESCR_INT"

abbreviation ACS_PRESENT :: byte where "ACS_PRESENT \<equiv> 0x80"
abbreviation ACS_INT_386 :: byte where "ACS_INT_386 \<equiv> 0x0E"

definition ACS_INT :: byte where "ACS_INT = ACS_PRESENT OR ACS_INT_386"

definition setup_IDT_entry :: "nat \<Rightarrow> u64 \<Rightarrow> idt \<Rightarrow> idt" where
  "setup_IDT_entry index offset t =
     t(index := \<lparr>offset_l = ucast (offset AND 0xFFFF), selector = 0x08, cero = 0, access = ACS_INT,
       offset_m = ucast (drop_bit 16 offset AND 0xFFFF), offset_h = ucast (drop_bit 32 offset AND 0xFFFFFFFF),
       other_cero = 0\<rparr>)"

text \<open>The addresses of the routines of \<open>Kernel/asm/interrupts.asm\<close>, and the masks of the interrupt controllers.\<close>

record handlers =
  irq00Handler :: u64
  irq01Handler :: u64
  exception0Handler :: u64
  exception6Handler :: u64
  syscallINTHandler :: u64

definition picMasterMask :: "byte \<Rightarrow> kernel \<Rightarrow> kernel" where
  "picMasterMask m k = outb 0x21 m k"

definition picSlaveMask :: "byte \<Rightarrow> kernel \<Rightarrow> kernel" where
  "picSlaveMask m k = outb 0xA1 m k"

definition load_idt :: "handlers \<Rightarrow> idt \<Rightarrow> kernel \<Rightarrow> idt \<times> kernel" where
  "load_idt h t k =
     (let t = setup_IDT_entry 0x20 (irq00Handler h) t;
          t = setup_IDT_entry 0x21 (irq01Handler h) t;
          t = setup_IDT_entry 0x00 (exception0Handler h) t;
          t = setup_IDT_entry 0x06 (exception6Handler h) t;
          t = setup_IDT_entry 0x80 (syscallINTHandler h) t
      in (t, picSlaveMask 0xFF (picMasterMask 0xFC k)))"

section \<open>The kernel\<close>

definition HEAP_SIZE :: u64 where "HEAP_SIZE = 0x100000"
definition PageSize :: u64 where "PageSize = 0x1000"
definition uCodeModuleAddress :: u64 where "uCodeModuleAddress = 0x400000"
definition uDataModuleAddress :: u64 where "uDataModuleAddress = 0x500000"

text \<open>
  What the linker fixes: the symbols of \<open>Kernel/kernel.ld\<close>, the name and the entry point of the
  idle process, and where its empty array of arguments is.
\<close>

record link_map =
  endOfKernelBinary :: u64
  bss :: u64
  endOfKernel :: u64
  idle_name :: u64
  idle_entry :: u64
  idle_argv :: u64

definition clearBSS :: "memory \<Rightarrow> u64 \<Rightarrow> u64 \<Rightarrow> memory option" where
  "clearBSS mem bssAddress bssSize =
     map_option (poke mem bssAddress) (memset (peek mem bssAddress (unat bssSize)) 0 (unat bssSize))"

text \<open>The same on the kernel's objects: every static variable without an initial value is zero.\<close>

definition clear_statics :: "kernel \<Rightarrow> kernel" where
  "clear_statics k =
     k\<lparr>first := 0, currentNode := 0, foreground := 0, background := 0, counter := 0, block_count := 0,
       disable_count := 0, force_yield := 0, pidc := 0, semaphores := replicate 256 sem_zero,
       pipes := replicate 10 pipe_zero,
       mm := (mm k)\<lparr>free_list := 0, alloc_list := 0, mm_info := \<lparr>mi_allocated = 0, mi_free = 0, mi_total = 0\<rparr>\<rparr>,
       kb_buffer := buffer_zero, kb_shift := False, kb_ctrl := False, clock_ticks := 0, registers := replicate 17 0,
       scr := (scr k)\<lparr>posX := 0\<rparr>\<rparr>"

definition getStackBase :: "link_map \<Rightarrow> u64" where
  "getStackBase l = endOfKernel l + PageSize * 8 - 8"

definition heap_start :: "u64 \<Rightarrow> u64" where
  "heap_start endOfModules = endOfModules + PageSize - endOfModules mod PageSize"

text \<open>The return code of \<open>initMemoryManager\<close> is not looked at.\<close>

definition initializeKernelBinary :: "link_map \<Rightarrow> u64 \<Rightarrow> memory \<Rightarrow> kernel \<Rightarrow> (memory \<times> u64) res" where
  "initializeKernelBinary l stale mem k =
     (case loadModules stale mem (endOfKernelBinary l) [uCodeModuleAddress, uDataModuleAddress] of
        None \<Rightarrow> Fault
      | Some (mem, endOfModules) \<Rightarrow>
          (case clearBSS mem (bss l) (endOfKernel l - bss l) of
             None \<Rightarrow> Fault
           | Some mem \<Rightarrow>
               let k = clear_statics k;
                   k = k\<lparr>mm := fst (initMemoryManager (mm k) (heap_start endOfModules) HEAP_SIZE)\<rparr>
               in
               bind (init_scheduler (idle_name l) (idle_entry l) (idle_argv l) (set_cell (idle_argv l) 0 0 k)) (\<lambda>_ k.
               Done (mem, getStackBase l) k)))"

definition kernel_main :: "handlers \<Rightarrow> (kernel \<Rightarrow> 'a res) \<Rightarrow> idt \<Rightarrow> kernel \<Rightarrow> idt \<times> int res" where
  "kernel_main h uCodeModule t k =
     (let (t, k) = load_idt h t k in
      (t, bind (uCodeModule (on_screen clearScreen k)) (\<lambda>_ k. Done 0 k)))"

end
