(* ===== verification/Module_Packer.thy ===== *)
theory Module_Packer
  imports C_Strings
begin

text \<open>
  The tool that appends the binary files of the user modules to that of the kernel,
  \<open>Toolchain/ModulePacker/main.c\<close>. The host is its files and what was printed; the parser of
  command lines (argp) is a list of calls of \<open>parse_opt\<close>. \<open>None\<close> is a crash, or the exit of the parser.
\<close>

record host =
  files :: "string \<Rightarrow> buffer option"
  printed :: "string list"

definition OUTPUT_FILE :: string where "OUTPUT_FILE = ''packedKernel.bin''"
definition BUFFER_SIZE :: nat where "BUFFER_SIZE = 128"
definition MAX_FILES :: nat where "MAX_FILES = 128"

record arguments =
  pa_args :: "string list"
  pa_output_file :: string
  pa_count :: nat

section \<open>The command line\<close>

datatype argp_key =
    Option_o string
  | Key_arg nat string
  | Key_end nat
  | Key_other

text \<open>The result code is 0 or \<open>ARGP_ERR_UNKNOWN\<close>; a usage message ends the program.\<close>

fun parse_opt :: "argp_key \<Rightarrow> arguments \<Rightarrow> (int \<times> arguments) option" where
  "parse_opt (Option_o arg) a = Some (0, a\<lparr>pa_output_file := arg\<rparr>)"
| "parse_opt (Key_arg n arg) a =
     (if n < length (pa_args a) then Some (0, a\<lparr>pa_args := (pa_args a)[n := arg]\<rparr>) else None)"
| "parse_opt (Key_end n) a = (if n < 1 then None else Some (0, a\<lparr>pa_count := n\<rparr>))"
| "parse_opt Key_other a = Some (7, a)"

section \<open>The image\<close>

definition uint32_bytes :: "u32 \<Rightarrow> buffer" where
  "uint32_bytes v = map (\<lambda>i. ucast (drop_bit (8 * i) v)) [0..<4]"

text \<open>The buffer is filled until a read comes short, which is the end of the file.\<close>

function write_file :: "buffer \<Rightarrow> buffer \<Rightarrow> buffer" where
  "write_file target source =
     (let read = take BUFFER_SIZE source; target = target @ read in
      if length read < BUFFER_SIZE then target else write_file target (drop BUFFER_SIZE source))"
  by pat_completeness auto
termination by (relation "measure (\<lambda>(t, s). length s)") (auto simp: BUFFER_SIZE_def)

declare write_file.simps [simp del]

definition write_size :: "buffer \<Rightarrow> buffer \<Rightarrow> buffer" where
  "write_size target source = target @ uint32_bytes (of_nat (length source))"

fun write_modules :: "(string \<Rightarrow> buffer option) \<Rightarrow> string list \<Rightarrow> buffer \<Rightarrow> buffer option" where
  "write_modules fs [] target = Some target"
| "write_modules fs (f # names) target =
     (case fs f of
        None \<Rightarrow> None
      | Some source \<Rightarrow> write_modules fs names (write_file (write_size target source) source))"

text \<open>
  Opening the target empties it; its new content is there when it is closed. Inputs that are the
  target itself are read as empty files.
\<close>

definition buildImage :: "(string \<Rightarrow> bool) \<Rightarrow> string list \<Rightarrow> string \<Rightarrow> host \<Rightarrow> (bool \<times> host) option" where
  "buildImage creatable fileArray output_file h =
     (if \<not> creatable output_file then Some (False, h\<lparr>printed := printed h @ [''Can't create target file'']\<rparr>)
      else
        let fs = (files h)(output_file \<mapsto> []) in
        case fileArray of
          [] \<Rightarrow> None
        | main_file # modules \<Rightarrow>
            (case fs main_file of
               None \<Rightarrow> None
             | Some source \<Rightarrow>
                 map_option (\<lambda>target. (True, h\<lparr>files := fs(output_file \<mapsto> target)\<rparr>))
                   (write_modules fs modules (write_file [] source @ uint32_bytes (of_nat (length modules))))))"

fun checkFiles :: "(string \<Rightarrow> bool) \<Rightarrow> string list \<Rightarrow> host \<Rightarrow> bool \<times> host" where
  "checkFiles readable [] h = (True, h)"
| "checkFiles readable (f # names) h =
     (if readable f then checkFiles readable names h
      else (False, h\<lparr>printed := printed h @ [''Can't open file: '' @ f]\<rparr>))"

text \<open>The parser's calls run until one fails; its own reaction to an unknown key is not used.\<close>

fun argp_parse :: "argp_key list \<Rightarrow> arguments \<Rightarrow> arguments option" where
  "argp_parse [] a = Some a"
| "argp_parse (key # keys) a =
     (case parse_opt key a of None \<Rightarrow> None | Some (_, a) \<Rightarrow> argp_parse keys a)"

definition main_packer :: "(string \<Rightarrow> bool) \<Rightarrow> (string \<Rightarrow> bool) \<Rightarrow> argp_key list \<Rightarrow> host \<Rightarrow> (int \<times> host) option" where
  "main_packer readable creatable keys h =
     (case argp_parse keys \<lparr>pa_args = replicate MAX_FILES [], pa_output_file = OUTPUT_FILE, pa_count = 0\<rparr> of
        None \<Rightarrow> None
      | Some a \<Rightarrow>
          let fileArray = take (pa_count a) (pa_args a); (ok, h) = checkFiles readable fileArray h in
          if \<not> ok then Some (1, h)
          else map_option (\<lambda>(built, h). (if built then 0 else 1, h)) (buildImage creatable fileArray (pa_output_file a) h))"

end
