(* ===== verification/Boot_Loading.thy ===== *)
theory Boot_Loading
  imports Boot Module_Packer C_Strings_Properties
begin

text \<open>
  The way of a module from its file to where it runs: the packer's image, memory that holds it, and
  the copies \<open>loadModules\<close> makes.
\<close>

section \<open>The image\<close>

lemma write_file_appends: "write_file target source = target @ source"
proof (induction target source rule: write_file.induct)
  case (1 target source)
  then show ?case by (subst write_file.simps) (auto simp: Let_def)
qed

text \<open>The payload: the modules, each after its length.\<close>

definition payload :: "buffer list \<Rightarrow> buffer" where
  "payload ms = concat (map (\<lambda>m. uint32_bytes (of_nat (length m)) @ m) ms)"

lemma payload_simps [simp]:
  "payload [] = []" "payload (m # ms) = uint32_bytes (of_nat (length m)) @ m @ payload ms"
  by (simp_all add: payload_def)

lemma write_modules_appends:
  "list_all2 (\<lambda>f m. fs f = Some m) names ms \<Longrightarrow> write_modules fs names target = Some (target @ payload ms)"
  by (induction arbitrary: target rule: list_all2_induct) (simp_all add: write_file_appends write_size_def)

section \<open>Memory\<close>

lemma length_peek [simp]: "length (peek mem a n) = n"
  by (simp add: peek_def)

lemma nth_peek [simp]: "i < n \<Longrightarrow> peek mem a n ! i = mem (a + of_nat i)"
  by (simp add: peek_def)

text \<open>Memory that holds a sequence of bytes.\<close>

definition holds :: "memory \<Rightarrow> u64 \<Rightarrow> buffer \<Rightarrow> bool" where
  "holds mem a b \<longleftrightarrow> peek mem a (length b) = b"

lemma holds_append: "holds mem a (b @ c) \<longleftrightarrow> holds mem a b \<and> holds mem (a + of_nat (length b)) c"
proof -
  have "peek mem a (length b + length c) = peek mem a (length b) @ peek mem (a + of_nat (length b)) (length c)"
    by (rule nth_equalityI) (auto simp: nth_append add.assoc simp flip: of_nat_add)
  then show ?thesis by (simp add: holds_def)
qed

lemma readUint32_bytes:
  assumes "holds mem a (uint32_bytes v)"
  shows "readUint32 mem a = (v, a + 4)"
proof -
  have b: "mem (a + of_nat i) = ucast (drop_bit (8 * i) v)" if "i < 4" for i
  proof -
    have "peek mem a 4 ! i = uint32_bytes v ! i" using assms by (simp add: holds_def uint32_bytes_def)
    then show ?thesis using that by (simp add: uint32_bytes_def)
  qed
  have "mem a = ucast v" "mem (a + 1) = ucast (drop_bit 8 v)" "mem (a + 2) = ucast (drop_bit 16 v)"
    "mem (a + 3) = ucast (drop_bit 24 v)"
    using b [of 0] b [of 1] b [of 2] b [of 3] by simp_all
  moreover have "(ucast (ucast v :: byte) OR push_bit 8 (ucast (ucast (drop_bit 8 v) :: byte))
      OR push_bit 16 (ucast (ucast (drop_bit 16 v) :: byte)) OR push_bit 24 (ucast (ucast (drop_bit 24 v) :: byte)) :: u32) = v"
  proof (rule bit_word_eqI)
    fix n assume n: "n < LENGTH(32)"
    then consider "n < 8" | "8 \<le> n" "n < 16" | "16 \<le> n" "n < 24" | "24 \<le> n" "n < 32" by fastforce
    then show "bit (ucast (ucast v :: byte) OR push_bit 8 (ucast (ucast (drop_bit 8 v) :: byte))
      OR push_bit 16 (ucast (ucast (drop_bit 16 v) :: byte)) OR push_bit 24 (ucast (ucast (drop_bit 24 v) :: byte)) :: u32) n =
      bit v n"
      by cases (auto simp: bit_simps)
  qed
  ultimately show ?thesis by (simp add: readUint32_def)
qed

text \<open>Two regions of memory that do not meet and do not wrap around.\<close>

definition away :: "u64 \<Rightarrow> nat \<Rightarrow> u64 \<Rightarrow> nat \<Rightarrow> bool" where
  "away a m b n \<longleftrightarrow> unat a + m < 2 ^ 64 \<and> unat b + n < 2 ^ 64 \<and> (unat a + m \<le> unat b \<or> unat b + n \<le> unat a)"

lemma away_sym: "away a m b n \<longleftrightarrow> away b n a m"
  by (auto simp: away_def)

lemma unat_offset: "unat (a :: u64) + i < 2 ^ 64 \<Longrightarrow> unat (a + of_nat i) = unat a + i"
  by (simp add: unat_plus unat_of_nat)

lemma unat_distance: "unat (x - a) = (if unat a \<le> unat x then unat x - unat a else unat x + 2 ^ 64 - unat a)"
  for x a :: u64
  using unat_lt64 [of x] unat_lt64 [of a] by (auto simp: unat_sub_if_size word_size)

lemma poke_outside:
  assumes "away a (length d) b n" "i < n"
  shows "poke mem a d (b + of_nat i) = mem (b + of_nat i)"
proof -
  have "unat (b + of_nat i) = unat b + i" using assms by (intro unat_offset) (simp add: away_def)
  then have "\<not> unat (b + of_nat i - a) < length d"
    using assms unat_lt64 [of a] unfolding unat_distance away_def by auto
  then show ?thesis by (simp add: poke_def)
qed

lemma peek_poke_other: "away a (length d) b n \<Longrightarrow> peek (poke mem a d) b n = peek mem b n"
  by (rule nth_equalityI) (simp_all add: poke_outside)

lemma holds_poke_other: "away a (length d) b (length c) \<Longrightarrow> holds (poke mem a d) b c \<longleftrightarrow> holds mem b c"
  by (simp add: holds_def peek_poke_other)

lemma peek_poke_same:
  assumes "unat a + length d < 2 ^ 64"
  shows "peek (poke mem a d) a (length d) = d"
proof (rule nth_equalityI)
  fix i assume "i < length (peek (poke mem a d) a (length d))"
  then have i: "i < length d" by simp
  then have "unat (of_nat i :: u64) = i" using assms by (simp add: unat_of_nat take_bit_nat_eq_self)
  then show "peek (poke mem a d) a (length d) ! i = d ! i" using i by (simp add: poke_def)
qed simp

lemma away_no_overlap: "away a n b n \<Longrightarrow> \<not> overlap a b n"
  using unat_distance [of a b] unat_distance [of b a] unat_lt64 [of a] unat_lt64 [of b]
  by (auto simp: overlap_def away_def split: if_splits)

section \<open>Loading\<close>

lemma loadModule_correct:
  assumes "holds mem a (uint32_bytes (of_nat (length m)) @ m)" "length m < 2 ^ 32" "away t (length m) (a + 4) (length m)"
  shows "loadModule mem a t = Some (poke mem t m, a + 4 + of_nat (length m), t + of_nat (length m))"
proof -
  have h: "holds mem a (uint32_bytes (of_nat (length m)))" "holds mem (a + 4) m"
    using assms(1) by (simp_all add: holds_append uint32_bytes_def)
  have n: "unat (of_nat (length m) :: u32) = length m" using assms(2) by (simp add: unat_of_nat take_bit_nat_eq_self)
  then have u: "ucast (of_nat (length m) :: u32) = (of_nat (length m) :: u64)"
    by (metis of_nat_unat)
  have "memcpy t (a + 4) (peek mem t (length m)) (peek mem (a + 4) (length m)) (length m) = Some m"
    using h(2) by (simp add: memcpy_spec holds_def)
  then show ?thesis
    by (simp add: loadModule_def Let_def readUint32_bytes [OF h(1)] n u away_no_overlap [OF assms(3)])
qed

text \<open>The targets do not meet the payload nor each other.\<close>

fun fit :: "u64 list \<Rightarrow> buffer list \<Rightarrow> u64 \<Rightarrow> nat \<Rightarrow> bool" where
  "fit (t # ts) (m # ms) p n \<longleftrightarrow>
     length m < 2 ^ 32 \<and> away t (length m) p n \<and>
     list_all2 (\<lambda>u k. away t (length m) u (length k)) (take (length ms) ts) ms \<and> fit ts ms p n"
| "fit ts [] p n \<longleftrightarrow> True"
| "fit [] ms p n \<longleftrightarrow> False"

lemma away_part:
  assumes "away t k p n" "i + j \<le> n"
  shows "away t k (p + of_nat i) j"
proof -
  have "unat (p + of_nat i) = unat p + i" using assms by (intro unat_offset) (simp add: away_def)
  then show ?thesis using assms by (auto simp: away_def)
qed

lemma fit_part:
  assumes "fit ts ms p n" "i + j \<le> n"
  shows "fit ts ms (p + of_nat i) j"
  using assms by (induction ts ms p n rule: fit.induct) (auto intro: away_part)

lemma list_all2_nth: "list_all2 P xs ys \<longleftrightarrow> length xs = length ys \<and> (\<forall>i<length ys. P (xs ! i) (ys ! i))"
  by (auto simp: list_all2_conv_all_nth)

text \<open>What \<open>load_each\<close> does not touch: a region away from every target.\<close>

lemma load_each_correct:
  assumes "holds mem a (payload ms)" "fit ts ms a (length (payload ms))"
  shows "\<exists>mem'. load_each (length ms) ts mem a e = Some (mem', if ms = [] then e else ts ! (length ms - 1) + of_nat (length (last ms))) \<and>
    (\<forall>i<length ms. peek mem' (ts ! i) (length (ms ! i)) = ms ! i) \<and>
    (\<forall>b n. (\<forall>i<length ms. away (ts ! i) (length (ms ! i)) b n) \<longrightarrow> peek mem' b n = peek mem b n)"
  using assms
proof (induction ms arbitrary: ts mem a e)
  case (Cons m ms)
  then obtain t us where ts: "ts = t # us" by (cases ts) auto
  let ?n = "length (payload (m # ms))" and ?mem = "poke mem t m" and ?a = "a + 4 + of_nat (length m)"
  have n: "?n = 4 + length m + length (payload ms)" by (simp add: uint32_bytes_def)
  have h: "holds mem a (uint32_bytes (of_nat (length m)) @ m)" "holds mem ?a (payload ms)"
    using Cons.prems(1) by (simp_all add: holds_append uint32_bytes_def add.assoc)
  have f: "length m < 2 ^ 32" "away t (length m) a ?n" "fit us ms a ?n"
    "list_all2 (\<lambda>u k. away t (length m) u (length k)) (take (length ms) us) ms"
    using Cons.prems(2) by (simp_all add: ts)
  have t: "away t (length m) (a + 4) (length m)" using away_part [OF f(2), of 4 "length m"] n by simp
  have step: "loadModule mem a t = Some (?mem, ?a, t + of_nat (length m))" by (rule loadModule_correct [OF h(1) f(1) t])
  have "away t (length m) ?a (length (payload ms))"
    using away_part [OF f(2), of "4 + length m" "length (payload ms)"] n by (simp add: add.assoc)
  then have h': "holds ?mem ?a (payload ms)" using h(2) holds_poke_other by blast
  have f': "fit us ms ?a (length (payload ms))"
    using fit_part [OF f(3), of "4 + length m" "length (payload ms)"] n by (simp add: add.assoc)
  obtain mem' where IH: "load_each (length ms) us ?mem ?a (t + of_nat (length m)) =
      Some (mem', if ms = [] then t + of_nat (length m) else us ! (length ms - 1) + of_nat (length (last ms)))"
    "\<forall>i<length ms. peek mem' (us ! i) (length (ms ! i)) = ms ! i"
    "\<forall>b n. (\<forall>i<length ms. away (us ! i) (length (ms ! i)) b n) \<longrightarrow> peek mem' b n = peek ?mem b n"
    using Cons.IH [OF h' f', of "t + of_nat (length m)"] by blast
  have each: "away (us ! i) (length (ms ! i)) t (length m)" if "i < length ms" for i
    using f(4) that away_sym by (auto simp: list_all2_nth)
  have own: "peek mem' t (length m) = m"
    using IH(3) each peek_poke_same [of t m mem] f(2) by (auto simp: away_def)
  have res: "load_each (length (m # ms)) ts mem a e = Some (mem', if m # ms = [] then e else ts ! (length (m # ms) - 1) + of_nat (length (last (m # ms))))"
    using step IH(1) by (cases "ms = []") (auto simp: ts nth_Cons')
  have all: "\<forall>i<length (m # ms). peek mem' (ts ! i) (length ((m # ms) ! i)) = (m # ms) ! i"
    using own IH(2) by (auto simp: ts nth_Cons split: nat.split)
  have rest: "peek mem' b n = peek mem b n" if o: "\<forall>i<length (m # ms). away (ts ! i) (length ((m # ms) ! i)) b n" for b n
  proof -
    have "away (us ! i) (length (ms ! i)) b n" if "i < length ms" for i using o that by (auto simp: ts)
    moreover have "away t (length m) b n" using o by (auto simp: ts)
    ultimately show ?thesis using IH(3) peek_poke_other by auto
  qed
  show ?case using res all rest by blast
qed auto


text \<open>
  C33. The modules the packer appends to the kernel are unpacked: in memory that holds the image
  \<open>buildImage\<close> writes, with the targets away from each other and from the payload,
  \<open>loadModules\<close>, started behind the kernel's own bytes, puts the content of each module file at
  its target and returns the address behind the last one.
\<close>

theorem packed_modules_load:
  assumes "files h main_file = Some b" "list_all2 (\<lambda>f m. files h f = Some m) names ms" "creatable out"
    and "out \<notin> set (main_file # names)" "length ms < 2 ^ 32" "ms \<noteq> []"
  shows "\<exists>h' img. buildImage creatable (main_file # names) out h = Some (True, h') \<and> files h' out = Some img \<and>
    (\<forall>mem start ts stale. holds mem start img \<longrightarrow> fit ts ms (start + of_nat (length b) + 4) (length (payload ms)) \<longrightarrow>
       (\<exists>mem'. loadModules stale mem (start + of_nat (length b)) ts =
            Some (mem', ts ! (length ms - 1) + of_nat (length (last ms))) \<and>
          (\<forall>i<length ms. holds mem' (ts ! i) (ms ! i))))"
proof -
  let ?img = "b @ uint32_bytes (of_nat (length ms)) @ payload ms"
  let ?fs = "(files h)(out \<mapsto> [])" and ?h = "h\<lparr>files := (files h)(out \<mapsto> ?img)\<rparr>"
  have n: "length names = length ms" using assms(2) by (rule list_all2_lengthD)
  have f: "list_all2 (\<lambda>f m. ?fs f = Some m) names ms"
    using assms(2,4) by (auto simp: list_all2_conv_all_nth)
  have build: "buildImage creatable (main_file # names) out h = Some (True, ?h)"
    using assms(1,3,4) n by (auto simp: buildImage_def write_file_appends write_modules_appends [OF f])
  have load: "\<exists>mem'. loadModules stale mem (start + of_nat (length b)) ts =
        Some (mem', ts ! (length ms - 1) + of_nat (length (last ms))) \<and> (\<forall>i<length ms. holds mem' (ts ! i) (ms ! i))"
    if h: "holds mem start ?img" and t: "fit ts ms (start + of_nat (length b) + 4) (length (payload ms))"
    for mem start ts stale
  proof -
    let ?a = "start + of_nat (length b)"
    have c: "holds mem ?a (uint32_bytes (of_nat (length ms)))" "holds mem (?a + 4) (payload ms)"
      using h by (simp_all add: holds_append uint32_bytes_def)
    have u: "unat (of_nat (length ms) :: u32) = length ms"
      using assms(5) by (simp add: unat_of_nat take_bit_nat_eq_self)
    from load_each_correct [OF c(2) t, of stale] show ?thesis
      using assms(6) by (auto simp: loadModules_def readUint32_bytes [OF c(1)] u holds_def)
  qed
  show ?thesis using build load by (intro exI [of _ ?h] exI [of _ ?img]) auto
qed

text \<open>Two modules, in a memory that holds the image of a kernel of two bytes at 0x100000.\<close>

definition host_ex :: host where
  "host_ex = \<lparr>files = [''kernel.bin'' \<mapsto> [1, 2], ''code.bin'' \<mapsto> [3, 4, 5], ''data.bin'' \<mapsto> [6]], printed = []\<rparr>"

theorem packed_modules_load_witness:
  "\<exists>h' img. buildImage (\<lambda>_. True) [''kernel.bin'', ''code.bin'', ''data.bin''] ''packedKernel.bin'' host_ex = Some (True, h') \<and>
    files h' ''packedKernel.bin'' = Some img \<and>
    (\<exists>mem'. loadModules 0 (poke (\<lambda>_. 0) 0x100000 img) 0x100002 [0x400000, 0x500000] = Some (mem', 0x500001) \<and>
       holds mem' 0x400000 [3, 4, 5])"
proof -
  have f: "list_all2 (\<lambda>f m. files host_ex f = Some m) [''code.bin'', ''data.bin''] [[3, 4, 5], [6]]"
    by (simp add: host_ex_def)
  have k: "files host_ex ''kernel.bin'' = Some [1, 2]" by (simp add: host_ex_def)
  have o: "''packedKernel.bin'' \<notin> set [''kernel.bin'', ''code.bin'', ''data.bin'']" by simp
  have l: "length [[3, 4, 5], [6 :: byte]] < 2 ^ 32" "[[3, 4, 5], [6 :: byte]] \<noteq> []" by simp_all
  obtain h' img where r: "buildImage (\<lambda>_. True) [''kernel.bin'', ''code.bin'', ''data.bin''] ''packedKernel.bin'' host_ex = Some (True, h')"
    "files h' ''packedKernel.bin'' = Some img"
    and load: "\<And>mem start ts stale. holds mem start img \<Longrightarrow>
      fit ts [[3, 4, 5], [6]] (start + of_nat (length [1 :: byte, 2]) + 4) (length (payload [[3, 4, 5], [6]])) \<Longrightarrow>
      \<exists>mem'. loadModules stale mem (start + of_nat (length [1 :: byte, 2])) ts =
          Some (mem', ts ! (length [[3, 4, 5], [6 :: byte]] - 1) + of_nat (length (last [[3, 4, 5], [6 :: byte]]))) \<and>
        (\<forall>i<length [[3, 4, 5], [6 :: byte]]. holds mem' (ts ! i) ([[3, 4, 5], [6]] ! i))"
    using packed_modules_load [OF k f TrueI o l] by blast
  have "img = [1, 2, 2, 0, 0, 0, 3, 0, 0, 0, 3, 4, 5, 1, 0, 0, 0, 6]"
    using r by (auto simp: buildImage_def host_ex_def write_file_appends write_size_def uint32_bytes_def upt_rec)
  then have "length img = 18" by simp
  then have "holds (poke (\<lambda>_. 0) 0x100000 img) 0x100000 img"
    unfolding holds_def by (intro peek_poke_same) simp
  moreover have "fit [0x400000, 0x500000] [[3, 4, 5], [6]] (0x100000 + of_nat (length [1 :: byte, 2]) + 4) (length (payload [[3, 4, 5], [6]]))"
    by (simp add: away_def uint32_bytes_def)
  ultimately obtain mem' where m: "loadModules 0 (poke (\<lambda>_. 0) 0x100000 img) 0x100002 [0x400000, 0x500000] = Some (mem', 0x500001)"
    and c: "\<forall>i<2. holds mem' ([0x400000, 0x500000] ! i) ([[3, 4, 5], [6]] ! i)"
    using load [where mem = "poke (\<lambda>_. 0) 0x100000 img" and start = "0x100000" and ts = "[0x400000, 0x500000]" and stale = 0] by auto
  have "holds mem' 0x400000 [3, 4, 5]" using c [rule_format, of 0] by simp
  then show ?thesis using r m by blast
qed

end
