(* ===== verification/Boot_Properties.thy ===== *)
theory Boot_Properties
  imports Boot_Loading Memory_Properties Semaphore_Properties
begin

text \<open>
  The descriptors of the interrupts, and the state the kernel starts in: the heap behind the
  modules, the idle process and the mutexes.
\<close>

section \<open>Descriptors\<close>

text \<open>Where the processor goes for an interrupt.\<close>

definition gate_target :: "DESCR_INT \<Rightarrow> u64" where
  "gate_target d = ucast (offset_l d) OR push_bit 16 (ucast (offset_m d)) OR push_bit 32 (ucast (offset_h d))"

lemma setup_IDT_entry_target: "gate_target (setup_IDT_entry i a t i) = a"
proof -
  have "(ucast (ucast (a AND 0xFFFF) :: 16 word) OR push_bit 16 (ucast (ucast (drop_bit 16 a AND 0xFFFF) :: 16 word))
      OR push_bit 32 (ucast (ucast (drop_bit 32 a AND 0xFFFFFFFF) :: u32)) :: u64) = a"
  proof (rule bit_word_eqI)
    fix n assume n: "n < LENGTH(64)"
    have m: "(0xFFFF :: u64) = mask 16" "(0xFFFFFFFF :: u64) = mask 32" by (simp_all add: mask_eq_exp_minus_1)
    from n consider "n < 16" | "16 \<le> n" "n < 32" | "32 \<le> n" "n < 64" by fastforce
    then show "bit (ucast (ucast (a AND 0xFFFF) :: 16 word) OR push_bit 16 (ucast (ucast (drop_bit 16 a AND 0xFFFF) :: 16 word))
      OR push_bit 32 (ucast (ucast (drop_bit 32 a AND 0xFFFFFFFF) :: u32)) :: u64) n = bit a n"
      unfolding m by cases (auto simp: bit_simps)
  qed
  then show ?thesis by (simp add: gate_target_def setup_IDT_entry_def)
qed

text \<open>
  After \<open>load_idt\<close> the five descriptors lead to the routines they were set up for, as present
  interrupt gates of the kernel's code segment, and no other descriptor has changed.
\<close>

theorem idt_reaches_handlers:
  "gate_target (fst (load_idt h t k) 0x20) = irq00Handler h \<and> gate_target (fst (load_idt h t k) 0x21) = irq01Handler h \<and>
   gate_target (fst (load_idt h t k) 0x00) = exception0Handler h \<and> gate_target (fst (load_idt h t k) 0x06) = exception6Handler h \<and>
   gate_target (fst (load_idt h t k) 0x80) = syscallINTHandler h \<and>
   map (\<lambda>i. (access (fst (load_idt h t k) i), selector (fst (load_idt h t k) i))) [0x20, 0x21, 0x00, 0x06, 0x80] =
     [(0x8E, 8), (0x8E, 8), (0x8E, 8), (0x8E, 8), (0x8E, 8)] \<and>
   (\<lambda>i. fst (load_idt h t k) i)(0x20 := t 0x20, 0x21 := t 0x21, 0 := t 0, 6 := t 6, 0x80 := t 0x80) = t \<and>
   port_log (snd (load_idt h t k)) = [(0xA1, 0xFF), (0x21, 0xFC)] @ port_log k"
proof -
  have u: "j \<noteq> i \<Longrightarrow> setup_IDT_entry i a t j = t j" for i a t j
    by (simp add: setup_IDT_entry_def)
  have s: "access (setup_IDT_entry i a t i) = 0x8E" "selector (setup_IDT_entry i a t i) = 8" for i a t
    by (simp_all add: setup_IDT_entry_def ACS_INT_def)
  have t: "fst (load_idt h t k) = setup_IDT_entry 0x80 (syscallINTHandler h) (setup_IDT_entry 6 (exception6Handler h)
      (setup_IDT_entry 0 (exception0Handler h) (setup_IDT_entry 0x21 (irq01Handler h) (setup_IDT_entry 0x20 (irq00Handler h) t))))"
    "port_log (snd (load_idt h t k)) = [(0xA1, 0xFF), (0x21, 0xFC)] @ port_log k"
    by (simp_all add: load_idt_def Let_def picMasterMask_def picSlaveMask_def outb_def)
  have "(\<lambda>i. fst (load_idt h t k) i)(0x20 := t 0x20, 0x21 := t 0x21, 0 := t 0, 6 := t 6, 0x80 := t 0x80) = t"
    unfolding t by (rule ext) (auto simp: setup_IDT_entry_def)
  then show ?thesis
    by (simp only: t) (simp add: u setup_IDT_entry_target s)
qed


section \<open>The first state\<close>

text \<open>The mutexes that are opened one after the other in an empty table.\<close>

definition mutex :: "nat \<Rightarrow> cstring \<Rightarrow> sem_ts" where
  "mutex i name = \<lparr>sem_id = int i * 2 + 1, sem_name = name, sem_lock = 0, sem_value = 1, open_count = 0,
     blocked_processes = replicate MAX_PROC (- 1), blocked_first = 0, blocked_last = 0\<rparr>"

fun count_open :: "sem_ts list \<Rightarrow> sem_ts list" where
  "count_open [] = []"
| "count_open (s # ss) = s\<lparr>open_count := open_count s + 1\<rparr> # ss"

lemma find_upt_split:
  assumes "i < n" "P i" "\<And>j. j < i \<Longrightarrow> \<not> P j"
  shows "find P [0..<n] = Some i"
  using assms by (subst find_Some_iff) (auto intro!: exI [of _ i])

lemma sem_open_fresh:
  assumes "semaphores k = used @ replicate m sem_zero" "length used + m = MAX_SEMS" "0 < m"
    and "list_all (\<lambda>s. is_in_use (sem_id s) \<and> sem_name s \<noteq> name) used" "length name < NAME_CHAR_LIMIT"
    and "used \<noteq> [] \<Longrightarrow> open_count (hd used) < 100"
  shows "sem_open name 1 k =
    Done 0 (k\<lparr>semaphores := count_open (used @ [mutex (length used) name]) @ replicate (m - 1) sem_zero\<rparr>)"
proof -
  let ?n = "length used"
  have old: "is_in_use (sem_id (semaphores k ! j))" "sem_name (semaphores k ! j) \<noteq> name" if "j < ?n" for j
    using assms(4) that by (simp_all add: assms(1) nth_append list_all_length)
  have new: "semaphores k ! j = sem_zero" if "?n \<le> j" "j < MAX_SEMS" for j
    using that assms(2) by (simp add: assms(1) nth_append)
  have free: "\<not> is_in_use (sem_id sem_zero)" by (simp add: is_in_use_def sem_zero_def)
  have "get_sem_by_name name k = None"
  proof -
    have "\<not> (sem_name (semaphores k ! j) = name \<and> is_in_use (sem_id (semaphores k ! j)))" if "j < MAX_SEMS" for j
      using old(2) [of j] new [of j] free that by (cases "j < ?n") auto
    then show ?thesis unfolding get_sem_by_name_def first_sem_def find_None_iff by auto
  qed
  moreover have "get_new_sem k = Some ?n"
    unfolding get_new_sem_def first_sem_def
  proof (rule find_upt_split)
    show n: "?n < MAX_SEMS" using assms(2,3) by simp
    show "\<not> is_in_use (sem_id (semaphores k ! ?n))" using new [OF order_refl n] free by simp
  qed (use old(1) in simp)
  moreover obtain m' where m: "m = Suc m'" using assms(3) by (cases m) auto
  have "(semaphores k)[?n := mutex ?n name] = used @ mutex ?n name # replicate m' sem_zero"
    by (simp add: assms(1) m list_update_append)
  moreover have "sem_zero\<lparr>sem_id := int ?n * 2 + 1, open_count := 0, sem_value := 1, blocked_first := 0, blocked_last := 0,
      sem_lock := 0, sem_name := name, blocked_processes := replicate MAX_PROC (- 1)\<rparr> = mutex ?n name"
    by (simp add: mutex_def sem_zero_def)
  ultimately have i: "sem_init name 1 k = Done 0 (k\<lparr>semaphores := used @ mutex ?n name # replicate m' sem_zero\<rparr>)"
    using assms(2,3,5) new [of ?n] by (simp add: sem_init_def upd_sem_def)
  obtain s ss where u: "used @ [mutex ?n name] = s # ss" by (cases "used @ [mutex ?n name]") auto
  have small: "open_count s < 100"
    using u assms(6) by (cases used) (auto simp: mutex_def)
  have c: "atomic_inc (open_count s) f = f (open_count s + 1)" for f :: "u64 \<Rightarrow> int res"
    using small by (intro atomic_inc_small) (auto simp: word_less_nat_alt)
  have l: "used @ mutex ?n name # r = s # ss @ r" for r
    using u by (metis append.assoc append_Cons append_Nil)
  show ?thesis
    using \<open>get_sem_by_name name k = None\<close> by (simp add: sem_open_def i l u c upd_sem_def m)
qed


lemma kmalloc_cut:
  assumes "mm_refines base len (mm k) [(b, n)] A" "req \<noteq> 0" "align_size req = req" "unat req + 24 \<le> n"
  obtains s where "kmalloc req k = Done (b + 16) (k\<lparr>mm := s\<rparr>)"
    "mm_refines base len s [(b + 16 + req, n - 16 - unat req)] ((b, unat req) # A)"
proof -
  have "take_fit (unat (align_size req)) [(b, n)] = Some ((b, unat req), [(b + 16 + req, n - 16 - unat req)])"
    using assms(3,4) by simp
  from mm_malloc_refines(2) [OF assms(1,2) this] that show thesis by (auto simp: kmalloc_def)
qed

lemma no_semaphores:
  assumes "semaphores k = replicate MAX_SEMS sem_zero"
  shows "get_sem_by_name name k = None"
proof -
  have "\<not> is_in_use (sem_id (semaphores k ! j))" if "j < MAX_SEMS" for j
    using that by (simp add: assms is_in_use_def sem_zero_def)
  then show ?thesis by (auto simp: get_sem_by_name_def first_sem_def find_None_iff)
qed

lemma payload_nonzero:
  assumes "mm_refines base len s F A" "(b, n) \<in> set A"
  shows "b + 16 \<noteq> 0"
proof -
  obtain fs as where r: "mm_rep base len s fs as" and A: "A = blocks s as"
    using assms(1) by (auto simp: mm_refines_def)
  then have "b \<in> set as" using assms(2) by (auto simp: blocks_def)
  then have "bend (bsz (mm_heap s)) b < 2 ^ 64" using mm_rep_block(6) [OF r] by blast
  then have "unat (b + 16) = unat b + 16" using unat_offset [of b 16] by (simp add: bend_def)
  then show ?thesis by (metis add_is_0 unat_0 zero_neq_numeral)
qed

text \<open>The idle process.\<close>

definition idle_process :: "u64 \<Rightarrow> u64 \<Rightarrow> process" where
  "idle_process a name = \<lparr>p_name = name, p_argv = a + 176, p_pid = 0, p_ppid = 0, p_sp = a + 4032,
     p_bp = a + 4192, p_state = RUNNING, p_stack = a + 200, p_read_fd = 0, p_write_fd = 1,
     p_priority = MAX_QUANTUM, p_children = 0, p_blocked_by_children = 0\<rparr>"

lemma newProcess_first:
  assumes "mm_refines base len (mm k) [(a, n)] A" "4200 \<le> n" "currentNode k = 0" "cells k argv = 0"
    and "semaphores k = replicate MAX_SEMS sem_zero" "pidc k = 0"
  obtains s where "newProcess name entryPoint argv r w p k = Done (a + 16)
      (k\<lparr>mm := s, cells := (cells k)(a + 136 := 0), pidc := 1,
         frames := (frames k)(a + 3992 \<mapsto> createStack (kill_address k) entryPoint (a + 4152) 0 (a + 136)),
         procs := (procs k)(a + 16 \<mapsto> (idle_process (a - 40) name)
           \<lparr>p_state := NEW, p_read_fd := r, p_write_fd := w, p_priority := p\<rparr>)\<rparr>)"
    "mm_refines base len s [(a + 4160, n - 4160)] ([(a + 144, 4000), (a + 120, 8), (a, 104)] @ A)"
proof -
  have al: "align_size 104 = 104" "align_size 8 = 8" "align_size 4000 = 4000" by (simp_all add: align_size_def)
  obtain s1 where m1: "kmalloc sizeof_Process k = Done (a + 16) (k\<lparr>mm := s1\<rparr>)"
    and r1: "mm_refines base len s1 [(a + 16 + sizeof_Process, n - 16 - unat sizeof_Process)] ((a, unat sizeof_Process) # A)"
    by (rule kmalloc_cut [OF assms(1), of sizeof_Process]) (use assms(2) al in auto)
  have un: "unat (104 :: u64) = 104" "unat (8 :: u64) = 8" "unat (4000 :: u64) = 4000" by simp_all
  let ?k = "k\<lparr>mm := s1\<rparr>"
  have r1': "mm_refines base len (mm ?k) [(a + 120, n - 120)] ((a, 104) # A)" using r1 unfolding un by (simp add: add.commute)
  obtain s2 where m2: "kmalloc 8 ?k = Done (a + 120 + 16) (?k\<lparr>mm := s2\<rparr>)"
    and r2: "mm_refines base len s2 [(a + 120 + 16 + 8, n - 120 - 16 - unat (8 :: u64))] ((a + 120, unat (8 :: u64)) # (a, 104) # A)"
    by (rule kmalloc_cut [OF r1', of 8]) (use assms(2) al in auto)
  let ?k2 = "set_cell (a + 136) 0 0 (k\<lparr>mm := s2\<rparr>)"
  have r2': "mm_refines base len (mm ?k2) [(a + 144, n - 144)] ((a + 120, 8) # (a, 104) # A)"
    using r2 unfolding un by (simp add: add.commute set_cell_def)
  obtain s3 where m3: "kmalloc STACK_FRAME_SIZE ?k2 = Done (a + 144 + 16) (?k2\<lparr>mm := s3\<rparr>)"
    and r3: "mm_refines base len s3 [(a + 144 + 16 + STACK_FRAME_SIZE, n - 144 - 16 - unat STACK_FRAME_SIZE)]
      ((a + 144, unat STACK_FRAME_SIZE) # (a + 120, 8) # (a, 104) # A)"
    by (rule kmalloc_cut [OF r2', of STACK_FRAME_SIZE]) (use assms(2) al in auto)
  have r3': "mm_refines base len s3 [(a + 4160, n - 4160)] ([(a + 144, 4000), (a + 120, 8), (a, 104)] @ A)"
    using r3 unfolding un by (simp add: add.commute)
  have nz: "a + 16 \<noteq> 0" "a + 136 \<noteq> 0" "a + 160 \<noteq> 0"
    using payload_nonzero [OF r3', of a 104] payload_nonzero [OF r3', of "a + 120" 8]
      payload_nonzero [OF r3', of "a + 144" 4000] by (simp_all add: add.commute)
  have c: "count_argv (cells k) argv 0 = Some 0" using assms(4) by (subst count_argv.simps) simp
  have x: "a + 120 + 16 = a + 136" "a + 144 + 16 = a + 160" by simp_all
  have m3': "kmalloc STACK_FRAME_SIZE (k\<lparr>mm := s2, cells := (cells k)(a + 136 := 0)\<rparr>) =
      Done (a + 160) (k\<lparr>mm := s3, cells := (cells k)(a + 136 := 0)\<rparr>)"
    using m3 [unfolded x] by (simp add: set_cell_def)
  have idle: "(idle_process (a - 40) name)\<lparr>p_state := NEW, p_read_fd := r, p_write_fd := w, p_priority := p\<rparr> =
      \<lparr>p_name = name, p_argv = a + 136, p_pid = 0, p_ppid = 0, p_sp = a + 3992, p_bp = a + 4152, p_state = NEW,
        p_stack = a + 160, p_read_fd = r, p_write_fd = w, p_priority = p, p_children = 0, p_blocked_by_children = 0\<rparr>"
    by (simp add: idle_process_def add.commute)
  show thesis
    by (rule that [OF _ r3'])
      (simp add: newProcess_def m1 nz c save_argv_def m2 [unfolded x] m3' set_cell_def sem_wait_def sem_post_def
        no_semaphores assms get_running_pid_def idle, simp add: Let_def add.commute)
qed


lemma init_scheduler_fresh:
  assumes "mm_refines base len (mm k) [(a, n)] []" "4240 \<le> n" "currentNode k = 0" "cells k argv = 0"
    and "semaphores k = replicate MAX_SEMS sem_zero" "pidc k = 0"
  obtains s where "init_scheduler name entryPoint argv k = Done ()
      (k\<lparr>mm := s, cells := (cells k)(a + 176 := 0), pidc := 1,
         frames := (frames k)(a + 4032 \<mapsto> createStack (kill_address k) entryPoint (a + 4192) 0 (a + 176)),
         procs := (procs k)(a + 56 \<mapsto> idle_process a name),
         nodes := (nodes k)(a + 16 \<mapsto> \<lparr>n_quantums = MAX_QUANTUM, n_proc = a + 56, n_next = a + 16\<rparr>),
         first := a + 16, currentNode := a + 16, counter := counter k + 1,
         semaphores := [(mutex 0 PIDC_MUTEX)\<lparr>open_count := 3\<rparr>, mutex 1 SCHED_MUTEX, mutex 2 PROC_MUTEX] @ replicate 253 sem_zero\<rparr>)"
    "mm_refines base len s [(a + 4200, n - 4200)] [(a + 184, 4000), (a + 160, 8), (a + 40, 104), (a, 24)]"
proof -
  have al: "align_size 24 = 24" by (simp add: align_size_def)
  have un: "unat (24 :: u64) = 24" by simp
  obtain s1 where m1: "kmalloc sizeof_Node k = Done (a + 16) (k\<lparr>mm := s1\<rparr>)"
    and r1: "mm_refines base len s1 [(a + 16 + sizeof_Node, n - 16 - unat sizeof_Node)] ((a, unat sizeof_Node) # [])"
    by (rule kmalloc_cut [OF assms(1), of sizeof_Node]) (use assms(2) al in auto)
  have r1': "mm_refines base len (mm (k\<lparr>mm := s1\<rparr>)) [(a + 40, n - 40)] [(a, 24)]"
    using r1 unfolding un by (simp add: add.commute)
  have nz: "a + 16 \<noteq> 0" using payload_nonzero [OF r1', of a 24] by simp
  let ?k = "k\<lparr>mm := s1\<rparr>"
  have *: "4200 \<le> n - 40" "currentNode ?k = 0" "cells ?k argv = 0" "semaphores ?k = replicate MAX_SEMS sem_zero" "pidc ?k = 0"
    using assms by simp_all
  obtain s where p: "newProcess name entryPoint argv 0 1 MAX_QUANTUM ?k = Done (a + 40 + 16)
      (?k\<lparr>mm := s, cells := (cells ?k)(a + 40 + 136 := 0), pidc := 1,
         frames := (frames ?k)(a + 40 + 3992 \<mapsto> createStack (kill_address ?k) entryPoint (a + 40 + 4152) 0 (a + 40 + 136)),
         procs := (procs ?k)(a + 40 + 16 \<mapsto> (idle_process (a + 40 - 40) name)
           \<lparr>p_state := NEW, p_read_fd := 0, p_write_fd := 1, p_priority := MAX_QUANTUM\<rparr>)\<rparr>)"
    and r: "mm_refines base len s [(a + 40 + 4160, n - 40 - 4160)] ([(a + 40 + 144, 4000), (a + 40 + 120, 8), (a + 40, 104)] @ [(a, 24)])"
    by (rule newProcess_first [OF r1' *])
  have r': "mm_refines base len s [(a + 4200, n - 4200)] [(a + 184, 4000), (a + 160, 8), (a + 40, 104), (a, 24)]"
    using r by (simp add: add.commute)
  have i: "is_in_use (sem_id (mutex j nm))" "sem_name (mutex j nm) = nm" "open_count (mutex j nm) = 0" for j nm
    by (simp_all add: mutex_def is_in_use_def)
  have names: "length PIDC_MUTEX < NAME_CHAR_LIMIT" "length SCHED_MUTEX < NAME_CHAR_LIMIT" "length PROC_MUTEX < NAME_CHAR_LIMIT"
    "SCHED_MUTEX \<noteq> PIDC_MUTEX" "PROC_MUTEX \<noteq> PIDC_MUTEX" "PROC_MUTEX \<noteq> SCHED_MUTEX"
    by (simp_all add: PIDC_MUTEX_def SCHED_MUTEX_def PROC_MUTEX_def ascii_def NAME_CHAR_LIMIT_def)
  have two: "mutex (Suc (Suc 0)) = mutex 2" by (simp add: numeral_2_eq_2)
  have o1: "sem_open PIDC_MUTEX 1 k0 = Done 0 (k0\<lparr>semaphores := [(mutex 0 PIDC_MUTEX)\<lparr>open_count := 1\<rparr>] @ replicate 255 sem_zero\<rparr>)"
    if "semaphores k0 = replicate MAX_SEMS sem_zero" for k0
    using sem_open_fresh [of k0 "[]" 256 PIDC_MUTEX] that names i by (simp add: MAX_SEMS_def)
  have o2: "sem_open SCHED_MUTEX 1 k0 = Done 0 (k0\<lparr>semaphores := [(mutex 0 PIDC_MUTEX)\<lparr>open_count := 2\<rparr>, mutex 1 SCHED_MUTEX] @ replicate 254 sem_zero\<rparr>)"
    if "semaphores k0 = [(mutex 0 PIDC_MUTEX)\<lparr>open_count := 1\<rparr>] @ replicate 255 sem_zero" for k0
    using sem_open_fresh [of k0 "[(mutex 0 PIDC_MUTEX)\<lparr>open_count := 1\<rparr>]" 255 SCHED_MUTEX] that names i by (simp add: MAX_SEMS_def)
  have o3: "sem_open PROC_MUTEX 1 k0 = Done 0 (k0\<lparr>semaphores := [(mutex 0 PIDC_MUTEX)\<lparr>open_count := 3\<rparr>, mutex 1 SCHED_MUTEX, mutex 2 PROC_MUTEX] @ replicate 253 sem_zero\<rparr>)"
    if "semaphores k0 = [(mutex 0 PIDC_MUTEX)\<lparr>open_count := 2\<rparr>, mutex 1 SCHED_MUTEX] @ replicate 254 sem_zero" for k0
    using sem_open_fresh [of k0 "[(mutex 0 PIDC_MUTEX)\<lparr>open_count := 2\<rparr>, mutex 1 SCHED_MUTEX]" 254 PROC_MUTEX] that names i
    by (simp add: MAX_SEMS_def two)
  have x: "a + 40 + 16 = a + 56" "a + 40 + 136 = a + 176" "a + 40 + 3992 = a + 4032" "a + 40 + 4152 = a + 4192"
    by simp_all
  have id: "(idle_process a name)\<lparr>p_read_fd := 0, p_write_fd := 1, p_priority := MAX_QUANTUM, p_state := RUNNING\<rparr> = idle_process a name"
    by (simp add: idle_process_def)
  show thesis
    by (rule that [OF _ r'])
      (simp add: init_scheduler_def m1 nz p [unfolded x] with_proc_def set_state_def upd_proc_def o1 o2 o3 assms(5) id)
qed


text \<open>The table of semaphores with the three mutexes.\<close>

lemma mutexes_ready:
  assumes "semaphores k = [(mutex 0 PIDC_MUTEX)\<lparr>open_count := 3\<rparr>, mutex 1 SCHED_MUTEX, mutex 2 PROC_MUTEX] @ replicate 253 sem_zero"
  shows "sem_table k" "get_sem_by_name PIDC_MUTEX k = Some 0" "get_sem_by_name SCHED_MUTEX k = Some 1"
    "get_sem_by_name PROC_MUTEX k = Some 2" "i < 3 \<Longrightarrow> sem_conserved i 1 (k, 0)"
proof -
  let ?ss = "semaphores k"
  have at: "?ss ! 0 = (mutex 0 PIDC_MUTEX)\<lparr>open_count := 3\<rparr>" "?ss ! 1 = mutex 1 SCHED_MUTEX" "?ss ! 2 = mutex 2 PROC_MUTEX"
    by (simp_all add: assms)
  have rest: "?ss ! i = sem_zero" if "3 \<le> i" "i < 256" for i
    using that by (simp add: assms nth_append nth_Cons')
  have three: "i = 0 \<or> i = 1 \<or> i = 2" if "i < 3" for i :: nat using that by linarith
  have use: "is_in_use (sem_id (?ss ! i)) \<longleftrightarrow> i < 3" if "i < 256" for i
  proof (cases "i < 3")
    case True
    then show ?thesis using three [OF True] at by (auto simp: mutex_def is_in_use_def)
  qed (use rest that in \<open>simp add: is_in_use_def sem_zero_def\<close>)
  have names: "SCHED_MUTEX \<noteq> PIDC_MUTEX" "PROC_MUTEX \<noteq> PIDC_MUTEX" "PROC_MUTEX \<noteq> SCHED_MUTEX"
    by (simp_all add: PIDC_MUTEX_def SCHED_MUTEX_def PROC_MUTEX_def ascii_def)
  have nm: "sem_name (?ss ! 0) = PIDC_MUTEX" "sem_name (?ss ! 1) = SCHED_MUTEX" "sem_name (?ss ! 2) = PROC_MUTEX"
    unfolding at by (simp_all add: mutex_def)
  have inj: "sem_name (?ss ! i) = sem_name (?ss ! j) \<Longrightarrow> i = j" if "i < 3" "j < 3" for i j
    using three [OF that(1)] three [OF that(2)] nm names by metis
  have blocked: "length (blocked_processes (?ss ! i)) = MAX_PROC" if "i < 3" for i
    using three [OF that] at by (auto simp: mutex_def)
  have len: "length ?ss = 256" by (simp add: assms)
  show "sem_table k"
    unfolding sem_table_def MAX_SEMS_def using len use blocked inj by metis
  have by_name: "get_sem_by_name (sem_name (?ss ! i)) k = Some i" if "i < 3" for i
    unfolding get_sem_by_name_def first_sem_def MAX_SEMS_def
  proof (rule find_upt_split)
    show "i < 256" using that by simp
    show "sem_name (?ss ! i) = sem_name (?ss ! i) \<and> is_in_use (sem_id (?ss ! i))" using that use by simp
    show "\<not> (sem_name (?ss ! j) = sem_name (?ss ! i) \<and> is_in_use (sem_id (?ss ! j)))" if "j < i" for j
      using inj [of j i] that \<open>i < 3\<close> by auto
  qed
  show "get_sem_by_name PIDC_MUTEX k = Some 0" "get_sem_by_name SCHED_MUTEX k = Some 1" "get_sem_by_name PROC_MUTEX k = Some 2"
    using by_name [of 0] by_name [of 1] by_name [of 2] nm by simp_all
  show "sem_conserved i 1 (k, 0)" if "i < 3"
  proof -
    have "sem_lock (?ss ! i) = 0 \<and> sem_value (?ss ! i) = 1" using three [OF that] at by (auto simp: mutex_def)
    then show ?thesis using that len by (simp add: sem_conserved_def)
  qed
qed

text \<open>The heap starts on a page.\<close>

lemma heap_start_page:
  assumes "unat e + 0x101000 < 2 ^ 64"
  shows "unat (heap_start e) = unat e + 0x1000 - unat e mod 0x1000" "heap_start e mod 8 = 0" "heap_start e \<noteq> 0"
proof -
  have m: "unat (e mod 0x1000) = unat e mod 0x1000" by (simp add: unat_mod)
  have p: "unat (e + 0x1000) = unat e + 0x1000" using assms unat_offset [of e "0x1000"] by simp
  have le: "unat e mod 0x1000 < 0x1000" by simp
  have "e mod 0x1000 \<le> e + 0x1000" unfolding word_le_nat_alt m p using le by linarith
  then have u: "unat (e + 0x1000 - e mod 0x1000) = unat (e + 0x1000) - unat (e mod 0x1000)" by (rule unat_sub)
  then show u': "unat (heap_start e) = unat e + 0x1000 - unat e mod 0x1000"
    unfolding heap_start_def PageSize_def m p .
  define q r where "q = unat e div 0x1000" and "r = unat e mod 0x1000"
  have e: "unat e = 0x1000 * q + r" "r < 0x1000" by (simp_all add: q_def r_def)
  have "unat (heap_start e) = 0x1000 * (q + 1)"
    unfolding u' r_def [symmetric] using e by simp
  then have "unat (heap_start e) mod 8 = 0" by (simp add: mod_mult_left_eq)
  then show "heap_start e mod 8 = 0" using unat_mod [of "heap_start e" 8] by (simp flip: unat_eq_zero)
  show "heap_start e \<noteq> 0" using \<open>unat (heap_start e) = 0x1000 * (q + 1)\<close> by auto
qed


lemma memset_fills: "n \<le> length d \<Longrightarrow> memset d c n = Some (replicate n c @ drop n d)"
proof (induction n arbitrary: d)
  case (Suc n)
  have "drop n (d[n := c]) = c # drop (Suc n) d"
    using Suc.prems by (simp add: drop_update_swap Cons_nth_drop_Suc [symmetric])
  then show ?case using Suc by (simp add: replicate_append_same)
qed simp

text \<open>The heap behind the modules, as the start leaves it to the scheduler.\<close>

lemma boot_heap:
  assumes "unat e + 0x101000 < 2 ^ 64"
  shows "mm_refines (unat (heap_start e)) 0x100000 (fst (initMemoryManager (mm (clear_statics k)) (heap_start e) HEAP_SIZE))
    [(heap_start e, 0x100000 - 16)] []"
proof -
  let ?a = "heap_start e" and ?k = "clear_statics k"
  let ?m = "fst (initMemoryManager (mm ?k) ?a HEAP_SIZE)"
  note page = heap_start_page [OF assms]
  have i: "initMemoryManager (mm ?k) ?a HEAP_SIZE = (?m, 0)"
    using page(2) by (simp add: initMemoryManager_def HEAP_SIZE_def)
  have z: "alloc_list (mm ?k) = 0" by (simp add: clear_statics_def)
  have h: "unat HEAP_SIZE = 0x100000" by (simp add: HEAP_SIZE_def)
  have "unat ?a + unat HEAP_SIZE < 2 ^ 64" unfolding page(1) h using assms by linarith
  from init_refines [OF i z page(3) this] show ?thesis unfolding h .
qed

lemma boot_state:
  assumes "loadModules stale mem (endOfKernelBinary l) [uCodeModuleAddress, uDataModuleAddress] = Some (mem1, e)"
    and "unat e + 0x101000 < 2 ^ 64"
  shows "\<exists>mem' k'. initializeKernelBinary l stale mem k = Done (mem', getStackBase l) k' \<and>
    mm_refines (unat (heap_start e)) 0x100000 (mm k') [(heap_start e + 4200, 0x100000 - 4216)]
      [(heap_start e + 184, 4000), (heap_start e + 160, 8), (heap_start e + 40, 104), (heap_start e, 24)] \<and>
    ring k' [first k'] \<and> currentNode k' = first k' \<and> counter k' = 1 \<and>
    proc_at k' (first k') = Some (idle_process (heap_start e) (idle_name l)) \<and>
    frames k' (p_sp (idle_process (heap_start e) (idle_name l))) =
      Some (createStack (kill_address k') (idle_entry l) (heap_start e + 4192) 0 (heap_start e + 176)) \<and>
    sem_table k' \<and> map (\<lambda>n. get_sem_by_name n k') [PIDC_MUTEX, SCHED_MUTEX, PROC_MUTEX] = [Some 0, Some 1, Some 2] \<and>
    (\<forall>i<3. sem_conserved i 1 (k', 0)) \<and>
    (\<forall>a n. away (bss l) (unat (endOfKernel l - bss l)) a n \<longrightarrow> peek mem' a n = peek mem1 a n)"
proof -
  let ?a = "heap_start e" and ?len = "unat (endOfKernel l - bss l)"
  have d: "memset (peek mem1 (bss l) ?len) 0 ?len = Some (replicate ?len 0)"
    by (simp add: memset_fills)
  have c: "clearBSS mem1 (bss l) (endOfKernel l - bss l) = Some (poke mem1 (bss l) (replicate ?len 0))"
    by (simp add: clearBSS_def d)
  let ?k = "clear_statics k"
  let ?m = "fst (initMemoryManager (mm ?k) ?a HEAP_SIZE)"
  note r = boot_heap [OF assms(2), of k]
  let ?k0 = "set_cell (idle_argv l) 0 0 (?k\<lparr>mm := ?m\<rparr>)"
  have s: "semaphores ?k0 = replicate MAX_SEMS sem_zero" "currentNode ?k0 = 0" "pidc ?k0 = 0" "cells ?k0 (idle_argv l) = 0"
    "mm ?k0 = ?m" "counter ?k0 = 0"
    by (simp_all add: set_cell_def clear_statics_def MAX_SEMS_def)
  obtain m' where b: "init_scheduler (idle_name l) (idle_entry l) (idle_argv l) ?k0 = Done ()
      (?k0\<lparr>mm := m', cells := (cells ?k0)(?a + 176 := 0), pidc := 1,
         frames := (frames ?k0)(?a + 4032 \<mapsto> createStack (kill_address ?k0) (idle_entry l) (?a + 4192) 0 (?a + 176)),
         procs := (procs ?k0)(?a + 56 \<mapsto> idle_process ?a (idle_name l)),
         nodes := (nodes ?k0)(?a + 16 \<mapsto> \<lparr>n_quantums = MAX_QUANTUM, n_proc = ?a + 56, n_next = ?a + 16\<rparr>),
         first := ?a + 16, currentNode := ?a + 16, counter := counter ?k0 + 1,
         semaphores := [(mutex 0 PIDC_MUTEX)\<lparr>open_count := 3\<rparr>, mutex 1 SCHED_MUTEX, mutex 2 PROC_MUTEX] @ replicate 253 sem_zero\<rparr>)"
      (is "_ = Done () ?k'")
    and m': "mm_refines (unat ?a) 0x100000 m' [(?a + 4200, 0x100000 - 16 - 4200)]
      [(?a + 184, 4000), (?a + 160, 8), (?a + 40, 104), (?a, 24)]"
    using r s init_scheduler_fresh [of "unat ?a" "0x100000" ?k0 ?a "0x100000 - 16" "idle_argv l" "idle_name l" "idle_entry l"]
    by auto
  have nz: "?a + 16 \<noteq> 0" using payload_nonzero [OF m', of ?a 24] by simp
  have ring: "ring ?k' [first ?k']"
    using nz by (simp add: ring_def broken_def proc_at_def next_of_def)
  have sems: "semaphores ?k' = [(mutex 0 PIDC_MUTEX)\<lparr>open_count := 3\<rparr>, mutex 1 SCHED_MUTEX, mutex 2 PROC_MUTEX] @ replicate 253 sem_zero"
    by simp
  have keep: "peek (poke mem1 (bss l) (replicate ?len 0)) a n = peek mem1 a n" if "away (bss l) ?len a n" for a n
    using peek_poke_other [of "bss l" "replicate ?len 0" a n mem1] that by simp
  have run: "initializeKernelBinary l stale mem k = Done (poke mem1 (bss l) (replicate ?len 0), getStackBase l) ?k'"
    unfolding initializeKernelBinary_def assms(1) option.case prod.case c Let_def b bind_simps ..
  have "proc_at ?k' (first ?k') = Some (idle_process ?a (idle_name l))" "currentNode ?k' = first ?k'" "counter ?k' = 1"
    "frames ?k' (p_sp (idle_process ?a (idle_name l))) = Some (createStack (kill_address ?k') (idle_entry l) (?a + 4192) 0 (?a + 176))"
    using s(6) by (simp_all add: proc_at_def idle_process_def)
  moreover have "map (\<lambda>n. get_sem_by_name n ?k') [PIDC_MUTEX, SCHED_MUTEX, PROC_MUTEX] = [Some 0, Some 1, Some 2]"
    using mutexes_ready(2-4) [OF sems] by (simp del: One_nat_def)
  moreover have "mm ?k' = m'" by simp
  ultimately show ?thesis
    using run m' ring mutexes_ready(1,5) [OF sems] keep by (intro exI conjI) (assumption | simp)+
qed



text \<open>
  C34. The start: when the modules are unpacked and the heap behind them fits the address space,
  \<open>initializeKernelBinary\<close> returns the base of the stack. The allocator then represents one free
  block behind four allocated ones, the ring of processes is the idle process, RUNNING with pid
  0, with a first frame that leads to its entry point, and the three mutexes of the kernel are
  open, each with one unit. What was loaded outside the cleared region is still there.
\<close>
theorem boot_ready:
  assumes "loadModules stale mem (endOfKernelBinary l) [uCodeModuleAddress, uDataModuleAddress] = Some (mem1, e)"
    and "unat e + 0x101000 < 2 ^ 64"
  shows "\<exists>mem' k'. initializeKernelBinary l stale mem k = Done (mem', getStackBase l) k' \<and>
    mm_refines (unat (heap_start e)) 0x100000 (mm k') [(heap_start e + 4200, 0x100000 - 4216)]
      [(heap_start e + 184, 4000), (heap_start e + 160, 8), (heap_start e + 40, 104), (heap_start e, 24)] \<and>
    ring k' [first k'] \<and> currentNode k' = first k' \<and> counter k' = 1 \<and>
    proc_at k' (first k') = Some (idle_process (heap_start e) (idle_name l)) \<and>
    frames k' (p_sp (idle_process (heap_start e) (idle_name l))) =
      Some (createStack (kill_address k') (idle_entry l) (heap_start e + 4192) 0 (heap_start e + 176)) \<and>
    sem_table k' \<and> map (\<lambda>n. get_sem_by_name n k') [PIDC_MUTEX, SCHED_MUTEX, PROC_MUTEX] = [Some 0, Some 1, Some 2] \<and>
    (\<forall>i<3. sem_conserved i 1 (k', 0)) \<and>
    (\<forall>a n. away (bss l) (unat (endOfKernel l - bss l)) a n \<longrightarrow> peek mem' a n = peek mem1 a n)"
  by (rule boot_state [OF assms])

text \<open>A payload of two empty modules behind the kernel.\<close>

definition link_ex :: link_map where
  "link_ex = \<lparr>endOfKernelBinary = 0x110000, bss = 0x110000, endOfKernel = 0x130000, idle_name = 0x108000,
     idle_entry = 0x101000, idle_argv = 0x137000\<rparr>"

definition memory_ex :: memory where
  "memory_ex = (\<lambda>a. if a = 0x110000 then 2 else 0)"

lemma memory_ex_modules:
  "loadModules 0 memory_ex (endOfKernelBinary link_ex) [uCodeModuleAddress, uDataModuleAddress] = Some (memory_ex, 0x500000)"
proof -
  have c: "readUint32 memory_ex 0x110000 = (2, 0x110004)"
    by (simp add: readUint32_def memory_ex_def)
  have z: "readUint32 memory_ex 0x110004 = (0, 0x110008)" "readUint32 memory_ex 0x110008 = (0, 0x11000C)"
    by (simp_all add: readUint32_def memory_ex_def)
  have m: "loadModule memory_ex a t = Some (memory_ex, b, t)" if "readUint32 memory_ex a = (0, b)" for a b t
    using that by (simp add: loadModule_def overlap_def memcpy_spec peek_def poke_def)
  have two: "unat (2 :: u32) = Suc (Suc 0)" by simp
  have "load_each (unat (2 :: u32)) [0x400000, 0x500000] memory_ex 0x110004 0 = Some (memory_ex, 0x500000)"
    unfolding two load_each.simps m [OF z(1)] m [OF z(2)] option.case prod.case ..
  then show ?thesis
    unfolding loadModules_def link_ex_def link_map.simps c prod.case Let_def uCodeModuleAddress_def uDataModuleAddress_def .
qed

theorem boot_ready_witness:
  "\<exists>mem' k'. initializeKernelBinary link_ex 0 memory_ex kernel_zero = Done (mem', 0x137FF8) k' \<and>
    ring k' [first k'] \<and> counter k' = 1"
  using boot_ready [OF memory_ex_modules, of kernel_zero] by (auto simp: getStackBase_def link_ex_def PageSize_def)


end
