(* ===== verification/Scheduler_Remove.thy ===== *)
theory Scheduler_Remove
  imports Scheduler_Switch Memory_Provider
begin

text \<open>
  Removing a process: how the ring changes when a node takes over its successor's process, and
  how the memory of a process goes back to the allocator, through the allocator's interface.
\<close>

section \<open>Freeing\<close>

lemma is_allocated_live:
  assumes "mm_inv base len s"
  shows "is_allocated s p \<longleftrightarrow> mm_live s p \<noteq> None"
proof -
  from assms obtain F A where ref: "mm_refines base len s F A" by (auto simp: mm_inv_def)
  then obtain fs as where rep: "mm_rep base len s fs as" and A: "A = blocks s as"
    by (auto simp: mm_refines_def)
  have c: "chain (\<lambda>b. bd_next (mm_heap s b)) (alloc_list s) as"
    using mm_repD(4) [OF rep] by (simp add: bnx_def)
  let ?b = "p - 16"
  have nz: "0 \<notin> set as" by (rule chain_nonzero [OF c])
  have "head0 (dropWhile (\<lambda>b. b \<noteq> ?b) as) \<noteq> 0 \<longleftrightarrow> ?b \<in> set as"
  proof (cases "?b \<in> set as")
    case True
    then obtain xs ys where "as = xs @ ?b # ys" "?b \<notin> set xs" by (meson split_list_first)
    moreover from this(2) have "\<And>x. x \<in> set xs \<Longrightarrow> x \<noteq> ?b" by blast
    ultimately have "dropWhile (\<lambda>b. b \<noteq> ?b) as = ?b # ys" by (simp add: dropWhile_append2)
    with True nz show ?thesis by auto
  next
    case False
    then have e: "dropWhile (\<lambda>b. b \<noteq> ?b) as = []" by auto
    show ?thesis using False by (simp add: e)
  qed
  then have "is_allocated s p \<longleftrightarrow> ?b \<in> set as"
    by (simp add: is_allocated_def seek_chain [OF c] split: prod.split)
  moreover have "mm_live s p \<noteq> None \<longleftrightarrow> ?b \<in> set as"
    by (simp add: mm_live_refines [OF ref] A map_of_blocks)
  ultimately show ?thesis by simp
qed

text \<open>\<open>released\<close>: the kernel after the memory at \<open>p\<close> was given back.\<close>

definition released :: "nat \<Rightarrow> nat \<Rightarrow> u64 \<Rightarrow> kernel \<Rightarrow> kernel \<Rightarrow> bool" where
  "released base len p k k' \<longleftrightarrow> mm_inv base len (mm k') \<and> mm_live (mm k') = (mm_live (mm k))(p := None) \<and>
     k' = k\<lparr>mm := mm k', nodes := nodes k', procs := procs k'\<rparr> \<and>
     (\<forall>a. a \<noteq> p \<longrightarrow> nodes k' a = nodes k a \<and> procs k' a = procs k a) \<and>
     (mm_live (mm k) p \<noteq> None \<longrightarrow> nodes k' p = None \<and> procs k' p = None)"

lemma kfree_released:
  assumes "mm_inv base len (mm k)"
  obtains k' where "kfree p k = Done () k'" "released base len p k k'"
proof -
  from mm.release_any [OF assms, of p] obtain s' where
    s': "mm_free (mm k) p = Some s'" "mm_inv base len s'" "mm_live s' = (mm_live (mm k))(p := None)" by auto
  let ?k' = "if is_allocated (mm k) p
    then k\<lparr>mm := s', nodes := (nodes k)(p := None), procs := (procs k)(p := None)\<rparr> else k\<lparr>mm := s'\<rparr>"
  have "kfree p k = Done () ?k'" using s'(1) by (simp add: kfree_def)
  moreover have "released base len p k ?k'"
    using s' is_allocated_live [OF assms, of p] by (simp add: released_def)
  ultimately show ?thesis by (rule that)
qed

text \<open>The same for a set of addresses.\<close>

definition released_all :: "nat \<Rightarrow> nat \<Rightarrow> u64 set \<Rightarrow> kernel \<Rightarrow> kernel \<Rightarrow> bool" where
  "released_all base len S k k' \<longleftrightarrow> mm_inv base len (mm k') \<and>
     (\<forall>a. mm_live (mm k') a = (if a \<in> S then None else mm_live (mm k) a)) \<and>
     k' = k\<lparr>mm := mm k', nodes := nodes k', procs := procs k'\<rparr> \<and>
     (\<forall>a. a \<notin> S \<longrightarrow> nodes k' a = nodes k a \<and> procs k' a = procs k a) \<and>
     (\<forall>a\<in>S. mm_live (mm k) a \<noteq> None \<longrightarrow> nodes k' a = None \<and> procs k' a = None)"

lemma released_all_one: "released base len p k k' \<Longrightarrow> released_all base len {p} k k'"
  by (simp add: released_def released_all_def)

lemma released_all_refl: "mm_inv base len (mm k) \<Longrightarrow> released_all base len {} k k"
  by (simp add: released_all_def)

lemma released_all_trans:
  assumes "released_all base len S k k1" and "released_all base len T k1 k2" and "S \<inter> T = {}"
  shows "released_all base len (S \<union> T) k k2"
proof -
  have "k2 = k\<lparr>mm := mm k2, nodes := nodes k2, procs := procs k2\<rparr>"
  proof -
    from assms(1) obtain m n p where 1: "k1 = k\<lparr>mm := m, nodes := n, procs := p\<rparr>"
      unfolding released_all_def by blast
    from assms(2) obtain m' n' p' where 2: "k2 = k1\<lparr>mm := m', nodes := n', procs := p'\<rparr>"
      unfolding released_all_def by blast
    show ?thesis by (simp add: 1 2)
  qed
  with assms show ?thesis unfolding released_all_def by (auto split: if_splits)
qed

lemma released_all_fields:
  assumes "released_all base len S k k'"
  shows "cells k' = cells k" "cstr k' = cstr k" "currentNode k' = currentNode k" "first k' = first k"
    "semaphores k' = semaphores k" "counter k' = counter k" "block_count k' = block_count k"
    "foreground k' = foreground k" "background k' = background k" "pipes k' = pipes k"
    "disable_count k' = disable_count k" "console k' = console k"
proof -
  from assms obtain m n p where "k' = k\<lparr>mm := m, nodes := n, procs := p\<rparr>"
    unfolding released_all_def by blast
  then show "cells k' = cells k" "cstr k' = cstr k" "currentNode k' = currentNode k" "first k' = first k"
    "semaphores k' = semaphores k" "counter k' = counter k" "block_count k' = block_count k"
    "foreground k' = foreground k" "background k' = background k" "pipes k' = pipes k"
    "disable_count k' = disable_count k" "console k' = console k"
    by simp_all
qed

lemma released_all_console:
  assumes "released_all base len S k k'"
  shows "released_all base len S (k\<lparr>console := c, scr := s\<rparr>) (k'\<lparr>console := c, scr := s\<rparr>)"
proof -
  from assms obtain m n p where "k' = k\<lparr>mm := m, nodes := n, procs := p\<rparr>"
    unfolding released_all_def by blast
  with assms show ?thesis by (simp add: released_all_def)
qed

lemma free_all_released:
  assumes "mm_inv base len (mm k)" and "distinct ps"
  obtains k' where "free_all ps k = Done () k'" "released_all base len (set ps) k k'"
  using assms
proof (induction ps arbitrary: k thesis)
  case Nil
  then show ?case using released_all_refl by auto
next
  case (Cons p ps)
  from Cons.prems(2) obtain k1 where k1: "kfree p k = Done () k1" "released base len p k k1"
    by (rule kfree_released)
  have "mm_inv base len (mm k1)" using k1(2) by (simp add: released_def)
  moreover have "distinct ps" using Cons.prems(3) by simp
  ultimately obtain k2 where k2: "free_all ps k1 = Done () k2" "released_all base len (set ps) k1 k2"
    using Cons.IH by blast
  have "released_all base len ({p} \<union> set ps) k k2"
    using released_all_trans [OF released_all_one [OF k1(2)] k2(2)] Cons.prems(3) by simp
  with k1(1) k2(1) Cons.prems(1) show ?case by simp
qed

text \<open>The addresses \<open>free_proc\<close> gives back: stack, strings, array and the process itself.\<close>

definition owned :: "kernel \<Rightarrow> u64 \<Rightarrow> process \<Rightarrow> u64 list \<Rightarrow> bool" where
  "owned k pr r ps \<longleftrightarrow>
     (\<exists>n. count_argv (cells k) (p_argv r) 0 = Some n \<and>
        ps = p_stack r # pointers k (p_argv r) (unat n) @ [p_argv r, pr])"

text \<open>Writing from a process whose output is the screen changes the screen at most.\<close>

lemma sys_write_screen:
  assumes "get_current_write k = Done 1 k" and "0 \<in> set str"
  obtains c s v where "sys_write fd str n col k = Done v (k\<lparr>console := c, scr := s\<rparr>)"
proof (cases "fd = 0")
  case True
  then have "sys_write fd str n col k = Done 0 (k\<lparr>console := console k, scr := scr k\<rparr>)"
    using assms(1) by (simp add: sys_write_def)
  then show ?thesis by (rule that)
next
  case False
  show ?thesis
  proof (cases "(if fd = 2 then 1 else fd) \<noteq> 1 \<and> n = 0")
    case True
    with False have "sys_write fd str n col k = Done 0 (k\<lparr>console := console k, scr := scr k\<rparr>)"
      using assms(1) by (auto simp: sys_write_def split: if_splits)
    then show ?thesis by (rule that)
  next
    case c: False
    let ?s = "takeWhile (\<lambda>c. c \<noteq> 0) str" and ?c = "if fd = 2 then RED else col"
    have "\<not> (if fd = 2 then 1 else fd) = (0 :: byte)" using False by simp
    then have "sys_write fd str n col k = bind (printString ?s ?c k) (\<lambda>_ k. Done 0 k)"
      using c assms unfolding sys_write_def by (simp only: Let_def if_False if_True bind_simps refl simp_thms)
    then have "sys_write fd str n col k = Done 0 (k\<lparr>console := (?s, ?c) # console k, scr := draw_string ?s ?c (scr k)\<rparr>)"
      by (simp only: printString_def bind_simps)
    then show ?thesis by (rule that)
  qed
qed

lemma free_proc_released:
  assumes inv: "mm_inv base len (mm k)" and "procs k pr = Some r" and "owned k pr r ps" and "distinct ps"
    and "nodes k (currentNode k) = Some cn" and "procs k (n_proc cn) = Some cr" and "p_write_fd cr = 1"
    and "currentNode k \<notin> set ps" and "n_proc cn = pr \<or> n_proc cn \<notin> set ps"
  obtains k' where "free_proc pr k = Done () k'"
    "\<exists>c s. released_all base len (set ps) (k\<lparr>console := c, scr := s\<rparr>) k'"
proof -
  from assms(3) obtain n where n: "count_argv (cells k) (p_argv r) 0 = Some n"
    and ps: "ps = p_stack r # pointers k (p_argv r) (unat n) @ [p_argv r, pr]"
    by (auto simp: owned_def)
  let ?ptrs = "pointers k (p_argv r) (unat n)" and ?S1 = "set (p_stack r # pointers k (p_argv r) (unat n) @ [p_argv r])"
  from inv obtain k1 where 1: "kfree (p_stack r) k = Done () k1" "released base len (p_stack r) k k1"
    by (rule kfree_released)
  note r1 = released_all_one [OF 1(2)]
  from r1 have "mm_inv base len (mm k1)" by (simp add: released_all_def)
  then obtain k2 where 2: "free_all ?ptrs k1 = Done () k2" "released_all base len (set ?ptrs) k1 k2"
    using assms(4) ps by (auto elim: free_all_released)
  then have "mm_inv base len (mm k2)" by (simp add: released_all_def)
  then obtain k3 where 3: "kfree (p_argv r) k2 = Done () k3" "released base len (p_argv r) k2 k3"
    by (rule kfree_released)
  have f: "free_argv (p_argv r) k1 = Done () k3"
    using n 2(1) 3(1) released_all_fields(1) [OF r1] by (simp add: free_argv_def pointers_def)
  have "released_all base len ({p_stack r} \<union> set ?ptrs \<union> {p_argv r}) k k3"
    using assms(4) ps
    by (intro released_all_trans [OF released_all_trans [OF r1 2(2)] released_all_one [OF 3(2)]]) auto
  then have r3: "released_all base len ?S1 k k3" by (simp add: insert_commute Un_commute)
  have np: "n_proc cn \<notin> ?S1" using assms(4,9) ps by auto
  then have cur: "nodes k3 (currentNode k3) = Some cn" "procs k3 (n_proc cn) = Some cr"
    using assms(5,6,8) ps r3 released_all_fields(3) [OF r3] by (auto simp: released_all_def)
  have g: "get_current_write k3 = Done 1 k3"
    using cur assms(7) by (simp add: get_current_write_def with_node_proc_def with_node_def with_proc_def)
  have z: "0 \<in> set (cstr k3 4 @ [0])" by simp
  obtain c sc v where w: "sys_write (ucast (p_write_fd r)) (cstr k3 4 @ [0]) 1 WHITE k3 = Done v (k3\<lparr>console := c, scr := sc\<rparr>)"
    by (rule sys_write_screen [OF g z])
  have "mm_inv base len (mm (k3\<lparr>console := c, scr := sc\<rparr>))" using r3 by (simp add: released_all_def)
  then obtain k4 where 4: "kfree pr (k3\<lparr>console := c, scr := sc\<rparr>) = Done () k4" "released base len pr (k3\<lparr>console := c, scr := sc\<rparr>) k4"
    by (rule kfree_released)
  have "released_all base len (?S1 \<union> {pr}) (k\<lparr>console := c, scr := sc\<rparr>) k4"
    using assms(4) ps by (intro released_all_trans [OF released_all_console [OF r3] released_all_one [OF 4(2)]]) auto
  moreover have "?S1 \<union> {pr} = set ps" unfolding ps by auto
  moreover have "free_proc pr k = Done () k4"
    using assms(2) 1(1) f w 4(1) by (simp add: free_proc_def with_proc_def)
  ultimately show ?thesis using that by metis
qed

section \<open>Bookkeeping updates\<close>

text \<open>Updates that leave the nodes alone and who is who among the processes.\<close>

definition same_roles :: "process \<Rightarrow> process \<Rightarrow> bool" where
  "same_roles r r' \<longleftrightarrow> p_pid r' = p_pid r \<and> p_ppid r' = p_ppid r \<and> p_stack r' = p_stack r \<and>
     p_argv r' = p_argv r \<and> p_write_fd r' = p_write_fd r"

definition bookkeeping :: "kernel \<Rightarrow> kernel \<Rightarrow> bool" where
  "bookkeeping k k' \<longleftrightarrow> (\<forall>a. rel_option same_roles (procs k a) (procs k' a)) \<and>
     k' = k\<lparr>procs := procs k', block_count := block_count k', counter := counter k'\<rparr>"

lemma bookkeeping_refl: "bookkeeping k k"
  by (auto simp: bookkeeping_def same_roles_def intro!: option.rel_refl)

lemma bookkeeping_trans:
  assumes "bookkeeping k k1" and "bookkeeping k1 k2"
  shows "bookkeeping k k2"
proof -
  have "rel_option same_roles (procs k a) (procs k2 a)" for a
  proof -
    from assms have "rel_option same_roles (procs k a) (procs k1 a)"
      "rel_option same_roles (procs k1 a) (procs k2 a)" by (simp_all add: bookkeeping_def)
    then show ?thesis by (cases "procs k a"; cases "procs k1 a"; cases "procs k2 a") (auto simp: same_roles_def)
  qed
  moreover from assms(1) obtain p b c where 1: "k1 = k\<lparr>procs := p, block_count := b, counter := c\<rparr>"
    unfolding bookkeeping_def by blast
  moreover from assms(2) obtain p' b' c' where 2: "k2 = k1\<lparr>procs := p', block_count := b', counter := c'\<rparr>"
    unfolding bookkeeping_def by blast
  ultimately show ?thesis by (simp add: bookkeeping_def)
qed

lemma bookkeeping_upd_proc:
  assumes "\<And>r. same_roles r (f r)"
  shows "bookkeeping k (upd_proc k p f)"
  using assms bookkeeping_refl [of k]
  by (auto simp: bookkeeping_def upd_proc_def option.rel_map intro: option.rel_refl)

lemma bookkeeping_count: "bookkeeping k (k\<lparr>block_count := b\<rparr>)" "bookkeeping k (k\<lparr>counter := c\<rparr>)"
  using bookkeeping_refl [of k] by (simp_all add: bookkeeping_def)

lemma bookkeeping_ready_at: "bookkeeping k (ready_at k n)"
  unfolding ready_at_def set_state_def
  by (rule bookkeeping_trans [OF bookkeeping_upd_proc bookkeeping_count(1)]) (simp add: same_roles_def)

lemma bookkeeping_views:
  assumes "bookkeeping k k'"
  shows "nodes k' = nodes k" "first k' = first k" "currentNode k' = currentNode k" "mm k' = mm k"
    "cells k' = cells k" "semaphores k' = semaphores k" "disable_count k' = disable_count k"
    "foreground k' = foreground k" "background k' = background k" "cstr k' = cstr k"
    "next_of k' = next_of k" "nproc k' = nproc k" "broken k' = broken k" "pid_at k' = pid_at k"
    "ring k' ns = ring k ns"
    "procs k a = Some r \<Longrightarrow> \<exists>r'. procs k' a = Some r' \<and> same_roles r r'"
proof -
  from assms obtain p b c where k': "k' = k\<lparr>procs := p, block_count := b, counter := c\<rparr>"
    unfolding bookkeeping_def by blast
  then show n: "nodes k' = nodes k" "first k' = first k" "currentNode k' = currentNode k" "mm k' = mm k"
    "cells k' = cells k" "semaphores k' = semaphores k" "disable_count k' = disable_count k"
    "foreground k' = foreground k" "background k' = background k" "cstr k' = cstr k"
    by simp_all
  have rel: "rel_option same_roles (procs k a) (procs k' a)" for a
    using assms by (simp add: bookkeeping_def)
  show "procs k a = Some r \<Longrightarrow> \<exists>r'. procs k' a = Some r' \<and> same_roles r r'"
    using rel [of a] by (cases "procs k' a") auto
  show a: "next_of k' = next_of k" "nproc k' = nproc k"
    using n(1) by (auto simp: fun_eq_iff next_of_def nproc_def)
  have "rel_option same_roles (proc_at k x) (proc_at k' x)" for x
    using rel n(1) by (auto simp: proc_at_def split: option.split)
  note x = this
  show b: "broken k' = broken k"
  proof
    fix y show "broken k' y = broken k y" using x [of y] by (cases "proc_at k y"; cases "proc_at k' y") (auto simp: broken_def)
  qed
  show "pid_at k' = pid_at k"
  proof
    fix y show "pid_at k' y = pid_at k y"
      using x [of y] by (cases "proc_at k y"; cases "proc_at k' y") (auto simp: pid_at_def same_roles_def)
  qed
  show "ring k' ns = ring k ns" using a b by (simp add: ring_def)
qed

section \<open>Telling the parent\<close>

definition told :: "kernel \<Rightarrow> u64 \<Rightarrow> kernel" where
  "told k p =
     (let k1 = upd_proc k (nproc k p) (\<lambda>r. r\<lparr>p_children := p_children r - 1\<rparr>) in
      if map_option p_children (proc_at k p) = Some 1
      then ready_at (upd_proc k1 (nproc k p) (\<lambda>r. r\<lparr>p_blocked_by_children := 0\<rparr>)) p
      else k1)"

lemma told_bookkeeping: "bookkeeping k (told k p)"
proof -
  have u: "bookkeeping k (upd_proc k a (\<lambda>r. r\<lparr>p_children := p_children r - 1\<rparr>))"
    "bookkeeping k (upd_proc k a (\<lambda>r. r\<lparr>p_blocked_by_children := 0\<rparr>))" for k a
    by (rule bookkeeping_upd_proc, simp add: same_roles_def)+
  show ?thesis
    unfolding told_def Let_def
    using bookkeeping_trans [OF u(1) bookkeeping_trans [OF u(2) bookkeeping_ready_at]] u(1)
    by simp
qed

lemma told_semaphores: "told (k\<lparr>semaphores := x\<rparr>) p = (told k p)\<lparr>semaphores := x\<rparr>"
proof -
  have v: "nproc (k\<lparr>semaphores := x\<rparr>) = nproc k" "proc_at (k\<lparr>semaphores := x\<rparr>) = proc_at k" for k
    by (rule view_cong; simp)+
  have u: "upd_proc (k\<lparr>semaphores := x\<rparr>) a f = (upd_proc k a f)\<lparr>semaphores := x\<rparr>" for k a f
    by (simp add: upd_proc_def)
  have "ready_at (k\<lparr>semaphores := x\<rparr>) n = (ready_at k n)\<lparr>semaphores := x\<rparr>" for k n
    by (simp add: ready_at_def set_state_def v u)
  then show ?thesis by (auto simp: told_def Let_def v u)
qed

text \<open>With distinct pids the search finds the node, wherever the list of the ring starts.\<close>

lemma find_node_distinct:
  assumes "ring k ns" and "first k \<in> set ns" and "distinct (map (pid_at k) ns)"
    and "n \<in> set ns" and "pid_at k n = Some pid"
  shows "find_node pid k = Done n k"
proof -
  from ring_from [OF assms(1,2)] obtain ms where ms: "ring k (first k # ms)" "set (first k # ms) = set ns"
    by blast
  have inj: "inj_on (pid_at k) (set ns)" using assms(3) by (simp add: distinct_map)
  show ?thesis
  proof (cases "find (\<lambda>n. pid_at k n = Some pid) (first k # ms)")
    case None
    then have "\<forall>x\<in>set ns. pid_at k x \<noteq> Some pid" unfolding find_None_iff ms(2) by blast
    with assms(4,5) show ?thesis by blast
  next
    case (Some x)
    note x = find_Some_first [OF Some]
    have "x = n"
    proof (rule inj_onD [OF inj])
      show "pid_at k x = pid_at k n" using x assms(5) by metis
      show "x \<in> set ns" using x ms(2) by metis
    qed (rule assms(4))
    have "find_node pid k = Done (case find (\<lambda>n. pid_at k n = Some pid) (first k # ms) of None \<Rightarrow> 0 | Some n \<Rightarrow> n) k"
      by (rule find_node_ring [OF ms(1)]) simp
    then show ?thesis unfolding Some \<open>x = n\<close> by simp
  qed
qed

section \<open>The node that goes\<close>

text \<open>A quiet semaphore: \<open>sem_wait\<close> then \<open>sem_post\<close> by the same caller leave it as it was.\<close>

definition quiet_sem :: "cstring \<Rightarrow> kernel \<Rightarrow> bool" where
  "quiet_sem nm k \<longleftrightarrow> lock_room k \<and> (\<exists>s<length (semaphores k). get_sem_by_name nm k = Some s \<and>
     sem_lock (semaphores k ! s) = 0 \<and> sem_value (semaphores k ! s) > 0 \<and>
     blocked_first (semaphores k ! s) = blocked_last (semaphores k ! s))"

lemma quiet_section:
  assumes "quiet_sem nm k" and "ring k ns" and "hd ns = first k"
    and body: "\<And>x. f (k\<lparr>semaphores := x\<rparr>) = Done u (k1\<lparr>semaphores := x\<rparr>)"
    and "disable_count k1 = disable_count k" "ring k1 ns" "first k1 = first k"
  shows "bind (sem_wait nm k) (\<lambda>_ k. bind (f k) (\<lambda>_ k. bind (sem_post nm k) g)) =
    g 0 (k1\<lparr>semaphores := semaphores k\<rparr>)"
proof -
  from assms(1) obtain s where s: "s < length (semaphores k)" "get_sem_by_name nm k = Some s"
    "sem_lock (semaphores k ! s) = 0" "sem_value (semaphores k ! s) > 0"
    "blocked_first (semaphores k ! s) = blocked_last (semaphores k ! s)" and lr: "lock_room k"
    by (auto simp: quiet_sem_def)
  let ?x = "(semaphores k)[s := (semaphores k ! s)\<lparr>sem_value := sem_value (semaphores k ! s) - 1, sem_lock := 0\<rparr>]"
  have w: "sem_wait nm k = Done 0 (k\<lparr>semaphores := ?x\<rparr>)"
    using sem_wait_free [OF s(2-4)] by (simp add: upd_sem_def)
  let ?k = "k1\<lparr>semaphores := ?x\<rparr>"
  have n: "sem_name (?x ! j) = sem_name (semaphores k ! j) \<and> sem_id (?x ! j) = sem_id (semaphores k ! j)" for j
    using s(1) by (simp add: nth_list_update)
  have "get_sem_by_name nm ?k = get_sem_by_name nm k" by (rule lookup_cong) (simp_all add: n)
  with s(2) have l: "get_sem_by_name nm ?k = Some s" by simp
  have v: "nodes ?k = nodes k1" "procs ?k = procs k1" by simp_all
  have "sem_post nm ?k = Done 0 (?k\<lparr>semaphores := semaphores k\<rparr>)"
    by (rule leave_sem [OF l]) (use s assms lr view_cong(8) [OF v] in \<open>simp_all add: lock_room_def\<close>)
  with w body show ?thesis by simp
qed

text \<open>What is left of the ring when \<open>node\<close> has taken over the process of \<open>aux\<close>, its successor.\<close>

lemma segment_cong: "\<forall>x\<in>set xs. nx' x = nx x \<Longrightarrow> segment nx' p xs q = segment nx p xs q"
  by (induction xs arbitrary: p) auto

lemma ring_unlink:
  assumes "ring k (node # aux # zs)" and "nodes k aux = Some a"
    and "\<And>n. n \<in> set (node # zs) \<Longrightarrow> nodes k' n =
      map_option (\<lambda>m. if n = node then m\<lparr>n_proc := n_proc a, n_next := n_next a\<rparr> else m) (nodes k n)"
    and "\<And>p. p \<in> nproc k ` set (aux # zs) \<Longrightarrow> procs k' p = procs k p"
  shows "ring k' (node # zs)" and "nproc k' node = nproc k aux" and "\<forall>n\<in>set zs. nproc k' n = nproc k n"
    and "\<forall>n\<in>set zs. proc_at k' n = proc_at k n" and "proc_at k' node = proc_at k aux"
proof -
  note d = ringD(3) [OF assms(1)]
  have nb: "\<not> broken k n" if "n \<in> set (node # aux # zs)" for n using ringD(4) [OF assms(1) that] .
  from nb [of node] obtain m where m: "nodes k node = Some m" by (auto elim: not_broken)
  have nd: "nodes k' node = Some (m\<lparr>n_proc := n_proc a, n_next := n_next a\<rparr>)" using assms(3) [of node] m by simp
  have oth: "nodes k' n = nodes k n" if "n \<in> set zs" for n
    using assms(3) [of n] that d by (cases "nodes k n") auto
  show np: "nproc k' node = nproc k aux" "\<forall>n\<in>set zs. nproc k' n = nproc k n"
    using nd oth assms(2) by (auto simp: nproc_def)
  have "proc_at k' n = proc_at k n" if n: "n \<in> set zs" for n
  proof -
    from nb [of n] n obtain x where x: "nodes k n = Some x" "nproc k n = n_proc x"
      by (auto elim: not_broken)
    have "procs k' (nproc k n) = procs k (nproc k n)" using n by (intro assms(4)) simp
    with x oth [OF n] show ?thesis by (simp add: proc_at_def)
  qed
  moreover have "procs k' (nproc k aux) = procs k (nproc k aux)" by (intro assms(4)) simp
  ultimately show pa: "\<forall>n\<in>set zs. proc_at k' n = proc_at k n" "proc_at k' node = proc_at k aux"
    using nd assms(2) by (simp_all add: proc_at_def nproc_def)
  have nx: "\<forall>n\<in>set zs. next_of k' n = next_of k n" "next_of k' node = next_of k aux"
    using nd oth assms(2) by (auto simp: next_of_def)
  have "segment (next_of k) (next_of k aux) zs node" using ringD(2) [OF assms(1)] by simp
  then have "segment (next_of k') node (node # zs) node"
    using nx segment_cong [of zs "next_of k'" "next_of k"] ring_nonzero [OF assms(1)] by simp
  moreover have "distinct (map (nproc k') (node # zs))"
  proof -
    have "map (nproc k') (node # zs) = map (nproc k) (aux # zs)" using np by simp
    moreover have "distinct (map (nproc k) (aux # zs))" using ringD(5) [OF assms(1)] by simp
    ultimately show ?thesis by (simp only:)
  qed
  ultimately show "ring k' (node # zs)"
    using d pa nb by (auto simp: ring_def broken_def)
qed

end
