(* ===== verification/Scheduler_Kill.thy ===== *)
theory Scheduler_Kill
  imports Scheduler_Remove Memory_Properties
begin

text \<open>
  Killing a process from another one: what \<open>destroy_node\<close> leaves of the ring and of the heap,
  and what becomes of the running process when its own node is the one that is given back.
\<close>

section \<open>Telling the parent, as one step\<close>

lemma with_node_proc_bind:
  "with_node_proc k p (\<lambda>a r. bind (f a r) g) = bind (with_node_proc k p f) g"
  by (simp add: with_node_proc_def with_node_def with_proc_def split: option.split)

definition tell :: "u64 \<Rightarrow> kernel \<Rightarrow> unit res" where
  "tell parent k =
     with_node_proc k parent (\<lambda>pp par.
       let k = upd_proc k pp (\<lambda>r. r\<lparr>p_children := p_children r - 1\<rparr>) in
       if p_children par - 1 = 0
       then bind (ready_process (p_pid par) (upd_proc k pp (\<lambda>r. r\<lparr>p_blocked_by_children := 0\<rparr>))) (\<lambda>_ k. Done () k)
       else Done () k)"

text \<open>The rest of \<open>destroy_node\<close>, after the parent was told.\<close>

definition unlink :: "u64 \<Rightarrow> kernel \<Rightarrow> unit res" where
  "unlink node k =
     (let k = k\<lparr>counter := counter k - 1\<rparr> in
      with_node_proc k node (\<lambda>pr r.
      let k = (if p_state r = BLOCKED then k\<lparr>block_count := block_count k - 1\<rparr> else k);
          aux = next_of k node
      in
      bind (free_proc pr k) (\<lambda>_ k.
      with_node k aux (\<lambda>a.
      let k = upd_node k node (\<lambda>n. n\<lparr>n_proc := n_proc a, n_next := n_next a\<rparr>) in
      with_node_proc k node (\<lambda>_ r.
      kfree aux (if p_pid r = 0 then k\<lparr>first := node\<rparr> else k))))))"

lemma destroy_node_parts:
  assumes "proc_at k (currentNode k) = Some cur" "find_node (p_ppid cur) k = Done parent k" "parent \<noteq> 0"
  shows "destroy_node node k =
    bind (sem_wait PROC_MUTEX k) (\<lambda>_ k. bind (tell parent k) (\<lambda>_ k. bind (sem_post PROC_MUTEX k) (\<lambda>_ k. unlink node k)))"
proof -
  have c: "with_node_proc k (currentNode k) f = f (nproc k (currentNode k)) cur" for f :: "u64 \<Rightarrow> process \<Rightarrow> unit res"
    using assms(1) by (auto simp: with_node_proc_def with_node_def with_proc_def proc_at_def nproc_def split: option.splits)
  show ?thesis
    unfolding destroy_node_def c assms(2) bind_simps Let_def tell_def unlink_def with_node_proc_bind [symmetric]
    using assms(3) by (simp add: Let_def)
qed

lemma node_of_distinct:
  assumes "distinct (map (pid_at k) ns)" "n \<in> set ns" "pid_at k n = Some pid"
  shows "node_of k ns pid = Some n"
proof (cases "node_of k ns pid")
  case None
  then show ?thesis using assms(2,3) unfolding node_of_def find_None_iff by blast
next
  case (Some x)
  have inj: "inj_on (pid_at k) (set ns)" using assms(1) by (simp add: distinct_map)
  have "x = n"
  proof (rule inj_onD [OF inj])
    show "pid_at k x = pid_at k n" using node_of_Some [OF Some] assms(3) by simp
  qed (use node_of_Some [OF Some] assms(2) in simp_all)
  then show ?thesis using Some by simp
qed

lemma tell_ring:
  assumes "ring k ns" "hd ns = first k" "p \<in> set ns" "distinct (map (pid_at k) ns)"
  shows "tell p k = Done () (told k p)"
proof -
  from ringD(4) [OF assms(1,3)] obtain m r where m: "nodes k p = Some m" "procs k (n_proc m) = Some r"
    "proc_at k p = Some r" "nproc k p = n_proc m" "pid_at k p = Some (p_pid r)"
    by (rule not_broken)
  let ?k1 = "upd_proc k (n_proc m) (\<lambda>r. r\<lparr>p_children := p_children r - 1\<rparr>)"
  let ?k2 = "upd_proc ?k1 (n_proc m) (\<lambda>r. r\<lparr>p_blocked_by_children := 0\<rparr>)"
  have pid: "pid_at ?k2 = pid_at k"
    by (auto simp: fun_eq_iff pid_at_def proc_at_upd_proc option.map_comp comp_def split: option.split)
  have "node_of ?k2 ns (p_pid r) = Some p" by (rule node_of_distinct) (use assms pid m in simp_all)
  moreover have "ring ?k2 ns" "hd ns = first ?k2" using assms by simp_all
  ultimately have "ready_process (p_pid r) ?k2 = Done (p_pid r) (ready_at ?k2 p)"
    by (simp add: ready_process_ring)
  then show ?thesis
    using m by (auto simp: tell_def told_def Let_def)
qed

text \<open>On a ring with a quiet mutex, \<open>destroy_node\<close> is the change of the parent, then the unlinking.\<close>

lemma destroy_node_ring:
  assumes "ring k ns" "first k \<in> set ns" "distinct (map (pid_at k) ns)" "quiet_sem PROC_MUTEX k"
    and "proc_at k (currentNode k) = Some cur" "p \<in> set ns" "pid_at k p = Some (p_ppid cur)"
  shows "destroy_node node k = unlink node ((told k p)\<lparr>semaphores := semaphores k\<rparr>)"
proof -
  from ring_from [OF assms(1,2)] obtain ms where ms: "ring k (first k # ms)" "set (first k # ms) = set ns"
    "length (first k # ms) = length ns" by blast
  let ?ms = "first k # ms"
  have f: "find_node (p_ppid cur) k = Done p k" by (rule find_node_distinct [OF assms(1,2,3,6,7)])
  have d: "distinct (map (pid_at k) ?ms)"
    using assms(3) ringD(3) [OF assms(1)] ringD(3) [OF ms(1)] ms(2) by (simp only: distinct_map)
  have t: "tell p (k\<lparr>semaphores := x\<rparr>) = Done () ((told k p)\<lparr>semaphores := x\<rparr>)" for x
  proof -
    have v: "nodes (k\<lparr>semaphores := x\<rparr>) = nodes k" "procs (k\<lparr>semaphores := x\<rparr>) = procs k" by simp_all
    have "tell p (k\<lparr>semaphores := x\<rparr>) = Done () (told (k\<lparr>semaphores := x\<rparr>) p)"
      by (rule tell_ring [of _ ?ms]) (use ms assms(6) d view_cong [OF v] in simp_all)
    then show ?thesis by (simp add: told_semaphores)
  qed
  note b = bookkeeping_views [OF told_bookkeeping [of k p]]
  show ?thesis
    unfolding destroy_node_parts [OF assms(5) f ring_nonzero [OF assms(1,6)]]
    by (rule quiet_section [OF assms(4) ms(1) _ t]) (use b ms in simp_all)
qed

section \<open>The ring without the process\<close>

text \<open>
  \<open>node\<close> is the one that goes, \<open>aux\<close> its successor, and \<open>ps\<close> what its process owns: the
  objects are different, and what is given back is allocated.
\<close>

definition removable :: "nat \<Rightarrow> nat \<Rightarrow> kernel \<Rightarrow> u64 \<Rightarrow> u64 \<Rightarrow> u64 list \<Rightarrow> u64 list \<Rightarrow> bool" where
  "removable base len k node aux zs ps \<longleftrightarrow>
     mm_inv base len (mm k) \<and> ring k (node # aux # zs) \<and>
     first k \<in> set (node # aux # zs) \<and> pid_at k (first k) = Some 0 \<and>
     distinct (map (pid_at k) (node # aux # zs)) \<and>
     (\<exists>r. proc_at k node = Some r \<and> owned k (nproc k node) r ps) \<and>
     distinct (ps @ node # aux # zs @ map (nproc k) (aux # zs)) \<and>
     (\<forall>a\<in>set (aux # ps). mm_live (mm k) a \<noteq> None)"

lemma removable_bookkeeping:
  assumes "removable base len k node aux zs ps" "bookkeeping k k'"
  shows "removable base len k' node aux zs ps"
proof -
  note v = bookkeeping_views [OF assms(2)]
  have "\<exists>r'. proc_at k' node = Some r' \<and> owned k' (nproc k' node) r' ps"
  proof -
    obtain r where r: "proc_at k node = Some r" "owned k (nproc k node) r ps"
      using assms(1) by (auto simp: removable_def)
    have "procs k (nproc k node) = Some r"
      using r(1) by (auto simp: proc_at_def nproc_def split: option.splits)
    from v(16) [OF this] obtain r' where r': "procs k' (nproc k node) = Some r'" "same_roles r r'" by blast
    have "proc_at k' node = Some r'"
      using r(1) r'(1) v(1) by (auto simp: proc_at_def nproc_def split: option.splits)
    moreover have "owned k' (nproc k' node) r' ps"
      using r(2) r'(2) v(5,12) by (simp add: owned_def same_roles_def pointers_def)
    ultimately show ?thesis by blast
  qed
  then show ?thesis using assms(1) v by (simp add: removable_def)
qed

lemma unlink_ring:
  assumes rm: "removable base len k node aux zs ps" and cur: "currentNode k \<in> set (aux # zs)"
    "proc_at k (currentNode k) = Some cr" "p_write_fd cr = 1"
  obtains k' where "unlink node k = Done () k'" "ring k' (node # zs)"
    "map (proc_at k') (node # zs) = map (proc_at k) (aux # zs)" "nodes k' aux = None" "currentNode k' = currentNode k"
    "first k' \<in> set (node # zs)" "mm_inv base len (mm k')"
    "mm_live (mm k') = (\<lambda>a. if a \<in> set (aux # ps) then None else mm_live (mm k) a)"
    "semaphores k' = semaphores k" "counter k' = counter k - 1" "disable_count k' = disable_count k"
proof -
  define r where "r = the (proc_at k node)"
  define K where "K = (let k = k\<lparr>counter := counter k - 1\<rparr> in
    if p_state r = BLOCKED then k\<lparr>block_count := block_count k - 1\<rparr> else k)"
  have bk: "bookkeeping k K"
    unfolding K_def Let_def using bookkeeping_trans [OF bookkeeping_count(2) bookkeeping_count(1)] bookkeeping_count(2) by simp
  have K: "procs K = procs k" "counter K = counter k - 1" by (simp_all add: K_def Let_def)
  note v = bookkeeping_views [OF bk]
  have pa: "proc_at K = proc_at k" unfolding proc_at_def v(1) K(1) ..
  have rmK: "removable base len K node aux zs ps" by (rule removable_bookkeeping [OF rm bk])
  then have inv: "mm_inv base len (mm K)" and ring: "ring K (node # aux # zs)" and first: "first K \<in> set (node # aux # zs)"
    "pid_at K (first K) = Some 0" and pids: "distinct (map (pid_at K) (node # aux # zs))"
    and d: "distinct (ps @ node # aux # zs @ map (nproc K) (aux # zs))" and live: "\<forall>a\<in>set (aux # ps). mm_live (mm K) a \<noteq> None"
    and own: "\<exists>r. proc_at K node = Some r \<and> owned K (nproc K node) r ps"
    by (auto simp: removable_def)
  from own have r: "proc_at K node = Some r" "owned K (nproc K node) r ps" by (auto simp: r_def pa)
  then obtain m where m: "nodes K node = Some m" "procs K (n_proc m) = Some r" "nproc K node = n_proc m" "next_of K node = n_next m"
    by (auto simp: proc_at_def nproc_def next_of_def split: option.splits)
  have nx: "next_of K node = aux" using ringD(2) [OF ring] by simp
  from ringD(4) [OF ring, of aux] obtain a ra where a: "nodes K aux = Some a" "procs K (n_proc a) = Some ra"
    "nproc K aux = n_proc a" "pid_at K aux = Some (p_pid ra)" by (auto elim: not_broken)
  obtain cn where cn: "nodes K (currentNode K) = Some cn" "procs K (n_proc cn) = Some cr" "nproc K (currentNode K) = n_proc cn"
    using cur(2) v(1,3) K(1) by (auto simp: proc_at_def nproc_def split: option.splits)
  have own': "owned K (n_proc m) r ps" "distinct ps" using r(2) m(3) d by simp_all
  have c1: "currentNode K \<notin> set ps" using cur(1) d v(3) by auto
  have c2: "n_proc cn \<notin> set ps"
  proof -
    have "nproc K (currentNode K) \<in> set (map (nproc K) (aux # zs))" using cur(1) v(3) by auto
    then show ?thesis using d cn(3) by auto
  qed
  obtain K1 c s where f: "free_proc (n_proc m) K = Done () K1" and rel: "released_all base len (set ps) (K\<lparr>console := c, scr := s\<rparr>) K1"
    by (rule free_proc_released [OF inv m(2) own' cn(1,2) cur(3) c1]) (use c2 in auto)
  note g = released_all_fields [OF rel]
  have n1: "nodes K1 x = nodes K x" "procs K1 x = procs K x" if "x \<notin> set ps" for x
    using rel that by (simp_all add: released_all_def)
  have auxps: "aux \<notin> set ps" "node \<notin> set ps" "n_proc a \<notin> set ps" using d a(3) by auto
  define K2 where "K2 = upd_node K1 node (\<lambda>n. n\<lparr>n_proc := n_proc a, n_next := n_next a\<rparr>)"
  have k2: "nodes K2 node = Some (m\<lparr>n_proc := n_proc a, n_next := n_next a\<rparr>)" "procs K2 = procs K1" "mm K2 = mm K1"
    using n1(1) [OF auxps(2)] m(1) by (simp_all add: K2_def upd_node_def)
  define K3 where "K3 = (if p_pid ra = 0 then K2\<lparr>first := node\<rparr> else K2)"
  have k3: "mm K3 = mm K1" "nodes K3 = nodes K2" "procs K3 = procs K1" by (simp_all add: K3_def k2)
  have inv1: "mm_inv base len (mm K1)" using rel by (simp add: released_all_def)
  then have "mm_inv base len (mm K3)" by (simp add: k3)
  then obtain k' where k': "kfree aux K3 = Done () k'" and rel': "released base len aux K3 k'" by (rule kfree_released)
  note g' = released_all_fields [OF released_all_one [OF rel']]
  have run: "unlink node k = Done () k'"
  proof -
    have w: "with_node_proc (k\<lparr>counter := counter k - 1\<rparr>) node F = F (n_proc m) r" for F :: "u64 \<Rightarrow> process \<Rightarrow> unit res"
      using m v(1) K(1) by (simp add: with_node_proc_def with_node_def with_proc_def)
    have w2: "with_node_proc K2 node F = F (n_proc a) ra" for F :: "u64 \<Rightarrow> process \<Rightarrow> unit res"
      using k2 n1(2) [OF auxps(3)] a(2) by (simp add: with_node_proc_def with_node_def with_proc_def)
    have w1: "with_node K1 aux F = F a" for F :: "node \<Rightarrow> unit res"
      using n1(1) [OF auxps(1)] a(1) by (simp add: with_node_def)
    show ?thesis
      unfolding unlink_def Let_def w K_def [unfolded Let_def, symmetric] f bind_simps
      unfolding nx w1 K2_def [symmetric] w2 K3_def [symmetric] k' ..
  qed
  have a': "nodes k' x = nodes K2 x" "procs k' x = procs K x" if "x \<noteq> aux" "x \<notin> set ps" for x
    using rel' that n1(2) k3 by (auto simp: released_def)
  have ux: "nodes k' n = map_option (\<lambda>m. if n = node then m\<lparr>n_proc := n_proc a, n_next := n_next a\<rparr> else m) (nodes K n)"
    if "n \<in> set (node # zs)" for n
  proof -
    have "n \<noteq> aux" "n \<notin> set ps" using that d by auto
    then show ?thesis using a'(1) [of n] n1(1) [of n] m(1) by (auto simp: K2_def upd_node_def option.map_ident)
  qed
  have up: "procs k' p = procs K p" if "p \<in> nproc K ` set (aux # zs)" for p
  proof (rule a'(2))
    show "p \<noteq> aux" "p \<notin> set ps" using that d by auto
  qed
  note u = ring_unlink [OF ring a(1) ux up]
  have pids': "map (proc_at k') (node # zs) = map (proc_at k) (aux # zs)"
    using u(4,5) pa by simp
  have "mm_live (mm K3) aux \<noteq> None"
    using rel live auxps(1) k3(1) by (simp add: released_all_def)
  then have gone: "nodes k' aux = None" using rel' by (simp add: released_def)
  have lv: "mm_live (mm k') = (\<lambda>x. if x \<in> set (aux # ps) then None else mm_live (mm k) x)"
    using rel rel' k3(1) v(4) by (auto simp: released_def released_all_def fun_eq_iff)
  have fst: "first k' \<in> set (node # zs)"
  proof (cases "p_pid ra = 0")
    case True
    then show ?thesis using g'(4) by (simp add: K3_def)
  next
    case False
    then have "first k' = first K" using g'(4) g(4) by (simp add: K3_def K2_def upd_node_def)
    moreover have "first K \<noteq> aux" using False first(2) a(4) by auto
    ultimately show ?thesis using first(1) by auto
  qed
  have rest: "currentNode k' = currentNode k" "semaphores k' = semaphores k" "counter k' = counter k - 1" "disable_count k' = disable_count k"
    using g g' v K by (auto simp: K3_def K2_def upd_node_def)
  have "mm_inv base len (mm k')" using rel' by (simp add: released_def)
  from that [OF run u(1) pids' gone rest(1) fst this lv rest(2-4)] show thesis .
qed


section \<open>Killing\<close>

lemma quiet_sem_bookkeeping: "bookkeeping k k' \<Longrightarrow> quiet_sem nm k' = quiet_sem nm k"
  by (simp add: quiet_sem_def lock_room_def get_sem_by_name_def first_sem_def bookkeeping_views)

lemma distinct_pids:
  assumes "distinct (map (pid_at k) ns)" "a \<in> set ns" "b \<in> set ns" "pid_at k a = pid_at k b"
  shows "a = b"
  using assms by (metis distinct_map inj_onD)

lemma pid_of_proc: "proc_at k n = Some r \<Longrightarrow> pid_at k n = Some (p_pid r)"
  by (simp add: pid_at_def)

lemma told_counter: "counter (told k p) = counter k"
  by (simp add: told_def Let_def ready_at_def set_state_def upd_proc_def)

text \<open>The common part: up to the unlinking, only bookkeeping has changed.\<close>

lemma kill_process_unlinks:
  assumes rm: "removable base len k node aux zs ps" and pid: "pid_at k node = Some pid"
    and cur: "currentNode k \<in> set (aux # zs)" "proc_at k (currentNode k) = Some cr" "p_write_fd cr = 1"
    and par: "p \<in> set (node # aux # zs)" "pid_at k p = Some (p_ppid cr)" and quiet: "quiet_sem PROC_MUTEX k"
  defines "k0 \<equiv> told (set_state k (nproc k node) KILLED) p"
  obtains k' where "kill_process pid k = Done pid k'" "unlink node k0 = Done () k'" "removable base len k0 node aux zs ps"
    "ring k' (node # zs)" "map (proc_at k') (node # zs) = map (proc_at k0) (aux # zs)" "nodes k' aux = None"
    "currentNode k' = currentNode k" "first k' \<in> set (node # zs)" "mm_inv base len (mm k')"
    "mm_live (mm k') = (\<lambda>a. if a \<in> set (aux # ps) then None else mm_live (mm k) a)"
    "semaphores k' = semaphores k" "counter k' = counter k0 - 1" "disable_count k' = disable_count k"
proof -
  let ?ns = "node # aux # zs" and ?k = "set_state k (nproc k node) KILLED"
  have bk: "bookkeeping k ?k"
    unfolding set_state_def by (rule bookkeeping_upd_proc) (simp add: same_roles_def)
  have bk0: "bookkeeping k k0" unfolding k0_def by (rule bookkeeping_trans [OF bk told_bookkeeping])
  note v = bookkeeping_views [OF bk] and v0 = bookkeeping_views [OF bk0]
  from rm have ring: "ring k ?ns" and first: "first k \<in> set ?ns" and pids: "distinct (map (pid_at k) ?ns)"
    by (auto simp: removable_def)
  from ringD(4) [OF ring, of node] obtain m r where m: "nodes k node = Some m" "procs k (n_proc m) = Some r"
    "proc_at k node = Some r" "nproc k node = n_proc m" "pid_at k node = Some (p_pid r)" by (auto elim: not_broken)
  obtain cn where cn: "nodes k (currentNode k) = Some cn" "procs k (n_proc cn) = Some cr"
    using cur(2) by (auto simp: proc_at_def split: option.splits)
  have ne: "p_pid cr \<noteq> pid"
  proof
    assume "p_pid cr = pid"
    then have "currentNode k = node"
      using distinct_pids [OF pids, of "currentNode k" node] cur(1) pid pid_of_proc [OF cur(2)] by simp
    then show False using cur(1) ringD(3) [OF ring] by auto
  qed
  have role: "\<exists>r'. proc_at k1 n = Some r' \<and> same_roles rr r'" if b: "bookkeeping k k1" and q: "proc_at k n = Some rr" for k1 n rr
  proof -
    note w = bookkeeping_views [OF b]
    obtain x where x: "nodes k n = Some x" "procs k (n_proc x) = Some rr"
      using q by (auto simp: proc_at_def split: option.splits)
    from w(16) [OF x(2)] show ?thesis using x(1) w(1) by (auto simp: proc_at_def)
  qed
  obtain cr1 where cr1: "proc_at ?k (currentNode k) = Some cr1" "same_roles cr cr1" using role [OF bk cur(2)] by blast
  have d: "destroy_node node ?k = unlink node ((told ?k p)\<lparr>semaphores := semaphores ?k\<rparr>)"
    by (rule destroy_node_ring [where k = ?k and ns = ?ns and cur = cr1])
      (use ring first pids quiet cr1 par v quiet_sem_bookkeeping [OF bk] in \<open>simp_all add: same_roles_def\<close>)
  have s: "(told ?k p)\<lparr>semaphores := semaphores ?k\<rparr> = k0"
    using bookkeeping_views(6) [OF told_bookkeeping [of ?k p]] by (simp add: k0_def)
  have rm0: "removable base len k0 node aux zs ps" by (rule removable_bookkeeping [OF rm bk0])
  obtain cr0 where cr0: "proc_at k0 (currentNode k) = Some cr0" "same_roles cr cr0" using role [OF bk0 cur(2)] by blast
  have c0: "currentNode k0 \<in> set (aux # zs)" "proc_at k0 (currentNode k0) = Some cr0" "p_write_fd cr0 = 1"
    using cur cr0 v0(3) by (simp_all add: same_roles_def)
  obtain k' where k': "unlink node k0 = Done () k'" "ring k' (node # zs)"
    "map (proc_at k') (node # zs) = map (proc_at k0) (aux # zs)" "nodes k' aux = None" "currentNode k' = currentNode k0"
    "first k' \<in> set (node # zs)" "mm_inv base len (mm k')"
    "mm_live (mm k') = (\<lambda>a. if a \<in> set (aux # ps) then None else mm_live (mm k0) a)"
    "semaphores k' = semaphores k0" "counter k' = counter k0 - 1" "disable_count k' = disable_count k0"
    by (rule unlink_ring [OF rm0 c0])
  have f: "find_node pid k = Done node k" by (rule find_node_distinct [OF ring first pids _ pid]) simp
  have nz: "node \<noteq> 0" by (rule ring_nonzero [OF ring]) simp
  have p: "p_pid r = pid" using m(5) pid by simp
  have "kill_process pid k = Done pid k'"
    using cn m ne f nz p k'(1) d [unfolded s] by (simp add: kill_process_def)
  then show thesis
    using k'(2-7) k'(8-11) [unfolded v0(4,6,7)] unfolding v0(3) by (intro that [OF _ k'(1) rm0])
qed

text \<open>
  Three processes: the idle one, a shell that is running, and its child in front of it in the
  ring. What the child owns, and the node of the shell, are in a heap of 4096 bytes.
\<close>

definition kill_proc :: "u64 \<Rightarrow> u64 \<Rightarrow> states \<Rightarrow> process" where
  "kill_proc pid ppid st = (proc_ex pid st)\<lparr>p_ppid := ppid, p_stack := 0x1038, p_argv := 0x1050, p_children := 1\<rparr>"

definition kill_ex :: "mm_state \<Rightarrow> kernel" where
  "kill_ex s = kernel_zero\<lparr>mm := s,
     nodes := [0x5000 \<mapsto> \<lparr>n_quantums = 5, n_proc = 0x1068, n_next = 0x1010\<rparr>,
       0x1010 \<mapsto> \<lparr>n_quantums = 5, n_proc = 0x6000, n_next = 0x7000\<rparr>,
       0x7000 \<mapsto> \<lparr>n_quantums = 5, n_proc = 0x8000, n_next = 0x5000\<rparr>],
     procs := [0x1068 \<mapsto> kill_proc 2 1 READY, 0x6000 \<mapsto> kill_proc 1 0 RUNNING, 0x8000 \<mapsto> kill_proc 0 0 READY],
     first := 0x7000, currentNode := 0x1010, counter := 3,
     semaphores := (replicate 256 sem_zero)[0 := sem_zero\<lparr>sem_id := 1, sem_name := PROC_MUTEX, sem_value := 1\<rparr>]\<rparr>"

lemma kill_ex_views:
  "proc_at (kill_ex s) 0x5000 = Some (kill_proc 2 1 READY)" "proc_at (kill_ex s) 0x1010 = Some (kill_proc 1 0 RUNNING)"
  "proc_at (kill_ex s) 0x7000 = Some (kill_proc 0 0 READY)"
  "nproc (kill_ex s) 0x5000 = 0x1068" "nproc (kill_ex s) 0x1010 = 0x6000" "nproc (kill_ex s) 0x7000 = 0x8000"
  "next_of (kill_ex s) 0x5000 = 0x1010" "next_of (kill_ex s) 0x1010 = 0x7000" "next_of (kill_ex s) 0x7000 = 0x5000"
  "currentNode (kill_ex s) = 0x1010" "first (kill_ex s) = 0x7000" "counter (kill_ex s) = 3" "disable_count (kill_ex s) = 0"
  "mm (kill_ex s) = s" "cells (kill_ex s) = (\<lambda>_. 0)"
  by (simp_all add: kill_ex_def kernel_zero_def proc_at_def nproc_def next_of_def)

lemma kill_ex_quiet: "quiet_sem PROC_MUTEX (kill_ex s)"
proof -
  have "get_sem_by_name PROC_MUTEX (kill_ex s) = Some 0"
    by (simp add: get_sem_by_name_def first_sem_def kill_ex_def is_in_use_def MAX_SEMS_def upt_rec)
  then show ?thesis
    by (auto simp: quiet_sem_def lock_room_def kill_ex_views intro!: exI [of _ 0]) (simp_all add: kill_ex_def sem_zero_def)
qed

lemma kill_ex_removable: "\<exists>s. removable 0x1000 0x1000 (kill_ex s) 0x5000 0x1010 [0x7000] [0x1038, 0x1050, 0x1068]"
proof -
  have al: "align_size 24 = 24" "align_size 8 = 8" "align_size 104 = 104" by (simp_all add: align_size_def)
  obtain s1 where 1: "mm_refines 0x1000 0x1000 s1 [(0x1028, 0xFC8)] [(0x1000, 24)]"
    using mm_malloc_refines(2) [OF mm_ex_refines, of 24] al by auto
  obtain s2 where 2: "mm_refines 0x1000 0x1000 s2 [(0x1040, 0xFB0)] [(0x1028, 8), (0x1000, 24)]"
    using mm_malloc_refines(2) [OF 1, of 8] al by auto
  obtain s3 where 3: "mm_refines 0x1000 0x1000 s3 [(0x1058, 0xF98)] [(0x1040, 8), (0x1028, 8), (0x1000, 24)]"
    using mm_malloc_refines(2) [OF 2, of 8] al by auto
  obtain s4 where 4: "mm_refines 0x1000 0x1000 s4 [(0x10D0, 0xF20)] [(0x1058, 104), (0x1040, 8), (0x1028, 8), (0x1000, 24)]"
    using mm_malloc_refines(2) [OF 3, of 104] al by auto
  have inv: "mm_inv 0x1000 0x1000 s4" using 4 by (auto simp: mm_inv_def)
  have live: "\<forall>a\<in>set [0x1010, 0x1038, 0x1050, 0x1068]. mm_live s4 a \<noteq> None"
    by (simp add: mm_live_refines [OF 4])
  have ring: "ring (kill_ex s4) [0x5000, 0x1010, 0x7000]"
    by (simp add: ring_def broken_def kill_ex_views)
  have own: "owned (kill_ex s4) 0x1068 (kill_proc 2 1 READY) [0x1038, 0x1050, 0x1068]"
    unfolding owned_def
  proof (intro exI conjI)
    show "count_argv (cells (kill_ex s4)) (p_argv (kill_proc 2 1 READY)) 0 = Some 0"
      by (subst count_argv.simps) (simp add: kill_ex_views)
  qed (simp add: pointers_def kill_proc_def)
  show ?thesis
    using inv live ring own
    by (intro exI [of _ s4]) (simp add: removable_def kill_ex_views pid_at_def kill_proc_def proc_ex_def)
qed

text \<open>
  C35. Killing another process: the ring loses the node behind the victim's, and the processes
  of the others stay in their order. What the victim owned, and the node, are free again, and
  nothing else. The running process keeps its place unless its node is the one behind the
  victim's: then \<open>currentNode\<close> is a freed node, and the next tick follows it.
\<close>

theorem kill_process_removes:
  assumes "removable base len k node aux zs ps" "pid_at k node = Some pid"
    and "currentNode k \<in> set (aux # zs)" "proc_at k (currentNode k) = Some cr" "p_write_fd cr = 1"
    and "p \<in> set (node # aux # zs)" "pid_at k p = Some (p_ppid cr)" "quiet_sem PROC_MUTEX k"
    and "disable_count k = 0" "counter k \<noteq> 2"
  shows "\<exists>k'. kill_process pid k = Done pid k' \<and> ring k' (node # zs) \<and> first k' \<in> set (node # zs) \<and>
    map (pid_at k') (node # zs) = map (pid_at k) (aux # zs) \<and> mm_inv base len (mm k') \<and>
    mm_live (mm k') = (\<lambda>a. if a \<in> set (aux # ps) then None else mm_live (mm k) a) \<and> semaphores k' = semaphores k \<and>
    (if currentNode k = aux then currentNode k' \<notin> set (node # zs) \<and> (\<forall>sp. scheduler sp k' = Fault)
     else currentNode k' \<in> set (node # zs))"
proof -
  let ?k0 = "told (set_state k (nproc k node) KILLED) p"
  obtain k' where k': "kill_process pid k = Done pid k'" "unlink node ?k0 = Done () k'" "removable base len ?k0 node aux zs ps"
    "ring k' (node # zs)" "map (proc_at k') (node # zs) = map (proc_at ?k0) (aux # zs)" "nodes k' aux = None"
    "currentNode k' = currentNode k" "first k' \<in> set (node # zs)" "mm_inv base len (mm k')"
    "mm_live (mm k') = (\<lambda>a. if a \<in> set (aux # ps) then None else mm_live (mm k) a)"
    "semaphores k' = semaphores k" "counter k' = counter ?k0 - 1" "disable_count k' = disable_count k"
    by (rule kill_process_unlinks [OF assms(1-8)])
  have bk: "bookkeeping k ?k0"
    unfolding set_state_def
    by (rule bookkeeping_trans [OF bookkeeping_upd_proc told_bookkeeping]) (simp add: same_roles_def)
  have "map (pid_at k') (node # zs) = map (map_option p_pid) (map (proc_at k') (node # zs))" by (simp add: pid_at_def)
  also have "\<dots> = map (pid_at ?k0) (aux # zs)" unfolding k'(5) by (simp add: pid_at_def)
  finally have pids: "map (pid_at k') (node # zs) = map (pid_at k) (aux # zs)"
    unfolding bookkeeping_views(14) [OF bk] .
  have c: "counter k' \<noteq> 1" using k'(12) assms(10) by (simp add: told_counter set_state_def upd_proc_def diff_eq_eq)
  have fault: "scheduler sp k' = Fault" if "currentNode k = aux" for sp
    using that k'(6,7,13) c assms(9) by (simp add: scheduler_def with_node_proc_def with_node_def)
  have "aux \<notin> set (node # zs)" using assms(1) by (auto simp: removable_def)
  then show ?thesis using k' pids fault assms(3) by auto
qed

theorem kill_process_removes_witness:
  "\<exists>k k'. kill_process 2 k = Done 2 k' \<and> ring k [0x5000, 0x1010, 0x7000] \<and> ring k' [0x5000, 0x7000] \<and> scheduler 0 k' = Fault"
proof -
  obtain s where s: "removable 0x1000 0x1000 (kill_ex s) 0x5000 0x1010 [0x7000] [0x1038, 0x1050, 0x1068]"
    using kill_ex_removable by blast
  have pid: "pid_at (kill_ex s) 0x5000 = Some 2" "pid_at (kill_ex s) 0x7000 = Some (p_ppid (kill_proc 1 0 RUNNING))"
    by (simp_all add: pid_at_def kill_ex_views kill_proc_def proc_ex_def)
  have c: "proc_at (kill_ex s) (currentNode (kill_ex s)) = Some (kill_proc 1 0 RUNNING)" "p_write_fd (kill_proc 1 0 RUNNING) = 1"
    by (simp_all add: kill_ex_views kill_proc_def proc_ex_def)
  obtain k' where "kill_process 2 (kill_ex s) = Done 2 k'" "ring k' [0x5000, 0x7000]"
    "if currentNode (kill_ex s) = 0x1010 then currentNode k' \<notin> set [0x5000, 0x7000] \<and> (\<forall>sp. scheduler sp k' = Fault)
     else currentNode k' \<in> set [0x5000, 0x7000]"
    using kill_process_removes [OF s pid(1) _ c _ pid(2) kill_ex_quiet] by (auto simp: kill_ex_views)
  then show ?thesis using s by (auto simp: removable_def kill_ex_views)
qed

lemma proc_at_block_count: "proc_at (k\<lparr>block_count := b\<rparr>) = proc_at k"
  by (rule ext) (simp add: proc_at_def split: option.split)

text \<open>
  C36. The account of children: when the running process kills a child of its own, the child is
  taken off the account of the running process' parent, and the running process, which will wait
  for it, keeps counting it.
\<close>

theorem kill_charges_grandparent:
  assumes "removable base len k node aux zs ps" "proc_at k node = Some r" "p_ppid r = p_pid cr"
    and "currentNode k \<in> set (aux # zs)" "proc_at k (currentNode k) = Some cr" "p_write_fd cr = 1"
    and "p \<in> set (aux # zs)" "pid_at k p = Some (p_ppid cr)" "p \<noteq> currentNode k" "quiet_sem PROC_MUTEX k"
    and "proc_at k p = Some par"
  shows "\<exists>k'. kill_process (p_pid r) k = Done (p_pid r) k' \<and>
    (\<exists>n\<in>set (node # zs). proc_at k' n = Some cr) \<and>
    (\<exists>n\<in>set (node # zs). \<exists>par'. proc_at k' n = Some par' \<and> p_pid par' = p_ppid cr \<and> p_children par' = p_children par - 1)"
proof -
  let ?k = "set_state k (nproc k node) KILLED"
  have p: "p \<in> set (node # aux # zs)" using assms(7) by simp
  obtain k' where k': "kill_process (p_pid r) k = Done (p_pid r) k'"
    "map (proc_at k') (node # zs) = map (proc_at (told ?k p)) (aux # zs)"
    by (rule kill_process_unlinks [OF assms(1) pid_of_proc [OF assms(2)] assms(4-6) p assms(8,10)]) blast
  have "ring k (node # aux # zs)" using assms(1) by (simp add: removable_def)
  note d = ringD(5) [OF this]
  have ne: "nproc k n \<noteq> nproc k node" if "n \<in> set (aux # zs)" for n using d that by (auto simp: image_iff)
  have nc: "nproc k (currentNode k) \<noteq> nproc k p"
  proof
    assume "nproc k (currentNode k) = nproc k p"
    moreover have "inj_on (nproc k) (set (node # aux # zs))" using d unfolding distinct_map by blast
    moreover have "currentNode k \<in> set (node # aux # zs)" "p \<in> set (node # aux # zs)" using assms(4,7) by simp_all
    ultimately show False using assms(9) by (metis inj_onD)
  qed
  have at: "proc_at ?k n = proc_at k n" if "n \<in> set (aux # zs)" for n
    using ne [OF that] by (simp add: set_state_def proc_at_upd_proc)
  have v: "nproc ?k = nproc k" by (simp add: set_state_def)
  have c: "proc_at (told ?k p) (currentNode k) = Some cr"
    using at [OF assms(4)] assms(5) nc v
    by (simp add: told_def Let_def ready_at_def set_state_def proc_at_upd_proc proc_at_block_count)
  have q: "\<exists>par'. proc_at (told ?k p) p = Some par' \<and> p_pid par' = p_ppid cr \<and> p_children par' = p_children par - 1"
    using at [OF assms(7)] assms(11,8) v
    by (simp add: told_def Let_def ready_at_def set_state_def proc_at_upd_proc pid_at_def proc_at_block_count)
  have img: "proc_at (told ?k p) ` set (aux # zs) = proc_at k' ` set (node # zs)"
    using arg_cong [OF k'(2), of set] by (simp only: set_map)
  have "Some cr \<in> proc_at k' ` set (node # zs)" using c assms(4) img by (metis image_eqI)
  moreover have "proc_at (told ?k p) p \<in> proc_at k' ` set (node # zs)" using assms(7) img by blast
  ultimately show ?thesis using k'(1) q by (metis (no_types, lifting) imageE)
qed

theorem kill_charges_grandparent_witness:
  "\<exists>k k'. kill_process 2 k = Done 2 k' \<and> proc_at k 0x7000 = Some (kill_proc 0 0 READY) \<and>
    (\<exists>n par'. proc_at k' n = Some par' \<and> p_pid par' = 0 \<and> p_children par' = 0)"
proof -
  obtain s where s: "removable 0x1000 0x1000 (kill_ex s) 0x5000 0x1010 [0x7000] [0x1038, 0x1050, 0x1068]"
    using kill_ex_removable by blast
  have q: "p_ppid (kill_proc 2 1 READY) = p_pid (kill_proc 1 0 RUNNING)" "p_pid (kill_proc 2 1 READY) = 2"
    "p_children (kill_proc 0 0 READY) = 1" "p_ppid (kill_proc 1 0 RUNNING) = 0"
    by (simp_all add: kill_proc_def proc_ex_def)
  have pid: "pid_at (kill_ex s) 0x7000 = Some (p_ppid (kill_proc 1 0 RUNNING))"
    by (simp add: pid_at_def kill_ex_views kill_proc_def proc_ex_def)
  have c: "proc_at (kill_ex s) (currentNode (kill_ex s)) = Some (kill_proc 1 0 RUNNING)" "p_write_fd (kill_proc 1 0 RUNNING) = 1"
    by (simp_all add: kill_ex_views kill_proc_def proc_ex_def)
  have m: "currentNode (kill_ex s) \<in> set [0x1010, 0x7000]" "(0x7000 :: u64) \<in> set [0x1010, 0x7000]"
    "0x7000 \<noteq> currentNode (kill_ex s)"
    by (simp_all add: kill_ex_views)
  from kill_charges_grandparent [OF s kill_ex_views(1) q(1) m(1) c m(2) pid m(3) kill_ex_quiet kill_ex_views(3)]
  show ?thesis using q kill_ex_views(3) [of s] by (auto simp: q)
qed

end
