(* ===== verification/Kernel_Keeps.thy ===== *)
theory Kernel_Keeps
  imports Kernel_Loops
begin

text \<open>
  Invariants of the kernel's state across the points where a computation gives up the processor:
  every state that \<open>m\<close> hands over or ends with satisfies \<open>P\<close>, as long as it is resumed in states
  that do.
\<close>

coinductive keeps :: "(kernel \<Rightarrow> bool) \<Rightarrow> 'a res \<Rightarrow> bool" for P :: "kernel \<Rightarrow> bool" where
  fault: "keeps P Fault"
| loops: "keeps P Loop"
| finished: "P k \<Longrightarrow> keeps P (Done a k)"
| handed: "P k \<Longrightarrow> (\<And>k'. P k' \<Longrightarrow> keeps P (c k')) \<Longrightarrow> keeps P (Resched k c)"

named_theorems keeps_rules \<open>what keeps the invariant of the kernel's tables\<close>

inductive_simps keeps_simps [simp]:
  "keeps P Fault" "keeps P Loop" "keeps P (Done a k)" "keeps P (Resched k c)"

lemma keeps_bind:
  assumes "keeps P m" and f: "\<And>a k. P k \<Longrightarrow> keeps P (f a k)"
  shows "keeps P (bind m f)"
proof -
  have "keeps P r" if "\<exists>m. r = bind m f \<and> keeps P m" for r
    using that
  proof (coinduction arbitrary: r rule: keeps.coinduct)
    case (keeps r)
    then obtain m where m: "r = bind m f" "keeps P m" by blast
    show ?case
    proof (cases m)
      case (Done a k)
      then have "keeps P (f a k)" using m f by simp
      then show ?thesis using m(1) Done by (cases "f a k") auto
    qed (use m in auto)
  qed
  then show ?thesis using assms(1) by blast
qed

lemma keeps_with_node: "(\<And>n. nodes k p = Some n \<Longrightarrow> keeps P (f n)) \<Longrightarrow> keeps P (with_node k p f)"
  by (simp add: with_node_def split: option.split)

lemma keeps_with_proc: "(\<And>r. procs k p = Some r \<Longrightarrow> keeps P (f r)) \<Longrightarrow> keeps P (with_proc k p f)"
  by (simp add: with_proc_def split: option.split)

lemma keeps_with_node_proc:
  "(\<And>a r. procs k a = Some r \<Longrightarrow> keeps P (f a r)) \<Longrightarrow> keeps P (with_node_proc k p f)"
  by (simp add: with_node_proc_def keeps_with_node keeps_with_proc)

lemma keeps_atomic_inc: "(\<And>c. keeps P (f c)) \<Longrightarrow> keeps P (atomic_inc c f)"
  by (simp add: atomic_inc_def)

lemma keeps_force_scheduler: "P k \<Longrightarrow> keeps P (force_scheduler k)"
  by (simp add: force_scheduler_def)

section \<open>Loops\<close>

lemma keeps_burst:
  assumes body: "\<And>s k. P k \<Longrightarrow> keeps P (body s k)"
  shows "burst body s k = Some r \<Longrightarrow> P k \<longrightarrow> keeps P r"
proof (induction rule: burst.raw_induct
    [of "\<lambda>b s k r. b = body \<longrightarrow> P k \<longrightarrow> keeps P r" body, rotated, THEN mp [OF _ refl], consumes 1])
  case (1 burst bd s k r)
  show ?case
  proof (intro impI)
    assume e: "bd = body" and k: "P k"
    have b: "keeps P (body s k)" by (rule body [OF k])
    show "keeps P r"
    proof (cases "body s k")
      case (Done x k')
      show ?thesis
      proof (cases x)
        case (Inl s')
        have "P k'" using b Done by simp
        moreover have "burst bd s' k' = Some r" using 1(2) Done Inl by (simp add: e)
        ultimately show ?thesis using 1(1) e by blast
      next
        case (Inr v)
        then show ?thesis using 1(2) b Done by (auto simp: e)
      qed
    qed (use 1(2) b in \<open>auto simp: e\<close>)
  qed
qed

lemma keeps_settle:
  assumes body: "\<And>s k. P k \<Longrightarrow> keeps P (body s k)" and "keeps P m"
  shows "keeps P (settle body m)"
  using assms(2) keeps_burst [of P body, OF body]
  by (auto simp: settle_def split: res.split sum.split option.split)

lemma keeps_iterate_from:
  assumes body: "\<And>s k. P k \<Longrightarrow> keeps P (body s k)" and "keeps P m"
  shows "keeps P (iterate_from body m)"
proof -
  have "keeps P r" if "\<exists>m. r = iterate_from body m \<and> keeps P m" for r
    using that
  proof (coinduction arbitrary: r rule: keeps.coinduct)
    case (keeps r)
    then obtain m where m: "r = iterate_from body m" "keeps P m" by blast
    have s: "keeps P (settle body m)" by (rule keeps_settle [OF body m(2)])
    have e: "r = iterate_from body m" by (rule m(1))
    show ?case
    proof (cases "settle body m")
      case Fault
      then show ?thesis unfolding e by (subst iterate_from.code) simp
    next
      case Loop
      have "iterate_from body m = Loop" by (subst iterate_from.code) (simp add: Loop)
      then show ?thesis by (simp add: e)
    next
      case (Done x k)
      have "iterate_from body m = Done (projr x) k" by (subst iterate_from.code) (simp add: Done)
      then show ?thesis using s Done by (simp add: e)
    next
      case (Resched k c)
      have "iterate_from body m = Resched k (\<lambda>k'. iterate_from body (c k'))"
        by (subst iterate_from.code) (simp add: Resched)
      then show ?thesis using s Resched by (auto simp: e)
    qed
  qed
  then show ?thesis using assms(2) by blast
qed

lemma keeps_iterate:
  assumes "\<And>s k. P k \<Longrightarrow> keeps P (body s k)" and "P k"
  shows "keeps P (iterate body s k)"
  unfolding iterate_def by (rule keeps_iterate_from) (use assms in auto)

end
