(* ===== verification/Kernel_Tables.thy ===== *)
theory Kernel_Tables
  imports Kernel_Keeps Syscalls Memory_Provider Semaphore_Properties
begin

text \<open>
  The invariant of the kernel's tables, and its preservation by the operations of the memory
  manager, the scheduler and the semaphores.
\<close>

section \<open>The invariant\<close>

text \<open>
  The heap is well-formed; the table of semaphores is, and no spin lock is held; pipes and
  their lists have the sizes of their arrays, the key buffer and the saved registers too.
\<close>

definition pipe_ok :: "pipe_t \<Rightarrow> bool" where
  "pipe_ok p \<longleftrightarrow> length (pi_data p) = PIPE_SIZE \<and> length (rProcesses p) = PROCS \<and> length (wProcesses p) = PROCS"

definition unlocked :: "sem_ts list \<Rightarrow> bool" where
  "unlocked ss \<longleftrightarrow> (\<forall>s\<in>set ss. sem_lock s = 0)"

definition tables_ok :: "nat \<Rightarrow> nat \<Rightarrow> kernel \<Rightarrow> bool" where
  "tables_ok base len k \<longleftrightarrow> mm_inv base len (mm k) \<and> sem_table k \<and> unlocked (semaphores k) \<and>
     length (pipes k) = MAX_PIPES \<and> (\<forall>p\<in>set (pipes k). pipe_ok p) \<and>
     kb_ok (kb_buffer k) \<and> length (registers k) = 17"

lemma sem_table_cong: "semaphores k' = semaphores k \<Longrightarrow> sem_table k' = sem_table k"
  by (simp add: sem_table_def)

lemma tables_ok_cong:
  assumes "mm k' = mm k" "semaphores k' = semaphores k" "pipes k' = pipes k" "kb_buffer k' = kb_buffer k"
    "registers k' = registers k"
  shows "tables_ok base len k' = tables_ok base len k"
  using assms sem_table_cong [OF assms(2)] by (simp add: tables_ok_def)

lemma tables_ok_fields [simp]:
  "tables_ok b l (k\<lparr>nodes := v1\<rparr>) = tables_ok b l k" "tables_ok b l (k\<lparr>procs := v2\<rparr>) = tables_ok b l k"
  "tables_ok b l (k\<lparr>first := v\<rparr>) = tables_ok b l k" "tables_ok b l (k\<lparr>currentNode := v\<rparr>) = tables_ok b l k"
  "tables_ok b l (k\<lparr>foreground := v\<rparr>) = tables_ok b l k" "tables_ok b l (k\<lparr>background := v\<rparr>) = tables_ok b l k"
  "tables_ok b l (k\<lparr>counter := v\<rparr>) = tables_ok b l k" "tables_ok b l (k\<lparr>block_count := v\<rparr>) = tables_ok b l k"
  "tables_ok b l (k\<lparr>disable_count := v\<rparr>) = tables_ok b l k" "tables_ok b l (k\<lparr>force_yield := v\<rparr>) = tables_ok b l k"
  "tables_ok b l (k\<lparr>pidc := v\<rparr>) = tables_ok b l k" "tables_ok b l (k\<lparr>cells := v3\<rparr>) = tables_ok b l k"
  "tables_ok b l (k\<lparr>cstr := v4\<rparr>) = tables_ok b l k" "tables_ok b l (k\<lparr>frames := v5\<rparr>) = tables_ok b l k"
  "tables_ok b l (k\<lparr>console := v6\<rparr>) = tables_ok b l k" "tables_ok b l (k\<lparr>kb_shift := v7\<rparr>) = tables_ok b l k"
  "tables_ok b l (k\<lparr>kb_ctrl := v7\<rparr>) = tables_ok b l k" "tables_ok b l (k\<lparr>clock_ticks := v\<rparr>) = tables_ok b l k"
  "tables_ok b l (k\<lparr>scr := v8\<rparr>) = tables_ok b l k" "tables_ok b l (k\<lparr>port_log := v9\<rparr>) = tables_ok b l k"
  "tables_ok b l (k\<lparr>shared := v10\<rparr>) = tables_ok b l k" "tables_ok b l (k\<lparr>game_scores := v11\<rparr>) = tables_ok b l k"
  by (rule tables_ok_cong; simp)+

lemma tables_ok_updates [simp]:
  "tables_ok b l (upd_proc k p f) = tables_ok b l k" "tables_ok b l (upd_node k p g) = tables_ok b l k"
  "tables_ok b l (set_state k p st) = tables_ok b l k" "tables_ok b l (set_cell a i v k) = tables_ok b l k"
  by (simp_all add: upd_proc_def upd_node_def set_state_def set_cell_def)

section \<open>The heap\<close>


lemma mm_malloc_any: "mm_inv b l s \<Longrightarrow> \<exists>s' p. mm_malloc s n = Some (s', p) \<and> mm_inv b l s'"
proof -
  assume "mm_inv b l s"
  then obtain F A where r: "mm_refines b l s F A" by (auto simp: mm_inv_def)
  show ?thesis by (rule mm_malloc_cases [OF r, of n]) (use r in \<open>auto simp: mm_inv_def\<close>)
qed

lemma kmalloc_keeps [keeps_rules]: "tables_ok b l k \<Longrightarrow> keeps (tables_ok b l) (kmalloc n k)"
  using mm_malloc_any [of b l "mm k" n] by (auto simp: kmalloc_def tables_ok_def sem_table_def)

lemma kfree_keeps [keeps_rules]: "tables_ok b l k \<Longrightarrow> keeps (tables_ok b l) (kfree p k)"
  using mm.release_any [of b l "mm k" p] by (auto simp: kfree_def tables_ok_def sem_table_def)

section \<open>Walks and states of processes\<close>

lemmas keeps_comp = keeps_bind keeps_with_node keeps_with_proc keeps_with_node_proc keeps_atomic_inc
  keeps_force_scheduler

lemma core_keeps [keeps_rules]:
  assumes "tables_ok b l k"
  shows "keeps (tables_ok b l) (find_node pid k)" "keeps (tables_ok b l) (find_next_ready n k)"
    "keeps (tables_ok b l) (get_running_pid k)" "keeps (tables_ok b l) (get_current_proc k)"
    "keeps (tables_ok b l) (get_current_read k)" "keeps (tables_ok b l) (get_current_write k)"
    "keeps (tables_ok b l) (scheduler_enable k)" "keeps (tables_ok b l) (scheduler_disable k)"
    "keeps (tables_ok b l) (printString s c k)" "keeps (tables_ok b l) (force_current_yield k)"
    "keeps (tables_ok b l) (killCurrentProcess k)" "keeps (tables_ok b l) (block_current_process k)"
    "keeps (tables_ok b l) (ready_foreground_proc k)"
  using assms
  by (auto simp: find_node_def find_next_ready_def get_running_pid_def get_current_proc_def get_current_read_def
      get_current_write_def scheduler_enable_def scheduler_disable_def printString_def force_current_yield_def
      killCurrentProcess_def block_current_process_def ready_foreground_proc_def
      intro!: keeps_comp split: option.split)

lemma process_keeps [keeps_rules]:
  assumes "tables_ok b l k"
  shows "keeps (tables_ok b l) (ready_process pid k)" "keeps (tables_ok b l) (block_process pid k)"
    "keeps (tables_ok b l) (change_priority pid pr k)" "keeps (tables_ok b l) (wait_pid k)"
    "keeps (tables_ok b l) (add_node proc k)"
  using assms
  by (auto simp: ready_process_def block_process_def change_priority_def wait_pid_def add_node_def
    intro!: keeps_comp keeps_rules)

section \<open>Semaphores\<close>

text \<open>An update of an entry that keeps its name and its id, and leaves its lock free.\<close>

lemma tables_ok_sems:
  "tables_ok b l k \<Longrightarrow> length (semaphores k) = MAX_SEMS"
  "tables_ok b l k \<Longrightarrow> i < MAX_SEMS \<Longrightarrow> sem_lock (semaphores k ! i) = 0"
  by (auto simp: tables_ok_def sem_table_def unlocked_def)

lemma tables_ok_cong_but_sems:
  assumes "tables_ok b l k" "sem_table k'" "unlocked (semaphores k')" "mm k' = mm k"
    "pipes k' = pipes k" "kb_buffer k' = kb_buffer k" "registers k' = registers k"
  shows "tables_ok b l k'"
  using assms by (simp add: tables_ok_def)

lemma unlocked_upd: "unlocked ss \<Longrightarrow> sem_lock s = 0 \<Longrightarrow> unlocked (ss[i := s])"
  using set_update_subset_insert [of ss i s] by (auto simp: unlocked_def)

lemma sem_table_upd:
  assumes "sem_table k" and "i < MAX_SEMS" and "sem_id (f (semaphores k ! i)) = sem_id (semaphores k ! i)"
    and "sem_name (f (semaphores k ! i)) = sem_name (semaphores k ! i)"
    and "length (blocked_processes (f (semaphores k ! i))) = length (blocked_processes (semaphores k ! i))"
  shows "sem_table (upd_sem i f k)"
proof -
  have "length (semaphores k) = MAX_SEMS" using assms(1) by (simp add: sem_table_def)
  then show ?thesis using assms unfolding sem_table_def by (auto simp: split: if_splits)
qed

lemma tables_ok_upd_sem:
  assumes "tables_ok b l k" and "i < MAX_SEMS" and "sem_id (f (semaphores k ! i)) = sem_id (semaphores k ! i)"
    and "sem_name (f (semaphores k ! i)) = sem_name (semaphores k ! i)"
    and "length (blocked_processes (f (semaphores k ! i))) = length (blocked_processes (semaphores k ! i))"
    and "sem_lock (f (semaphores k ! i)) = 0"
  shows "tables_ok b l (upd_sem i f k)"
proof (rule tables_ok_cong_but_sems [OF assms(1)])
  show "sem_table (upd_sem i f k)"
    using assms(1) by (intro sem_table_upd assms) (simp add: tables_ok_def)
  show "unlocked (semaphores (upd_sem i f k))"
    using assms(1,6) by (simp add: upd_sem_def unlocked_upd tables_ok_def)
qed (simp_all add: upd_sem_def)

lemma sem_init_keeps [keeps_rules]:
  assumes t: "tables_ok b l k" and n: "get_sem_by_name nm k = None"
  shows "keeps (\<lambda>k'. tables_ok b l k') (sem_init nm v k)"
proof (cases "get_new_sem k")
  case None
  then show ?thesis using t by (simp add: sem_init_def)
next
  case (Some idx)
  have s: "sem_table k" using t by (simp add: tables_ok_def)
  have "tables_ok b l (upd_sem idx (new_sem idx nm v) k)"
  proof (rule tables_ok_cong_but_sems [OF t sem_table_new [OF s n Some]])
    show "unlocked (semaphores (upd_sem idx (new_sem idx nm v) k))"
      using t by (simp add: upd_sem_def unlocked_upd tables_ok_def new_sem_def)
  qed (simp_all add: upd_sem_def)
  then show ?thesis using Some by (simp add: sem_init_def new_sem_def [abs_def])
qed

lemma sem_init_Done: "sem_init nm v k = Done r k' \<Longrightarrow> r = 0 \<or> r = - 1"
  by (auto simp: sem_init_def split: option.splits if_splits)

lemma sem_init_settled: "settled (sem_init nm v k)"
  by (auto simp: sem_init_def split: option.split)

lemma sem_open_keeps [keeps_rules]:
  assumes t: "tables_ok b l k"
  shows "keeps (tables_ok b l) (sem_open nm v k)"
proof -
  have inc: "keeps (tables_ok b l) (atomic_inc (open_count (semaphores k' ! i)) (\<lambda>c.
      Done (0 :: int) (upd_sem i (\<lambda>s. s\<lparr>open_count := c\<rparr>) k')))" if "tables_ok b l k'" "i < MAX_SEMS" for k' i
    by (rule keeps_atomic_inc) (simp add: tables_ok_upd_sem [OF that] tables_ok_sems(2) [OF that])
  show ?thesis
  proof (cases "get_sem_by_name nm k")
    case None
    show ?thesis
    proof (cases "sem_init nm v k")
      case (Done r k')
      have "tables_ok b l k'" using sem_init_keeps [OF t None, of v] Done by simp
      then show ?thesis using sem_init_Done [OF Done] None Done inc [of k' 0]
        by (auto simp: sem_open_def MAX_SEMS_def)
    next
      case (Resched k' c)
      then show ?thesis using sem_init_settled [of nm v k] by simp
    qed (simp_all add: sem_open_def None)
  next
    case (Some i)
    then show ?thesis using inc [OF t get_sem_by_nameD(1) [OF Some]] by (simp add: sem_open_def)
  qed
qed

lemma sem_close_keeps [keeps_rules]:
  assumes t: "tables_ok b l k"
  shows "keeps (tables_ok b l) (sem_close nm k)"
proof (cases "get_sem_by_name nm k")
  case None
  then show ?thesis using t by (simp add: sem_close_def)
next
  case (Some i)
  note i = get_sem_by_nameD(1) [OF Some]
  have d: "tables_ok b l (upd_sem i (\<lambda>s. s\<lparr>open_count := c\<rparr>) k)" for c
    by (rule tables_ok_upd_sem [OF t i]) (simp_all add: tables_ok_sems(2) [OF t i])
  have "tables_ok b l (upd_sem i (\<lambda>s. s\<lparr>open_count := c, sem_id := 2 * int i, sem_name := []\<rparr>) k)" for c
  proof (rule tables_ok_cong_but_sems [OF t])
    show "unlocked (semaphores (upd_sem i (\<lambda>s. s\<lparr>open_count := c, sem_id := 2 * int i, sem_name := []\<rparr>) k))"
      using t tables_ok_sems(2) [OF t i] by (simp add: upd_sem_def unlocked_upd tables_ok_def)
    have s: "sem_table k" "length (semaphores k) = MAX_SEMS" using t by (simp_all add: tables_ok_def sem_table_def)
    then show "sem_table (upd_sem i (\<lambda>s. s\<lparr>open_count := c, sem_id := 2 * int i, sem_name := []\<rparr>) k)"
      using i unfolding sem_table_def by (auto split: if_splits)
  qed (simp_all add: upd_sem_def)
  then show ?thesis using Some d by (simp add: sem_close_def Let_def)
qed

text \<open>A turn of \<open>sem_wait\<close> that takes the semaphore holds its lock until \<open>sem_take\<close>.\<close>

lemma sem_pass_keeps:
  assumes t: "tables_ok b l k" and i: "i < MAX_SEMS" and d: "sem_pass i k = Done taken k'"
  shows "tables_ok b l (if taken then sem_take i k' else k')"
proof (cases "sem_value (semaphores k ! i) > 0")
  case True
  then have "taken" "k' = upd_sem i (\<lambda>s. s\<lparr>sem_lock := 1\<rparr>) k"
    using d tables_ok_sems(2) [OF t i] by (simp_all add: sem_pass_def sem_cond_def)
  then show ?thesis using tables_ok_upd_sem [OF t i] by (simp add: sem_take_def)
next
  case False
  define k1 where "k1 = upd_sem i (\<lambda>s. s\<lparr>sem_lock := 0\<rparr>) k"
  have k1: "tables_ok b l k1" "sem_value (semaphores k1 ! i) = 0"
    using tables_ok_upd_sem [OF t i] False tables_ok_sems(1) [OF t] i unfolding k1_def by (simp_all add: word_gt_0)
  have c: "sem_cond i k = (False, k1)"
    using False tables_ok_sems(2) [OF t i] by (simp add: sem_cond_def k1_def)
  from d obtain p k2 k3 where r: "get_running_pid k1 = Done p k2" "scheduler_disable k2 = Done () k3"
    and e: "(let (taken, k) = sem_cond i (enqueue_waiter i (int_pid p) k3) in
          if taken
          then bind (ready_process (int_pid p) (dequeue_last i k)) (\<lambda>_ k.
               bind (scheduler_enable k) (\<lambda>_ k. Done True k))
          else bind (scheduler_enable k) (\<lambda>_ k. Done False k)) = Done taken k'"
    unfolding sem_pass_def c prod.case Let_def
    by (cases "get_running_pid k1"; simp) (case_tac "scheduler_disable x32"; simp)
  have k2: "k2 = k1" using r(1)
    by (auto simp: get_running_pid_def with_node_proc_def with_node_def with_proc_def split: if_splits option.splits)
  have k3: "tables_ok b l k3" "semaphores k3 = semaphores k1"
    using r(2) k1(1) k2 by (auto simp: scheduler_disable_def atomic_inc_def split: if_splits)
  define k4 where "k4 = enqueue_waiter i (int_pid p) k3"
  have k4: "tables_ok b l k4" "sem_value (semaphores k4 ! i) = 0"
    using tables_ok_upd_sem [OF k3(1) i] k1(2) k3(2) tables_ok_sems [OF k3(1)] i
    unfolding k4_def enqueue_waiter_def by simp_all
  have "sem_cond i k4 = (False, upd_sem i (\<lambda>s. s\<lparr>sem_lock := 0\<rparr>) k4)"
    using k4(2) tables_ok_sems(2) [OF k4(1) i] by (simp add: sem_cond_def)
  with e have "\<not> taken \<and> scheduler_enable (upd_sem i (\<lambda>s. s\<lparr>sem_lock := 0\<rparr>) k4) = Done () k'"
    unfolding k4_def by (auto simp: scheduler_enable_def)
  moreover have "keeps (tables_ok b l) (scheduler_enable (upd_sem i (\<lambda>s. s\<lparr>sem_lock := 0\<rparr>) k4))"
    by (rule core_keeps, rule tables_ok_upd_sem [OF k4(1) i]) simp_all
  ultimately show ?thesis by simp
qed

lemma sem_loop_keeps:
  assumes "tables_ok b l k" and i: "i < MAX_SEMS"
  shows "keeps (tables_ok b l) (sem_loop i k)"
  using assms(1)
proof (coinduction arbitrary: k rule: keeps.coinduct)
  case (keeps k)
  show ?case
  proof (cases "sem_pass i k")
    case Fault
    then have "sem_loop i k = Fault" by (subst sem_loop.code) simp
    then show ?thesis by simp
  next
    case Loop
    then have "sem_loop i k = Loop" by (subst sem_loop.code) simp
    then show ?thesis by simp
  next
    case (Done taken k')
    then show ?thesis using sem_pass_keeps [OF keeps i Done]
      by (cases taken) (auto simp: sem_loop_taken sem_loop_sleeps)
  next
    case (Resched k' c)
    then show ?thesis using sem_pass_returns [of i k] by simp
  qed
qed

lemma sem_wait_keeps [keeps_rules]: "tables_ok b l k \<Longrightarrow> keeps (tables_ok b l) (sem_wait nm k)"
  by (auto simp: sem_wait_def dest: get_sem_by_nameD(1) intro!: sem_loop_keeps split: option.split)

lemma update_sem_keeps [keeps_rules]:
  assumes t: "tables_ok b l k" and i: "i < MAX_SEMS"
  shows "keeps (tables_ok b l) (update_sem_processes i k)"
proof -
  have v: "tables_ok b l (upd_sem i (\<lambda>s. s\<lparr>blocked_first := v\<rparr>) k)" for v
    by (rule tables_ok_upd_sem [OF t i]) (simp_all add: tables_ok_sems(2) [OF t i])
  have "keeps (tables_ok b l) (bind (ready_process p (upd_sem i (\<lambda>s. s\<lparr>blocked_first := v\<rparr>) k)) (\<lambda>_ k. Done () k))" for p v
    by (rule keeps_bind, rule process_keeps, rule v) simp
  then show ?thesis using t by (simp add: update_sem_processes_def Let_def)
qed

lemma sem_post_keeps [keeps_rules]:
  assumes t: "tables_ok b l k"
  shows "keeps (tables_ok b l) (sem_post nm k)"
proof (cases "get_sem_by_name nm k")
  case None
  then show ?thesis using t by (simp add: sem_post_def)
next
  case (Some i)
  note i = get_sem_by_nameD(1) [OF Some]
  have "tables_ok b l (upd_sem i (\<lambda>s. s\<lparr>sem_value := sem_value s + 1\<rparr>) k')" if "tables_ok b l k'" for k'
    by (rule tables_ok_upd_sem [OF that i]) (simp_all add: tables_ok_sems(2) [OF that i])
  then have u: "keeps (tables_ok b l) (update_sem_processes i (upd_sem i (\<lambda>s. s\<lparr>sem_value := sem_value s + 1\<rparr>) k'))"
    if "tables_ok b l k'" for k' by (rule update_sem_keeps [OF _ i]) (rule that)
  show ?thesis
    unfolding sem_post_def Some option.case by (intro keeps_bind core_keeps u t) simp_all
qed

end
