(* ===== verification/Kernel_Calls.thy ===== *)
theory Kernel_Calls
  imports Kernel_Tables Exceptions
begin

text \<open>
  The invariant of the kernel's tables through pipes, process creation and removal, the switch of the
  scheduler, the keyboard, printing and the exception handlers.
\<close>

section \<open>Pipes\<close>

lemma tables_ok_upd_pipe:
  assumes t: "tables_ok b l k" and "pipe_ok (f (pipes k ! i))"
  shows "tables_ok b l (upd_pipe i f k)"
proof -
  have "set ((pipes k)[i := f (pipes k ! i)]) \<subseteq> insert (f (pipes k ! i)) (set (pipes k))"
    by (rule set_update_subset_insert)
  then have "\<forall>p\<in>set ((pipes k)[i := f (pipes k ! i)]). pipe_ok p"
    using assms by (auto simp: tables_ok_def)
  then show ?thesis using t by (simp add: tables_ok_def upd_pipe_def sem_table_def)
qed

lemma tables_ok_pipe: "tables_ok b l k \<Longrightarrow> i < MAX_PIPES \<Longrightarrow> pipe_ok (pipes k ! i)"
  by (simp add: tables_ok_def)

lemma pipe_ok_fields [simp]:
  "pipe_ok (p\<lparr>nread := v\<rparr>) = pipe_ok p" "pipe_ok (p\<lparr>nwrite := v\<rparr>) = pipe_ok p"
  "pipe_ok (p\<lparr>pi_name := s\<rparr>) = pipe_ok p" "pipe_ok (p\<lparr>created := j\<rparr>) = pipe_ok p"
  "pipe_ok (p\<lparr>usingPipe := j\<rparr>) = pipe_ok p" "pipe_ok (p\<lparr>waitingPid := j\<rparr>) = pipe_ok p"
  "pipe_ok (p\<lparr>pi_fd := j\<rparr>) = pipe_ok p" "pipe_ok (set_side d n j p) = pipe_ok p"
  by (auto simp: pipe_ok_def set_side_def split: side.split)

lemma write_loop_ok: "write_loop addr n i p = Some (m, p') \<Longrightarrow> pipe_ok p \<Longrightarrow> pipe_ok p'"
proof (induction addr n i p rule: write_loop.induct)
  case (3 c cs n i p)
  then show ?case by (auto simp: put_byte_def pipe_ok_def split: if_splits)
qed auto

lemma read_loop_ok: "read_loop addr n i p = Some (addr', m, p') \<Longrightarrow> pipe_ok p \<Longrightarrow> pipe_ok p'"
  by (induction addr n i p rule: read_loop.induct) (auto split: if_splits)

lemma read_end_ok: "read_end addr m p = Some (addr', p') \<Longrightarrow> pipe_ok p \<Longrightarrow> pipe_ok p'"
  by (auto simp: read_end_def pipe_ok_def split: if_splits)

lemma keeps_with_pipe:
  "(\<And>i. i < MAX_PIPES \<Longrightarrow> keeps P (f i (pipes k ! i))) \<Longrightarrow> keeps P (with_pipe index k f)"
  by (auto simp: with_pipe_def nat_less_iff)

lemma block_pipe_keeps [keeps_rules]:
  assumes t: "tables_ok b l k" and i: "i < MAX_PIPES"
  shows "keeps (tables_ok b l) (block_process_pipe i d pid k)"
proof -
  have "keeps (tables_ok b l) (bind (block_process (scast pid) k) (\<lambda>_ k. Done () k))"
    by (rule keeps_bind, rule process_keeps, rule t) simp
  moreover have "tables_ok b l (upd_pipe i (set_side d j pid) k)" for j
    by (rule tables_ok_upd_pipe [OF t]) (simp add: tables_ok_pipe [OF t i])
  ultimately show ?thesis using t by (simp add: block_process_pipe_def Let_def)
qed

lemma release_pipe_keeps [keeps_rules]:
  assumes t: "tables_ok b l k" and i: "i < MAX_PIPES"
  shows "keeps (tables_ok b l) (release_process_pipe i d pid k)"
proof -
  have "tables_ok b l (upd_pipe i (set_side d j 0) k')" if "tables_ok b l k'" for j k'
    by (rule tables_ok_upd_pipe [OF that]) (simp add: tables_ok_pipe [OF that i])
  then have "keeps (tables_ok b l) (bind (ready_process (scast pid) k) (\<lambda>_ k. Done () (upd_pipe i (set_side d j 0) k)))" for j
    by (intro keeps_bind process_keeps t) simp
  then show ?thesis using t by (simp add: release_process_pipe_def split: option.split)
qed

lemma pipe_write_keeps [keeps_rules]:
  assumes t: "tables_ok b l k"
  shows "keeps (tables_ok b l) (pipe_write index addr n k)"
proof -
  have fin: "keeps (tables_ok b l) (case write_loop addr m 0 (pipes k ! i) of
                  None \<Rightarrow> Fault
                | Some (m, p) \<Rightarrow>
                    bind (sem_post (pi_name p)
                      (upd_pipe i (\<lambda>_. p\<lparr>pi_data := (pi_data p)[slot (nwrite p) := END]\<rparr>) k)) (\<lambda>_ k.
                    Done (int m) k))" if k: "tables_ok b l k" and i: "i < MAX_PIPES" for k m i
  proof (cases "write_loop addr m 0 (pipes k ! i)")
    case (Some r)
    then obtain m' p where r: "write_loop addr m 0 (pipes k ! i) = Some (m', p)" by (cases r) auto
    have "pipe_ok (p\<lparr>pi_data := (pi_data p)[slot (nwrite p) := END]\<rparr>)"
      using write_loop_ok [OF r tables_ok_pipe [OF k i]] by (simp add: pipe_ok_def)
    then have "tables_ok b l (upd_pipe i (\<lambda>_. p\<lparr>pi_data := (pi_data p)[slot (nwrite p) := END]\<rparr>) k)"
      by (rule tables_ok_upd_pipe [OF k])
    then show ?thesis unfolding r option.case prod.case by (intro keeps_bind sem_post_keeps) simp_all
  qed simp
  have "keeps (tables_ok b l) (with_pipe index k (\<lambda>i p.
            if created p = 0 then Done (- 1) k
            else
              bind (get_running_pid k) (\<lambda>pid k.
              bind (block_process_pipe i Writing (ucast pid) k) (\<lambda>_ k.
              bind (sem_wait (pi_name (pipes k ! i)) k) (\<lambda>_ k.
              bind (get_running_pid k) (\<lambda>pid k.
              bind (release_process_pipe i Writing (ucast pid) k) (\<lambda>_ k.
                case write_loop addr m 0 (pipes k ! i) of
                  None \<Rightarrow> Fault
                | Some (m, p) \<Rightarrow>
                    bind (sem_post (pi_name p)
                      (upd_pipe i (\<lambda>_. p\<lparr>pi_data := (pi_data p)[slot (nwrite p) := END]\<rparr>) k)) (\<lambda>_ k.
                    Done (int m) k))))))))" for m
    by (rule keeps_with_pipe, rule if_splits(1) [THEN iffD2], intro conjI impI, simp add: t,
      intro keeps_bind core_keeps block_pipe_keeps sem_wait_keeps release_pipe_keeps fin t)
  then show ?thesis unfolding pipe_write_def by (simp split: option.split)
qed

lemma pipe_read_keeps [keeps_rules]:
  assumes t: "tables_ok b l k"
  shows "keeps (tables_ok b l) (pipe_read index addr n k)"
proof -
  have fin: "keeps (tables_ok b l) (case read_loop addr m 0 (pipes k ! i) of
             None \<Rightarrow> Fault
           | Some (addr, m, p) \<Rightarrow>
               (case read_end addr m p of
                  None \<Rightarrow> Fault
                | Some (addr, p) \<Rightarrow>
                    bind (sem_post (pi_name p) (upd_pipe i (\<lambda>_. p) k)) (\<lambda>_ k.
                    Done (int m, addr) k)))" if k: "tables_ok b l k" and i: "i < MAX_PIPES" for k m i
  proof (cases "read_loop addr m 0 (pipes k ! i)")
    case (Some r)
    then obtain a m' p where r: "read_loop addr m 0 (pipes k ! i) = Some (a, m', p)" by (cases r) auto
    show ?thesis
    proof (cases "read_end a m' p")
      case (Some e)
      then obtain a' p' where e: "read_end a m' p = Some (a', p')" by (cases e) auto
      have "pipe_ok p'" by (rule read_end_ok [OF e read_loop_ok [OF r tables_ok_pipe [OF k i]]])
      then have "tables_ok b l (upd_pipe i (\<lambda>_. p') k)" by (rule tables_ok_upd_pipe [OF k])
      then show ?thesis unfolding r e option.case prod.case by (intro keeps_bind sem_post_keeps) simp_all
    qed (simp add: r)
  qed simp
  show ?thesis unfolding pipe_read_def
    by (rule keeps_with_pipe, rule if_splits(1) [THEN iffD2], intro conjI impI, simp add: t,
      intro keeps_bind core_keeps block_pipe_keeps sem_wait_keeps release_pipe_keeps fin t)
qed

lemma pipe_open_keeps [keeps_rules]:
  assumes t: "tables_ok b l k"
  shows "keeps (tables_ok b l) (pipe_open nm k)"
proof (cases "look_pipe nm k")
  case None
  show ?thesis
  proof (cases "next_pipe k")
    case (Some i)
    have i: "i < MAX_PIPES" using Some by (auto simp: next_pipe_def find_Some_iff)
    have a: "tables_ok b l (upd_pipe i (\<lambda>p. p\<lparr>pi_fd := of_nat i + 3, created := 1, usingPipe := 0,
        waitingPid := - 1, nread := 0, nwrite := 0, pi_data := fill0 (pi_data p)\<rparr>) k)"
      by (rule tables_ok_upd_pipe [OF t])
        (use tables_ok_pipe [OF t i] in \<open>simp add: pipe_ok_def fill0_def\<close>)
    have "tables_ok b l (upd_pipe i (\<lambda>p. p\<lparr>pi_name := nm\<rparr>) k')" if "tables_ok b l k'" for k'
      by (rule tables_ok_upd_pipe [OF that]) (simp add: tables_ok_pipe [OF that i])
    then show ?thesis unfolding pipe_open_def None Some option.case
      by (intro keeps_bind sem_open_keeps a) simp
  qed (simp add: pipe_open_def None t)
qed (simp add: pipe_open_def t)

lemma pipe_close_keeps [keeps_rules]:
  assumes t: "tables_ok b l k"
  shows "keeps (tables_ok b l) (pipe_close index k)"
  unfolding pipe_close_def
proof (intro keeps_with_pipe keeps_bind sem_close_keeps t)
  fix i :: int and j k' assume j: "j < MAX_PIPES" and k': "tables_ok b l k'"
  have "tables_ok b l (upd_pipe j (\<lambda>p. p\<lparr>rProcesses := replicate PROCS 0, wProcesses := replicate PROCS 0,
      pi_name := [], pi_data := fill0 (pi_data p), nread := 0, nwrite := 0, created := 0\<rparr>) k')"
    by (rule tables_ok_upd_pipe [OF k'])
      (use tables_ok_pipe [OF k' j] in \<open>simp add: pipe_ok_def fill0_def\<close>)
  then show "keeps (tables_ok b l) (Done () (upd_pipe j (\<lambda>p. p\<lparr>rProcesses := replicate PROCS 0,
      wProcesses := replicate PROCS 0, pi_name := [], pi_data := fill0 (pi_data p), nread := 0, nwrite := 0,
      created := 0\<rparr>) k'))"
    by simp
qed

section \<open>Processes\<close>

lemma sys_write_keeps [keeps_rules]:
  "tables_ok b l k \<Longrightarrow> keeps (tables_ok b l) (sys_write fd s n c k)"
  by (auto simp: sys_write_def Let_def intro!: keeps_bind core_keeps pipe_write_keeps)

lemma free_all_keeps [keeps_rules]: "tables_ok b l k \<Longrightarrow> keeps (tables_ok b l) (free_all ps k)"
  by (induction ps arbitrary: k) (auto intro!: keeps_bind kfree_keeps)

lemma free_argv_keeps [keeps_rules]: "tables_ok b l k \<Longrightarrow> keeps (tables_ok b l) (free_argv argv k)"
  by (auto simp: free_argv_def intro!: keeps_bind kfree_keeps free_all_keeps split: option.split)

lemma save_loop_keeps [keeps_rules]: "tables_ok b l k \<Longrightarrow> keeps (tables_ok b l) (save_loop ret argv i n k)"
proof (induction n arbitrary: i k)
  case (Suc n)
  then show ?case
    by (auto simp: Let_def intro!: keeps_bind kmalloc_keeps kfree_keeps free_all_keeps Suc.IH)
qed simp

lemma save_argv_keeps [keeps_rules]: "tables_ok b l k \<Longrightarrow> keeps (tables_ok b l) (save_argv argc argv k)"
  by (auto simp: save_argv_def intro!: keeps_bind kmalloc_keeps save_loop_keeps)

lemma newProcess_keeps [keeps_rules]:
  "tables_ok b l k \<Longrightarrow> keeps (tables_ok b l) (newProcess nm entry argv r w pr k)"
  by (auto simp: newProcess_def Let_def intro!: keeps_bind kmalloc_keeps kfree_keeps save_argv_keeps
      sem_wait_keeps sem_post_keeps core_keeps split: option.split)

lemma free_proc_keeps [keeps_rules]: "tables_ok b l k \<Longrightarrow> keeps (tables_ok b l) (free_proc p k)"
  by (auto simp: free_proc_def intro!: keeps_with_proc keeps_bind kfree_keeps free_argv_keeps sys_write_keeps)

section \<open>The scheduler\<close>

lemma add_process_keeps [keeps_rules]:
  "tables_ok b l k \<Longrightarrow> keeps (tables_ok b l) (add_process nm prog argv r w pr fg k)"
  unfolding add_process_def Let_def
  by (intro keeps_bind keeps_with_node_proc keeps_with_proc core_keeps newProcess_keeps sem_wait_keeps
      sem_post_keeps process_keeps) simp_all

lemma destroy_node_keeps [keeps_rules]:
  "tables_ok b l k \<Longrightarrow> keeps (tables_ok b l) (destroy_node n k)"
  unfolding destroy_node_def Let_def
  by (auto intro!: keeps_comp core_keeps sem_wait_keeps sem_post_keeps process_keeps free_proc_keeps kfree_keeps)

lemma kill_process_keeps [keeps_rules]: "tables_ok b l k \<Longrightarrow> keeps (tables_ok b l) (kill_process pid k)"
  unfolding kill_process_def
  by (auto intro!: keeps_comp core_keeps destroy_node_keeps)

lemma kill_foreground_keeps [keeps_rules]: "tables_ok b l k \<Longrightarrow> keeps (tables_ok b l) (kill_foreground_proc k)"
  unfolding kill_foreground_proc_def Let_def
  by (auto intro!: keeps_comp core_keeps kill_process_keeps)

lemma dispatch_keeps [keeps_rules]: "tables_ok b l k \<Longrightarrow> keeps (tables_ok b l) (dispatch n k)"
  by (auto simp: dispatch_def intro!: keeps_with_node_proc)

lemma scheduler_keeps [keeps_rules]: "tables_ok b l k \<Longrightarrow> keeps (tables_ok b l) (scheduler sp k)"
  unfolding scheduler_def Let_def
  by (auto intro!: keeps_comp core_keeps dispatch_keeps kill_foreground_keeps destroy_node_keeps)

section \<open>Input and output\<close>

lemma push_ok: "kb_ok c \<Longrightarrow> kb_ok (push x c)" by (rule kb.put_ok)

lemma tables_ok_push [simp]: "tables_ok b l k \<Longrightarrow> tables_ok b l (push_key c k)"
  by (simp add: tables_ok_def push_key_def push_ok sem_table_def)

lemma saveKey_keeps [keeps_rules]: "tables_ok b l k \<Longrightarrow> keeps (tables_ok b l) (saveKey c k)"
  unfolding saveKey_def
  by (auto intro!: keeps_bind core_keeps kill_foreground_keeps)


lemma pop_ok: "kb_ok b \<Longrightarrow> kb_ok (snd (pop b))"
proof (cases "cb_size b = 0")
  case True
  then show "kb_ok b \<Longrightarrow> kb_ok (snd (pop b))" by (simp add: pop_def)
qed (rule pop_some)

lemma readBuf_ok: "kb_ok b \<Longrightarrow> kb_ok (snd (readBuf n b))"
proof (induction n arbitrary: b)
  case (Suc n)
  show ?case
  proof (cases "pop b")
    case (Pair c b')
    have "kb_ok (snd (readBuf n b'))" using pop_ok [OF Suc.prems] Suc.IH Pair by simp
    then show ?thesis using pop_ok [OF Suc.prems] Pair by (cases "readBuf n b'") (simp add: Let_def)
  qed
qed simp

lemma getKbd_keeps [keeps_rules]:
  assumes t: "tables_ok b l k"
  shows "keeps (tables_ok b l) (getKbdBuffer buf n pos k)"
proof -
  have "tables_ok b l (k\<lparr>kb_buffer := snd (readBuf m (kb_buffer k))\<rparr>)" for m
    using t readBuf_ok [of "kb_buffer k" m] by (simp add: tables_ok_def sem_table_def)
  then have "tables_ok b l (k\<lparr>kb_buffer := c\<rparr>)" if "readBuf m (kb_buffer k) = (cs, c)" for m cs c
    using that by (metis snd_conv)
  then show ?thesis using t by (auto simp: getKbdBuffer_def split: prod.split option.split)
qed

lemma halt_keeps [keeps_rules]: "tables_ok b l k \<Longrightarrow> keeps (tables_ok b l) (halt k)"
  by (simp add: halt_def)

lemma read_turn_keeps: "tables_ok b l k \<Longrightarrow> keeps (tables_ok b l) (read_turn go mark n st k)"
  by (cases st) (auto simp: read_turn_def Let_def intro!: keeps_bind getKbd_keeps split: prod.split)

lemma wait_turn_keeps: "tables_ok b l k \<Longrightarrow> keeps (tables_ok b l) (wait_turn i m u k)"
  by (auto simp: wait_turn_def intro!: keeps_bind halt_keeps)

lemma sys_wait_keeps [keeps_rules]: "tables_ok b l k \<Longrightarrow> keeps (tables_ok b l) (sys_wait m k)"
  unfolding sys_wait_def by (rule keeps_iterate, rule wait_turn_keeps)

lemma sys_read_keeps [keeps_rules]:
  "tables_ok b l k \<Longrightarrow> keeps (tables_ok b l) (sys_read fd buf n k)"
  "tables_ok b l k \<Longrightarrow> keeps (tables_ok b l) (sys_timedRead fd buf n m k)"
  unfolding sys_read_def sys_timedRead_def Let_def
  by (auto intro!: keeps_bind core_keeps pipe_read_keeps keeps_iterate read_turn_keeps)

lemma sound_keeps [keeps_rules]:
  assumes t: "tables_ok b l k"
  shows "keeps (tables_ok b l) (playSound f k)" "keeps (tables_ok b l) (noSound k)"
  using t by (auto simp: playSound_def noSound_def outb_def Let_def)

lemma beep_keeps [keeps_rules]: "tables_ok b l k \<Longrightarrow> keeps (tables_ok b l) (sys_beep f k)"
  unfolding sys_beep_def beep1_def beep2_def
  by (intro keeps_bind sound_keeps sys_wait_keeps) simp_all

lemma screen_ok [simp]: "tables_ok b l (on_screen f k) = tables_ok b l k"
  by (simp add: on_screen_def)

section \<open>Printing\<close>

lemma put_keeps [keeps_rules]:
  "tables_ok b l k \<Longrightarrow> keeps (tables_ok b l) (put s k)"
  "tables_ok b l k \<Longrightarrow> keeps (tables_ok b l) (putChar c k)"
  unfolding put_def putChar_def putColorChar_def by (intro keeps_bind sys_write_keeps; simp)+

lemma put_number_keeps [keeps_rules]: "tables_ok b l k \<Longrightarrow> keeps (tables_ok b l) (put_number f k)"
  by (auto simp: put_number_def intro!: put_keeps split: option.split)

lemma convert_keeps [keeps_rules]: "tables_ok b l k \<Longrightarrow> keeps (tables_ok b l) (convert d c args k)"
  unfolding convert_def
  by (auto intro!: keeps_bind put_keeps put_number_keeps split: list.split va.split)

lemma print_with_keeps [keeps_rules]:
  "tables_ok b l k \<Longrightarrow> keeps (tables_ok b l) (print_with d st fmt args k)"
  by (induction d st fmt args k rule: print_with.induct) (auto intro!: keeps_bind convert_keeps put_keeps)

lemma printNode_keeps [keeps_rules]: "tables_ok b l k \<Longrightarrow> keeps (tables_ok b l) (printNode n k)"
  unfolding printNode_def printf_kernel_def by (intro keeps_with_node_proc print_with_keeps)

lemma print_all_nodes_keeps [keeps_rules]: "tables_ok b l k \<Longrightarrow> keeps (tables_ok b l) (print_all_nodes k)"
  unfolding print_all_nodes_def printf_kernel_def Let_def
proof (intro keeps_bind keeps_with_node print_with_keeps printNode_keeps keeps_iterate)
  show "tables_ok b l k \<Longrightarrow> keeps (tables_ok b l) (nodes_turn s k)" for s k
    unfolding nodes_turn_def by (auto intro!: keeps_bind keeps_with_node printNode_keeps)
qed

lemma registers_keeps [keeps_rules]: "tables_ok b l k \<Longrightarrow> keeps (tables_ok b l) (print_registers is k)"
proof (induction "is" arbitrary: k)
  case (Cons i "is")
  have v: "keeps (tables_ok b l) (printBin v k)" if "tables_ok b l k" for v k
    using that by (auto simp: printBin_def printBase_video_def intro!: keeps_bind core_keeps split: option.split)
  have "keeps (tables_ok b l) (print_register i k)" if "tables_ok b l k" for k
    using that unfolding print_register_def by (auto intro!: keeps_bind core_keeps v)
  then show ?case using Cons by (auto intro!: keeps_bind)
qed simp

lemma exception_keeps [keeps_rules]:
  assumes m: "\<And>k. tables_ok b l k \<Longrightarrow> keeps (tables_ok b l) (loadMain k)" and t: "tables_ok b l k"
  shows "keeps (tables_ok b l) (exceptionDispatcher loadMain e k)"
  using t unfolding exceptionDispatcher_def divideZeroException_def invalidOpcodeException_def endException_def
    printSavedRegisters_def Let_def
  by (auto intro!: keeps_bind core_keeps registers_keeps sys_wait_keeps m)

end
