(* ===== verification/Kernel_Machine.thy ===== *)
theory Kernel_Machine
  imports Kernel_Calls Boot_Properties
begin

text \<open>
  The running kernel as a state machine. A step is an entry into the kernel, by a system call or an
  interrupt, or a computation that gave up the processor in the kernel and goes on; between two steps
  user programs write their memory.
\<close>

section \<open>Entries\<close>

text \<open>The system calls with their arguments, in the order of their numbers in \<open>syscallINTHandler\<close>.\<close>

datatype sys_op =
    Sys_write byte buffer u64 color
  | Sys_read byte buffer u32
  | Sys_writeAt u16 u16 cstring color
  | Sys_clearScreen
  | Sys_wait u32
  | Sys_time i32 i32 i32
  | Sys_date i32 i32 i32
  | Sys_heightScr
  | Sys_widthScr
  | Sys_timedRead byte buffer u32 u32
  | Sys_drawRectangle u16 u16 u16 u16 color
  | Sys_changeFontSize u32
  | Sys_inforeg "u64 list"
  | Sys_beep u32
  | Sys_malloc u64
  | Sys_free u64
  | Sys_exec u64 u64 u64 u64 u64 u64 u64
  | Sys_pipe_open cstring
  | Sys_pipes_info
  | Sys_pipe_close i32
  | Sys_sem_open cstring i32
  | Sys_sem_close cstring
  | Sys_sem_post cstring
  | Sys_sem_wait cstring
  | Sys_sem_info i32 sem_ts
  | Sys_sem_count
  | Sys_get_pid
  | Sys_kill u64
  | Sys_block u64
  | Sys_unblock u64
  | Sys_yield
  | Sys_change_priority u64 u64
  | Sys_ps
  | Sys_wait_pid
  | Sys_mem_info

text \<open>The result goes back to the program that called, and is not kept.\<close>

definition to_caller :: "'a res \<Rightarrow> unit res" where
  "to_caller m = bind m (\<lambda>_ k. Done () k)"

fun system_call :: "sys_op \<Rightarrow> kernel \<Rightarrow> unit res" where
  "system_call (Sys_write fd s n c) k = to_caller (sys_write fd s n c k)"
| "system_call (Sys_read fd buf n) k = to_caller (sys_read fd buf n k)"
| "system_call (Sys_writeAt x y s c) k = to_caller (sys_writeAt x y s c k)"
| "system_call Sys_clearScreen k = to_caller (sys_clearScreen k)"
| "system_call (Sys_wait m) k = to_caller (sys_wait m k)"
| "system_call (Sys_time h m s) k = to_caller (sys_time h m s k)"
| "system_call (Sys_date d m y) k = to_caller (sys_date d m y k)"
| "system_call Sys_heightScr k = to_caller (sys_heightScr k)"
| "system_call Sys_widthScr k = to_caller (sys_widthScr k)"
| "system_call (Sys_timedRead fd buf n m) k = to_caller (sys_timedRead fd buf n m k)"
| "system_call (Sys_drawRectangle x y w h c) k = to_caller (sys_drawRectangle x y w h c k)"
| "system_call (Sys_changeFontSize d) k = to_caller (sys_changeFontSize d k)"
| "system_call (Sys_inforeg a) k = to_caller (sys_inforeg a k)"
| "system_call (Sys_beep f) k = to_caller (sys_beep f k)"
| "system_call (Sys_malloc n) k = to_caller (sys_malloc n k)"
| "system_call (Sys_free p) k = to_caller (sys_free p k)"
| "system_call (Sys_exec nm prog argv r w pr fg) k = to_caller (sys_exec nm prog argv r w pr fg k)"
| "system_call (Sys_pipe_open nm) k = to_caller (sys_pipe_open nm k)"
| "system_call Sys_pipes_info k = to_caller (sys_pipes_info k)"
| "system_call (Sys_pipe_close i) k = to_caller (sys_pipe_close i k)"
| "system_call (Sys_sem_open nm v) k = to_caller (sys_sem_open nm v k)"
| "system_call (Sys_sem_close nm) k = to_caller (sys_sem_close nm k)"
| "system_call (Sys_sem_post nm) k = to_caller (sys_sem_post nm k)"
| "system_call (Sys_sem_wait nm) k = to_caller (sys_sem_wait nm k)"
| "system_call (Sys_sem_info i s) k = to_caller (sys_sem_info i s k)"
| "system_call Sys_sem_count k = to_caller (sys_sem_count k)"
| "system_call Sys_get_pid k = to_caller (sys_get_pid k)"
| "system_call (Sys_kill p) k = to_caller (sys_kill p k)"
| "system_call (Sys_block p) k = to_caller (sys_block p k)"
| "system_call (Sys_unblock p) k = to_caller (sys_unblock p k)"
| "system_call Sys_yield k = to_caller (sys_yield k)"
| "system_call (Sys_change_priority p pr) k = to_caller (sys_change_priority p pr k)"
| "system_call Sys_ps k = to_caller (sys_ps k)"
| "system_call Sys_wait_pid k = to_caller (sys_wait_pid k)"
| "system_call Sys_mem_info k = to_caller (sys_mem_info k)"

text \<open>The macro \<open>snapshot\<close>: \<open>r i\<close> is what goes to entry \<open>i\<close>.\<close>

definition snapshot :: "(nat \<Rightarrow> u64) \<Rightarrow> kernel \<Rightarrow> kernel" where
  "snapshot r k = k\<lparr>registers := map r [0..<REGISTER_NUM]\<rparr>"

text \<open>
  The interrupt routines. \<open>irq00\<close> takes the stack pointer of what it interrupts, \<open>irq01\<close> the scan
  code; these and the system calls end with the signal to the interrupt controller at port \<open>0x20\<close>. After an exception
  the kernel's \<open>main\<close> runs again, up to the jump into the user module.
\<close>

definition irq00Handler_entry :: "u64 \<Rightarrow> kernel \<Rightarrow> unit res" where
  "irq00Handler_entry sp k = bind (scheduler sp (timer_handler k)) (\<lambda>_ k. Done () (outb 0x20 0x20 k))"

definition irq01Handler_entry :: "(nat \<Rightarrow> u64) \<Rightarrow> byte \<Rightarrow> kernel \<Rightarrow> unit res" where
  "irq01Handler_entry r code k =
     bind (if code = 0x38 then Done () (snapshot r k) else saveKey code k) (\<lambda>_ k. Done () (outb 0x20 0x20 k))"

definition main_again :: "handlers \<Rightarrow> idt \<Rightarrow> kernel \<Rightarrow> unit res" where
  "main_again h t k = to_caller (snd (kernel_main h (Done ()) t k))"

definition exception_entry :: "handlers \<Rightarrow> idt \<Rightarrow> (nat \<Rightarrow> u64) \<Rightarrow> u64 \<Rightarrow> kernel \<Rightarrow> unit res" where
  "exception_entry h t r e k = exceptionDispatcher (main_again h t) e (snapshot r k)"

datatype kernel_event =
    System_call sys_op
  | Timer_tick u64
  | Key_code "nat \<Rightarrow> u64" byte
  | Exception handlers idt "nat \<Rightarrow> u64" u64

fun kernel_entry :: "kernel_event \<Rightarrow> kernel \<Rightarrow> unit res" where
  "kernel_entry (System_call c) k = bind (system_call c k) (\<lambda>_ k. Done () (outb 0x20 0x20 k))"
| "kernel_entry (Timer_tick sp) k = irq00Handler_entry sp k"
| "kernel_entry (Key_code r code) k = irq01Handler_entry r code k"
| "kernel_entry (Exception h t r e) k = exception_entry h t r e k"

section \<open>Steps\<close>

text \<open>The kernel's state after a computation has run, and the computations that are suspended in it.\<close>

type_synonym config = "kernel \<times> (kernel \<Rightarrow> unit res) list"

fun outcome :: "unit res \<Rightarrow> (kernel \<Rightarrow> unit res) list \<Rightarrow> config option" where
  "outcome Fault cs = None"
| "outcome Loop cs = None"
| "outcome (Done u k) cs = Some (k, cs)"
| "outcome (Resched k c) cs = Some (k, c # cs)"

inductive kernel_step :: "config \<Rightarrow> config \<Rightarrow> bool" where
  entered: "outcome (kernel_entry e k) cs = Some s \<Longrightarrow> kernel_step (k, cs) s"
| resumed: "outcome (c k) (xs @ ys) = Some s \<Longrightarrow> kernel_step (k, xs @ c # ys) s"
| user_code: "kernel_step (k, cs) (k\<lparr>cells := m, cstr := t, shared := d, game_scores := g\<rparr>, cs)"

inductive_cases kernel_stepE: "kernel_step (k, cs) s"

section \<open>The invariant\<close>


lemma outb_ok [simp]: "tables_ok b l (outb p v k) = tables_ok b l k"
  by (simp add: outb_def)







lemma snapshot_ok [simp]: "tables_ok b l k \<Longrightarrow> tables_ok b l (snapshot r k)"
  by (simp add: snapshot_def tables_ok_def sem_table_def REGISTER_NUM_def)

lemma timer_ok [simp]: "tables_ok b l (timer_handler k) = tables_ok b l k"
  by (simp add: timer_handler_def)









section \<open>From the start\<close>





section \<open>Property\<close>



end
