(* ===== verification/Bmfs.thy ===== *)
theory Bmfs
  imports Module_Packer Scheduler_Core
begin

text \<open>
  The tool that makes the disk image and keeps the files on it, \<open>Bootloader/BMFS/bmfs.c\<close>: a directory
  of 64 entries behind the disk information, and files in whole blocks of 2 MiB from block 1 on. The
  directory is a list of entries in memory and bytes on the disk. The host is its files and what was
  printed, the progress of filling the image apart; writing to the disk succeeds. \<open>None\<close> is a crash.
\<close>

section \<open>Entries\<close>

record BMFSEntry =
  FileName :: buffer
  StartingBlock :: u64
  ReservedBlocks :: u64
  FileSize :: u64
  Unused :: u64

text \<open>Little endian numbers.\<close>

fun le_bytes :: "nat \<Rightarrow> u64 \<Rightarrow> buffer" where
  "le_bytes 0 v = []"
| "le_bytes (Suc n) v = ucast v # le_bytes n (drop_bit 8 v)"

fun le_value :: "buffer \<Rightarrow> nat" where
  "le_value [] = 0"
| "le_value (b # bs) = unat b + 256 * le_value bs"

definition entry_bytes :: "BMFSEntry \<Rightarrow> buffer" where
  "entry_bytes e = FileName e @ le_bytes 8 (StartingBlock e) @ le_bytes 8 (ReservedBlocks e) @
     le_bytes 8 (FileSize e) @ le_bytes 8 (Unused e)"

definition number_at :: "nat \<Rightarrow> buffer \<Rightarrow> u64" where
  "number_at off b = of_nat (le_value (take 8 (drop off b)))"

definition entry_of :: "buffer \<Rightarrow> BMFSEntry" where
  "entry_of b = \<lparr>FileName = take 32 b, StartingBlock = number_at 32 b, ReservedBlocks = number_at 40 b,
     FileSize = number_at 48 b, Unused = number_at 56 b\<rparr>"

definition dir_bytes :: "BMFSEntry list \<Rightarrow> buffer" where
  "dir_bytes es = concat (map entry_bytes es)"

definition dir_of :: "buffer \<Rightarrow> BMFSEntry list" where
  "dir_of b = map (\<lambda>i. entry_of (take 64 (drop (64 * i) b))) [0..<64]"

text \<open>The first byte of the name marks the end of the directory, or a deleted file.\<close>

definition marker :: "BMFSEntry \<Rightarrow> byte" where
  "marker e = FileName e ! 0"

text \<open>The C string at the start of an entry: a name without terminator runs on into the numbers.\<close>

definition c_string :: "buffer \<Rightarrow> cstring" where
  "c_string b = takeWhile (\<lambda>c. c \<noteq> 0) b"

definition entry_name :: "BMFSEntry \<Rightarrow> cstring" where
  "entry_name e = c_string (entry_bytes e)"

section \<open>The tool's state\<close>

text \<open>\<open>disk\<close> is the content of the open image; \<open>writable\<close> says which local files can be written.\<close>

record bmfs =
  disk :: buffer
  disksize :: u32
  DiskInfo :: buffer
  Directory :: "BMFSEntry list"
  local_files :: "cstring \<Rightarrow> buffer option"
  writable :: "cstring \<Rightarrow> bool"
  stdin_line :: cstring
  screen_text :: "cstring list"

definition say :: "cstring \<Rightarrow> bmfs \<Rightarrow> bmfs" where
  "say t s = s\<lparr>screen_text := screen_text s @ [t]\<rparr>"

definition line :: "string \<Rightarrow> cstring" where
  "line t = ascii t @ [10]"

definition quoted :: "cstring \<Rightarrow> cstring" where
  "quoted t = [39] @ t @ [39]"

text \<open>Writing at a position, behind the end too.\<close>

definition write_at :: "nat \<Rightarrow> buffer \<Rightarrow> buffer \<Rightarrow> buffer" where
  "write_at off b d =
     (if b = [] then d else take off (d @ replicate (off - length d) 0) @ b @ drop (off + length b) d)"

text \<open>\<open>fread\<close> into a static array, which is zero before.\<close>

definition fetch :: "nat \<Rightarrow> nat \<Rightarrow> buffer \<Rightarrow> buffer" where
  "fetch off n d = take n (drop off d @ replicate n 0)"

definition flush_directory :: "bmfs \<Rightarrow> bmfs" where
  "flush_directory s = s\<lparr>disk := write_at 4096 (dir_bytes (Directory s)) (disk s)\<rparr>"

definition fs_tag :: cstring where "fs_tag = ascii ''BMFS''"

section \<open>Looking a file up\<close>

text \<open>The index and the entry. Comparing with a NULL name crashes.\<close>

fun find_from :: "cstring option \<Rightarrow> nat \<Rightarrow> BMFSEntry list \<Rightarrow> (nat \<times> BMFSEntry) option option" where
  "find_from nm i [] = Some None"
| "find_from nm i (e # es) =
     (if marker e = 0 then Some None
      else if marker e = 1 then find_from nm (Suc i) es
      else
        case nm of
          None \<Rightarrow> None
        | Some f \<Rightarrow> if f = entry_name e then Some (Some (i, e)) else find_from nm (Suc i) es)"

definition findfile :: "cstring option \<Rightarrow> bmfs \<Rightarrow> (nat \<times> BMFSEntry) option option" where
  "findfile nm s = find_from nm 0 (Directory s)"

section \<open>Listing\<close>

fun dec_nat :: "nat \<Rightarrow> cstring" where
  "dec_nat n = (if n < 10 then [48 + of_nat n] else dec_nat (n div 10) @ [48 + of_nat (n mod 10)])"

definition dec_int :: "int \<Rightarrow> cstring" where
  "dec_int v = (if v < 0 then 45 # dec_nat (nat (- v)) else dec_nat (nat v))"

definition pad_right :: "nat \<Rightarrow> cstring \<Rightarrow> cstring" where
  "pad_right n t = t @ replicate (n - length t) 32"

definition pad_left :: "nat \<Rightarrow> cstring \<Rightarrow> cstring" where
  "pad_left n t = replicate (n - length t) 32 @ t"

definition list_line :: "BMFSEntry \<Rightarrow> cstring" where
  "list_line e = pad_right 32 (entry_name e) @ [32] @ pad_left 20 (dec_int (sint (FileSize e))) @ [32] @
     pad_left 20 (dec_int (sint (ReservedBlocks e * 2))) @ [10]"

fun list_from :: "BMFSEntry list \<Rightarrow> cstring list" where
  "list_from [] = []"
| "list_from (e # es) =
     (if marker e = 0 then [] else if marker e = 1 then list_from es else list_line e # list_from es)"

definition bmfs_list :: "cstring \<Rightarrow> bmfs \<Rightarrow> bmfs" where
  "bmfs_list diskname s =
     s\<lparr>screen_text := screen_text s @
       [diskname @ [10] @ ascii ''Disk Size: '' @ dec_int (sint (disksize s)) @ line '' MiB'',
        line ''Name                            |            Size (B)|      Reserved (MiB)'',
        replicate 74 61 @ [10]] @ list_from (Directory s)\<rparr>"

section \<open>Formatting\<close>

definition zero_entry :: BMFSEntry where
  "zero_entry = \<lparr>FileName = replicate 32 0, StartingBlock = 0, ReservedBlocks = 0, FileSize = 0, Unused = 0\<rparr>"

definition bmfs_format :: "bmfs \<Rightarrow> bmfs" where
  "bmfs_format s =
     (let s = s\<lparr>DiskInfo := fs_tag @ replicate 508 0, Directory := replicate 64 zero_entry\<rparr>;
          s = s\<lparr>disk := write_at 1024 (DiskInfo s) (disk s)\<rparr>
      in say (line ''Format complete.'') (flush_directory s))"

section \<open>Creating\<close>

text \<open>Deleted entries go to the end; the difference of the blocks is returned as an \<open>int\<close>.\<close>

definition StartingBlockCmp :: "BMFSEntry \<Rightarrow> BMFSEntry \<Rightarrow> int" where
  "StartingBlockCmp ea eb =
     (if marker ea = 1 then 1
      else if marker eb = 1 then - 1
      else sint (ucast (StartingBlock ea - StartingBlock eb) :: i32))"

text \<open>\<open>qsort\<close>, as insertion; where the comparison is not an order, the C library may differ.\<close>

fun qsort_insert :: "('a \<Rightarrow> 'a \<Rightarrow> int) \<Rightarrow> 'a \<Rightarrow> 'a list \<Rightarrow> 'a list" where
  "qsort_insert cmp x [] = [x]"
| "qsort_insert cmp x (y # ys) = (if cmp x y \<le> 0 then x # y # ys else y # qsort_insert cmp x ys)"

definition qsort :: "('a \<Rightarrow> 'a \<Rightarrow> int) \<Rightarrow> 'a list \<Rightarrow> 'a list" where
  "qsort cmp xs = foldr (qsort_insert cmp) xs []"

text \<open>
  The number of entries in front of the end of the directory, 0 when it has no end, and the first
  entry for a new file.
\<close>

fun count_entries :: "nat \<Rightarrow> nat option \<Rightarrow> BMFSEntry list \<Rightarrow> nat \<times> nat option" where
  "count_entries i free [] = (0, free)"
| "count_entries i free (e # es) =
     (if marker e = 0 then (i, if free = None then Some i else free)
      else if marker e = 1 then count_entries (Suc i) (if free = None then Some i else free) es
      else count_entries (Suc i) free es)"

text \<open>The search for room in front of each entry and behind the last: the first block, or 0.\<close>

fun find_gap :: "u64 \<Rightarrow> u64 \<Rightarrow> u64 \<Rightarrow> BMFSEntry list \<Rightarrow> u64" where
  "find_gap last_block requested prev_end [] = (if last_block - prev_end \<ge> requested then prev_end else 0)"
| "find_gap last_block requested prev_end (e # es) =
     (let this_start = (if marker e = 1 then last_block else StartingBlock e) in
      if this_start - prev_end \<ge> requested then prev_end
      else find_gap last_block requested (StartingBlock e + ReservedBlocks e) es)"

text \<open>\<open>strcpy\<close> to the name, after the numbers are set: a long name runs over them, a very long one over the next entry.\<close>

definition new_entry :: "cstring \<Rightarrow> u64 \<Rightarrow> u64 \<Rightarrow> BMFSEntry \<Rightarrow> BMFSEntry option" where
  "new_entry nm start blocks old =
     (let e = old\<lparr>StartingBlock := start, ReservedBlocks := blocks, FileSize := 0\<rparr> in
      if length nm < 64 then Some (entry_of (write_at 0 (nm @ [0]) (entry_bytes e))) else None)"

definition set_marker :: "byte \<Rightarrow> BMFSEntry \<Rightarrow> BMFSEntry" where
  "set_marker c e = e\<lparr>FileName := (FileName e)[0 := c]\<rparr>"

definition add_entry :: "nat \<Rightarrow> nat \<Rightarrow> BMFSEntry \<Rightarrow> BMFSEntry list \<Rightarrow> BMFSEntry list" where
  "add_entry free used e es =
     (let es = es[free := e] in
      if free = used \<and> used + 1 < 64 then es[used + 1 := set_marker 0 (es ! (used + 1))] else es)"

definition bmfs_create :: "cstring \<Rightarrow> u64 \<Rightarrow> bmfs \<Rightarrow> bmfs option" where
  "bmfs_create filename maxsize s =
     (let maxsize = (if maxsize mod 2 \<noteq> 0 then maxsize + 1 else maxsize) in
      case findfile (Some filename) s of
        None \<Rightarrow> None
      | Some (Some _) \<Rightarrow> Some (say (line ''Error: File already exists.'') s)
      | Some None \<Rightarrow>
          let blocks_requested = maxsize div 2; num_blocks = ucast (disksize s div 2) :: u64;
              s = say (line ''Creating new file...'') s
          in
          (case count_entries 0 None (Directory s) of
             (used, None) \<Rightarrow> Some (say (line ''Cannot create file: no free directory entries.'') s)
           | (used, Some free) \<Rightarrow>
               let start = find_gap (num_blocks - 1) blocks_requested 1
                     (qsort StartingBlockCmp (take used (Directory s)))
               in
               if start = 0
               then Some (say (ascii ''Cannot create file of size '' @ dec_int (sint maxsize) @ line '' MiB.'') s)
               else
                 map_option (\<lambda>e. say (line ''Complete'')
                     (flush_directory (s\<lparr>Directory := add_entry free used e (Directory s)\<rparr>)))
                   (new_entry filename start blocks_requested (Directory s ! free))))"

section \<open>Reading, writing and deleting\<close>

definition BLOCK_SIZE :: nat where "BLOCK_SIZE = 2097152"

text \<open>The loops count in an \<open>int\<close>; a position of 2^63 or more cannot be sought.\<close>

definition file_offset :: "BMFSEntry \<Rightarrow> nat" where
  "file_offset e = unat (StartingBlock e * 2097152)"

definition in_reach :: "BMFSEntry \<Rightarrow> nat \<Rightarrow> bool" where
  "in_reach e n \<longleftrightarrow> file_offset e < 2 ^ 63 \<and> n < 2 ^ 31"

text \<open>\<open>n\<close> turns of \<open>putc(getc(from), to)\<close>: behind the end of the file \<open>getc\<close> gives \<open>-1\<close>.\<close>

definition get_bytes :: "nat \<Rightarrow> nat \<Rightarrow> buffer \<Rightarrow> buffer" where
  "get_bytes off n d = take n (drop off d) @ replicate (n - length (drop off d)) (- 1)"

definition bmfs_read :: "cstring option \<Rightarrow> bmfs \<Rightarrow> bmfs option" where
  "bmfs_read filename s =
     (case findfile filename s of
        None \<Rightarrow> None
      | Some None \<Rightarrow> Some (say (line ''Error: File not found in BMFS.'') s)
      | Some (Some (slot, e)) \<Rightarrow>
          let nm = entry_name e; n = unat (FileSize e);
              s = say (ascii ''Reading '' @ quoted (the filename) @ ascii '' from BMFS to local file... '') s
          in
          if \<not> writable s nm then Some (say (ascii ''Error: Could not open local file '' @ quoted nm @ [10]) s)
          else if in_reach e n
            then Some (say (line ''Complete'')
              (s\<lparr>local_files := (local_files s)(nm \<mapsto> get_bytes (file_offset e) n (disk s))\<rparr>))
          else None)"

definition bmfs_write :: "cstring option \<Rightarrow> bmfs \<Rightarrow> bmfs option" where
  "bmfs_write filename s =
     (case findfile filename s of
        None \<Rightarrow> None
      | Some None \<Rightarrow> Some (say (line ''Error: File not found in BMFS. A file entry must first be created.'') s)
      | Some (Some (slot, e)) \<Rightarrow>
          let nm = the filename; s = say (ascii ''Writing local file '' @ quoted nm @ ascii '' to BMFS... '') s in
          (case local_files s nm of
             None \<Rightarrow> Some (say (ascii ''Error: Could not open local file '' @ quoted (entry_name e) @ [10]) s)
           | Some content \<Rightarrow>
               let n = length content in
               if ReservedBlocks e * 2097152 < of_nat n
               then Some (say (line ''Not enough reserved space in BMFS.'') s)
               else if in_reach e n
               then Some (say (line ''Complete'') (flush_directory
                 (s\<lparr>disk := write_at (file_offset e) content (disk s),
                    Directory := (Directory s)[slot := (Directory s ! slot)\<lparr>FileSize := of_nat n\<rparr>]\<rparr>)))
               else None))"

definition bmfs_delete :: "cstring option \<Rightarrow> bmfs \<Rightarrow> bmfs option" where
  "bmfs_delete filename s =
     (case findfile filename s of
        None \<Rightarrow> None
      | Some None \<Rightarrow> Some (say (line ''Error: File not found in BMFS.'') s)
      | Some (Some (slot, e)) \<Rightarrow>
          let s = say (ascii ''Deleting file '' @ quoted (the filename) @ ascii '' from BMFS... '') s in
          Some (say (line ''Complete'') (flush_directory
            (s\<lparr>Directory := (Directory s)[slot := set_marker 1 (Directory s ! slot)]\<rparr>))))"


section \<open>Making an image\<close>

text \<open>
  The size: its value and the number of times it is multiplied by 1024, or a message; the multiplication
  counts the steps that would overflow.
\<close>

definition is_digit :: "byte \<Rightarrow> bool" where
  "is_digit c \<longleftrightarrow> 48 \<le> c \<and> c \<le> 57"

definition to_upper :: "byte \<Rightarrow> byte" where
  "to_upper c = (if 97 \<le> c \<and> c \<le> 122 then c - 32 else c)"

definition size_factor :: "byte \<Rightarrow> nat option" where
  "size_factor c = map_of [(75, 1), (77, 2), (71, 3), (84, 4), (80, 5)] (to_upper c)"

definition invalid_size :: "cstring \<Rightarrow> cstring" where
  "invalid_size str = ascii ''Error: Invalid disk size string: '' @ quoted str @ [10]"

fun parse_size :: "cstring \<Rightarrow> bool \<Rightarrow> u64 \<Rightarrow> cstring \<Rightarrow> cstring + u64 \<times> nat" where
  "parse_size str start d [] = Inr (d, 0)"
| "parse_size str start d (c # cs) =
     (if is_digit c then
        (if d * 10 > d then parse_size str False (d * 10 + ucast (c - 48)) cs
         else if d = 0 then parse_size str False (d + ucast (c - 48)) cs
         else Inl (line ''Error: Disk size is too large''))
      else if start then Inl (line ''Error: A numeric disk size must be specified'')
      else
        case size_factor c of
          None \<Rightarrow> Inl (invalid_size str)
        | Some f \<Rightarrow> if cs = [] then Inr (d, f) else Inl (invalid_size str))"

fun scale_size :: "nat \<Rightarrow> u64 \<Rightarrow> nat \<times> u64" where
  "scale_size 0 d = (0, d)"
| "scale_size (Suc f) d =
     (if d * 1024 > d then scale_size f (d * 1024)
      else let (errors, d) = scale_size f d in (Suc errors, d))"

definition minimumDiskSize :: u64 where "minimumDiskSize = 6 * 1024 * 1024"

definition disk_size :: "cstring \<Rightarrow> cstring + u64" where
  "disk_size str =
     (case parse_size str True 0 str of
        Inl m \<Rightarrow> Inl m
      | Inr (d, f) \<Rightarrow>
          (case if d > 0 then scale_size f d else (0, d) of
             (Suc errors, d) \<Rightarrow> Inl (concat (replicate (Suc errors) (line ''Error: Disk size is too large'')))
           | (0, d) \<Rightarrow>
               if d < minimumDiskSize
               then Inl (ascii ''Error: Disk size must be at least '' @ dec_nat (unat minimumDiskSize) @ ascii '' bytes ('' @
                 dec_nat (unat minimumDiskSize div (1024 * 1024)) @ line ''MiB)'')
               else Inr d))"

text \<open>The loops that fill the image and copy a file, in pieces of 50 KiB.\<close>

definition bufferSize :: nat where "bufferSize = 50 * 1024"

function zero_fill :: "nat \<Rightarrow> buffer \<Rightarrow> buffer" where
  "zero_fill n d =
     (if length d < n then zero_fill n (d @ replicate (min bufferSize (n - length d)) 0) else d)"
  by pat_completeness auto
termination by (relation "measure (\<lambda>(n, d). n - length d)") (auto simp: bufferSize_def)

function copy_file :: "nat \<Rightarrow> buffer \<Rightarrow> buffer \<Rightarrow> buffer" where
  "copy_file off src d =
     (if src = [] then d
      else copy_file (off + length (take bufferSize src)) (drop bufferSize src) (write_at off (take bufferSize src) d))"
  by pat_completeness auto
termination by (relation "measure (\<lambda>(off, src, d). length src)") (auto simp: bufferSize_def)

declare zero_fill.simps [simp del] copy_file.simps [simp del]

text \<open>An optional input: \<open>Inl\<close> when it is named and cannot be opened.\<close>

definition open_input :: "string \<Rightarrow> cstring option \<Rightarrow> bmfs \<Rightarrow> cstring + buffer option" where
  "open_input kind nm s =
     (case nm of
        None \<Rightarrow> Inr None
      | Some f \<Rightarrow>
          (case local_files s f of
             None \<Rightarrow> Inl (ascii ''Error: Unable to open '' @ ascii kind @ ascii '' file '' @ quoted f @ [10])
           | Some c \<Rightarrow> Inr (Some c)))"

text \<open>The image: the size is filled with zeros, formatted, and gets the boot record, the boot loader and the kernel.\<close>

definition put_mbr :: "cstring \<Rightarrow> buffer \<Rightarrow> bmfs \<Rightarrow> bool \<times> bmfs" where
  "put_mbr nm content s =
     (let s = say (line ''Writing master boot record.'') s in
      if length content < 512
      then (False, say (ascii ''Error: Failed to read file '' @ quoted nm @ [10]) s)
      else (True, s\<lparr>disk := write_at 0 (take 512 content) (disk s)\<rparr>))"

definition put_file :: "string \<Rightarrow> nat \<Rightarrow> buffer option \<Rightarrow> bmfs \<Rightarrow> nat \<times> bmfs" where
  "put_file message off content s =
     (case content of
        None \<Rightarrow> (off, s)
      | Some c \<Rightarrow> (off + length c, (say (line message) s)\<lparr>disk := copy_file off c (disk s)\<rparr>))"

definition make_image :: "u64 \<Rightarrow> string \<Rightarrow> cstring option \<Rightarrow> buffer option \<Rightarrow> buffer option \<Rightarrow> buffer option \<Rightarrow> bmfs \<Rightarrow> int \<times> bmfs" where
  "make_image bytes kind mbr_name mbr boot ker s =
     (let s = bmfs_format (s\<lparr>disk := zero_fill (unat bytes) []\<rparr>);
          (ok, s) = (case mbr of None \<Rightarrow> (True, s) | Some c \<Rightarrow> put_mbr (the mbr_name) c s)
      in
      if \<not> ok then (1, s)
      else
        let (off, s) = put_file (''Writing '' @ kind @ '' file.'') 8192 boot s;
            (off, s) = put_file ''Writing kernel.'' off ker s
        in (0, say (line ''Disk initialization complete.'') s))"

text \<open>
  The boot loader file is called the system when there is no kernel file, which \<open>main\<close> only passes with
  a boot loader. Memory for the buffer is
  there; \<open>writable\<close> says whether the image can be opened. When it was not, there is no image.
\<close>

definition initialize :: "cstring \<Rightarrow> cstring \<Rightarrow> cstring option \<Rightarrow> cstring option \<Rightarrow> cstring option \<Rightarrow> bmfs \<Rightarrow> (int \<times> bool) \<times> bmfs" where
  "initialize diskname str mbr boot ker s =
     (let kind = (if ker = None then ''system'' else ''boot loader'') in
      case disk_size str of Inl m \<Rightarrow> ((1, False), say m s) | Inr d \<Rightarrow>
     (case open_input ''MBR'' mbr s of Inl m \<Rightarrow> ((1, False), say m s) | Inr mbr_data \<Rightarrow>
     (case open_input kind boot s of Inl m \<Rightarrow> ((1, False), say m s) | Inr boot_data \<Rightarrow>
     (case open_input ''kernel'' ker s of Inl m \<Rightarrow> ((1, False), say m s) | Inr kernel_data \<Rightarrow>
      if \<not> writable s diskname
      then ((1, False), say (ascii ''Error: Unable to open disk '' @ quoted diskname @ [10]) s)
      else
        let (ret, s) = make_image d kind mbr mbr_data boot_data kernel_data s in ((ret, True), s)))))"


section \<open>The commands\<close>

text \<open>\<open>atoi\<close>: spaces, a sign, and the digits up to the first other character.\<close>

fun digits_value :: "int \<Rightarrow> cstring \<Rightarrow> int" where
  "digits_value v [] = v"
| "digits_value v (c # cs) = (if is_digit c then digits_value (v * 10 + uint (c - 48)) cs else v)"

definition libc_atoi :: "cstring \<Rightarrow> int" where
  "libc_atoi str =
     (let t = dropWhile (\<lambda>c. c = 32 \<or> 9 \<le> c \<and> c \<le> 13) str in
      case t of
        [] \<Rightarrow> 0
      | c # cs \<Rightarrow> if c = 45 then - digits_value 0 cs else if c = 43 then digits_value 0 cs else digits_value 0 t)"

definition to_lower :: "byte \<Rightarrow> byte" where
  "to_lower c = (if 65 \<le> c \<and> c \<le> 90 then c + 32 else c)"

definition same_word :: "cstring \<Rightarrow> cstring \<Rightarrow> bool" where
  "same_word a b \<longleftrightarrow> map to_lower a = map to_lower b"

definition command_is :: "cstring \<Rightarrow> string \<Rightarrow> bool" where
  "command_is command t = same_word (ascii t) command"

text \<open>The size of a new file: a signed argument, or what is typed, converted to an unsigned number.\<close>

definition create_command :: "cstring list \<Rightarrow> bmfs \<Rightarrow> bmfs option" where
  "create_command argv s =
     (if length argv < 4 then Some (say (line ''Error: File name not specified.'') s)
      else if length argv > 4
        then
          (let n = sint (of_int (libc_atoi (argv ! 4)) :: i32) in
           if n \<ge> 1 then bmfs_create (argv ! 3) (of_int n) s
           else Some (say (line ''Error: Invalid file size.'') s))
      else
        let s = say (ascii ''Maximum file size in MiB: '') s; n = (of_int (libc_atoi (take 31 (stdin_line s))) :: u32) in
        if n \<ge> 1 then bmfs_create (argv ! 3) (ucast n) s
        else Some (say (line ''Error: Invalid file size.'') s))"

definition nth_arg :: "nat \<Rightarrow> 'a list \<Rightarrow> 'a option" where
  "nth_arg i xs = (if i < length xs then Some (xs ! i) else None)"

definition run_command :: "cstring list \<Rightarrow> bmfs \<Rightarrow> bmfs option" where
  "run_command argv s =
     (let command = argv ! 2; filename = nth_arg 3 argv in
      if command_is command ''list'' then Some (bmfs_list (argv ! 1) s)
      else if command_is command ''format''
        then Some (if length argv > 3 \<and> command_is (argv ! 3) ''/FORCE'' then bmfs_format s
          else say (line ''Format aborted!'') s)
      else if command_is command ''create'' then create_command argv s
      else if command_is command ''read'' then bmfs_read filename s
      else if command_is command ''write'' then bmfs_write filename s
      else if command_is command ''delete'' then bmfs_delete filename s
      else Some (say (line ''Unknown command'') s))"

definition usage :: "cstring \<Rightarrow> cstring list" where
  "usage program =
     [line ''BareMetal File System Utility v1.0 (2013 04 10)'',
      line ''Written by Ian Seyler @ Return Infinity (ian.seyler@returninfinity.com)'' @ [10],
      ascii ''Usage: '' @ program @ line '' disk function file'',
      line ''Disk: the name of the disk file'',
      line ''Function: list, read, write, create, delete, format, initialize'',
      line ''File: (if applicable)'']"

definition load_disk :: "buffer \<Rightarrow> bmfs \<Rightarrow> bmfs" where
  "load_disk d s =
     s\<lparr>disk := d, disksize := of_nat (length d div 1048576), DiskInfo := fetch 1024 512 d,
       Directory := dir_of (fetch 4096 4096 d)\<rparr>"

definition close_disk :: "cstring \<Rightarrow> bmfs \<Rightarrow> bmfs" where
  "close_disk diskname s = s\<lparr>local_files := (local_files s)(diskname \<mapsto> disk s)\<rparr>"

text \<open>The exit code and the host afterwards; the image is a file of the host.\<close>

definition bmfs_main :: "cstring list \<Rightarrow> bmfs \<Rightarrow> (int \<times> bmfs) option" where
  "bmfs_main argv s =
     (if length argv < 3 then Some (0, fold say (usage (argv ! 0)) s)
      else
        let diskname = argv ! 1; command = argv ! 2 in
        if command_is command ''initialize''
        then
          (if length argv \<ge> 4
           then
             let ((ret, opened), s) = initialize diskname (argv ! 3) (nth_arg 4 argv) (nth_arg 5 argv) (nth_arg 6 argv) s
             in Some (ret, if opened then close_disk diskname s else s)
           else Some (1, say (ascii ''Usage: '' @ argv ! 0 @ [32] @ command @ ascii '' size [mbr_file] '' @
             line ''[bootloader_file] [kernel_file]'') s))
        else
          case (if writable s diskname then local_files s diskname else None) of
            None \<Rightarrow> Some (0, say (ascii ''Error: Unable to open disk '' @ quoted diskname @ [10]) s)
          | Some d \<Rightarrow>
              let s = load_disk d s in
              map_option (\<lambda>s. (0, close_disk diskname s))
                (if same_word (c_string (DiskInfo s)) fs_tag then run_command argv s
                 else if command_is command ''format'' then Some (bmfs_format s)
                 else Some (say (line ''Error: Not a valid BMFS drive (Disk is not BMFS formatted).'') s)))"


end
