(* ===== verification/Bmfs_Directory.thy ===== *)
theory Bmfs_Directory
  imports Bmfs
begin

text \<open>
  The directory of the disk image: its bytes, the blocks its files occupy, and the search for room.
\<close>

section \<open>Bytes\<close>

lemma le_bytes_length [simp]: "length (le_bytes n v) = n"
  by (induction n arbitrary: v) auto

lemma le_value_bytes: "le_value (le_bytes n v) = unat v mod 256 ^ n"
proof (induction n arbitrary: v)
  case (Suc n)
  have "unat (ucast v :: byte) = unat v mod 256" by (simp add: unsigned_ucast_eq take_bit_eq_mod)
  moreover have "unat (drop_bit 8 v) = unat v div 256" by (simp add: drop_bit_eq_div unat_div)
  moreover have "x mod 256 + 256 * (x div 256 mod 256 ^ n) = x mod (256 * 256 ^ n)" for x :: nat
    using mod_mult2_eq [of x 256 "256 ^ n"] by simp
  ultimately show ?case using Suc.IH [of "drop_bit 8 v"] by simp
qed simp

lemma number_le_bytes [simp]: "(of_nat (le_value (le_bytes 8 v)) :: u64) = v"
proof -
  have "unat v mod 256 ^ 8 = unat v" using unat_lt64 [of v] by simp
  then show ?thesis by (simp add: le_value_bytes)
qed

definition proper :: "BMFSEntry \<Rightarrow> bool" where
  "proper e \<longleftrightarrow> length (FileName e) = 32"

lemma entry_bytes_length: "proper e \<Longrightarrow> length (entry_bytes e) = 64"
  by (simp add: entry_bytes_def proper_def)

lemma entry_round_trip: "proper e \<Longrightarrow> entry_of (entry_bytes e) = e"
  by (simp add: entry_of_def entry_bytes_def proper_def number_at_def)

definition directory :: "BMFSEntry list \<Rightarrow> bool" where
  "directory es \<longleftrightarrow> length es = 64 \<and> (\<forall>e\<in>set es. proper e)"

lemma dir_bytes_chunk:
  "\<forall>e\<in>set es. proper e \<Longrightarrow> i < length es \<Longrightarrow> take 64 (drop (64 * i) (dir_bytes es)) = entry_bytes (es ! i)"
proof (induction es arbitrary: i)
  case (Cons e es)
  then show ?case by (cases i) (auto simp: dir_bytes_def entry_bytes_length)
qed simp

lemma dir_bytes_length: "\<forall>e\<in>set es. proper e \<Longrightarrow> length (dir_bytes es) = 64 * length es"
  by (induction es) (auto simp: dir_bytes_def entry_bytes_length)

lemma dir_round_trip: "directory es \<Longrightarrow> dir_of (dir_bytes es) = es"
  by (rule nth_equalityI) (auto simp: directory_def dir_of_def dir_bytes_chunk entry_round_trip)

lemma directory_update: "directory es \<Longrightarrow> proper e \<Longrightarrow> directory (es[i := e])"
  using set_update_subset_insert [of es i e] by (auto simp: directory_def)

text \<open>A file name that fits: it reads back as it is, and marks neither the end nor a deleted entry.\<close>

definition good_name :: "cstring \<Rightarrow> bool" where
  "good_name nm \<longleftrightarrow> nm \<noteq> [] \<and> length nm < 32 \<and> 0 \<notin> set nm \<and> nm ! 0 \<noteq> 1"

lemma c_string_terminated: "0 \<notin> set nm \<Longrightarrow> c_string (nm @ 0 # bs) = nm"
  unfolding c_string_def by (subst takeWhile_append2) auto

lemma new_entry_fields:
  assumes "good_name nm" "proper old"
  obtains e where "new_entry nm start blocks old = Some e" "proper e" "entry_name e = nm" "marker e = nm ! 0"
    "StartingBlock e = start" "ReservedBlocks e = blocks" "FileSize e = 0"
proof -
  let ?o = "old\<lparr>StartingBlock := start, ReservedBlocks := blocks, FileSize := 0\<rparr>"
  let ?e = "?o\<lparr>FileName := nm @ 0 # drop (Suc (length nm)) (FileName old)\<rparr>"
  have l: "length nm < 32" "length (FileName old) = 32" "nm \<noteq> []" "0 \<notin> set nm"
    using assms by (auto simp: good_name_def proper_def)
  then have p: "proper ?e" by (simp add: proper_def)
  have "write_at 0 (nm @ [0]) (entry_bytes ?o) = entry_bytes ?e"
    using l by (simp add: write_at_def entry_bytes_def)
  then have "new_entry nm start blocks old = Some ?e"
    using l entry_round_trip [OF p] by (simp add: new_entry_def Let_def)
  moreover have "entry_name ?e = nm" using l by (simp add: entry_name_def entry_bytes_def c_string_terminated)
  moreover have "marker ?e = nm ! 0" using l by (simp add: marker_def nth_append)
  ultimately show ?thesis using that p by simp
qed

section \<open>Blocks\<close>

definition first_block :: "BMFSEntry \<Rightarrow> nat" where
  "first_block e = unat (StartingBlock e)"

definition end_block :: "BMFSEntry \<Rightarrow> nat" where
  "end_block e = unat (StartingBlock e) + unat (ReservedBlocks e)"

text \<open>The blocks from \<open>a\<close> up to \<open>b\<close> are free of the files of a list.\<close>

definition room :: "BMFSEntry list \<Rightarrow> nat \<Rightarrow> nat \<Rightarrow> bool" where
  "room es a b \<longleftrightarrow> (\<forall>e\<in>set es. b \<le> first_block e \<or> end_block e \<le> a)"

text \<open>Files in a row, between two blocks.\<close>

definition in_row :: "nat \<Rightarrow> nat \<Rightarrow> BMFSEntry list \<Rightarrow> bool" where
  "in_row p n es \<longleftrightarrow> sorted_wrt (\<lambda>a b. end_block a \<le> first_block b) es \<and>
     (\<forall>e\<in>set es. p \<le> first_block e \<and> end_block e \<le> n \<and> marker e \<noteq> 1)"

lemma find_gap_correct:
  assumes "in_row (unat prev) (unat n) es" "prev \<noteq> 0" "prev \<le> n" "req \<noteq> 0"
  shows "if find_gap n req prev es = 0 then \<forall>a. unat prev \<le> a \<longrightarrow> a + unat req \<le> unat n \<longrightarrow> \<not> room es a (a + unat req)
    else unat prev \<le> unat (find_gap n req prev es) \<and>
      unat (find_gap n req prev es) + unat req \<le> unat n \<and>
      room es (unat (find_gap n req prev es)) (unat (find_gap n req prev es) + unat req) \<and>
      (\<forall>a. unat prev \<le> a \<longrightarrow> a < unat (find_gap n req prev es) \<longrightarrow> \<not> room es a (a + unat req))"
  using assms
proof (induction es arbitrary: prev)
  case Nil
  have "unat (n - prev) = unat n - unat prev" using Nil by (simp add: unat_sub)
  then show ?case using Nil by (auto simp: word_le_nat_alt room_def)
next
  case (Cons e es)
  have e: "unat prev \<le> first_block e" "end_block e \<le> unat n" "marker e \<noteq> 1"
    "\<forall>x\<in>set es. end_block e \<le> first_block x" "in_row (end_block e) (unat n) es"
    using Cons.prems(1) by (auto simp: in_row_def)
  have le: "unat n < 2 ^ 64" by (rule unat_lt64)
  have s: "unat (StartingBlock e - prev) = first_block e - unat prev"
    using e(1) by (simp add: first_block_def unat_sub word_le_nat_alt)
  have t: "unat (StartingBlock e + ReservedBlocks e) = end_block e"
    using e(2) le by (simp add: end_block_def unat_plus)
  have f: "first_block e \<le> end_block e" by (simp add: first_block_def end_block_def)
  show ?case
  proof (cases "StartingBlock e - prev \<ge> req")
    case True
    then have q: "unat req \<le> first_block e - unat prev" using s by (simp add: word_le_nat_alt)
    have "0 < unat req" using Cons.prems(4) by (simp add: unat_gt_0)
    then have "unat prev + unat req \<le> first_block e" using q by linarith
    moreover have "room (e # es) (unat prev) (unat prev + unat req)"
      using calculation e(4) f unfolding room_def by force
    ultimately show ?thesis using True e(2,3) f Cons.prems(2) by (simp add: Let_def)
  next
    case False
    then have q: "first_block e - unat prev < unat req" using s by (simp add: word_le_nat_alt)
    let ?p = "StartingBlock e + ReservedBlocks e"
    have g: "find_gap n req prev (e # es) = find_gap n req ?p es"
      using False e(3) by (simp add: Let_def)
    have "prev \<noteq> 0 \<longrightarrow> 0 < unat prev" by (simp add: unat_gt_0)
    then have p: "?p \<noteq> 0" "?p \<le> n" using t e(1,2) f Cons.prems(2) by (auto simp: word_le_nat_alt simp flip: unat_eq_zero)
    note IH = Cons.IH [of ?p, unfolded t, OF e(5) p Cons.prems(4)]
    have low: "\<not> room (e # es) a (a + unat req)" if "unat prev \<le> a" "a < end_block e" for a
      using that q f by (auto simp: room_def)
    have up: "room (e # es) a b = room es a b" if "end_block e \<le> a" for a b
      using that by (auto simp: room_def)
    have pe: "unat prev \<le> end_block e" using e(1) f by simp
    show ?thesis
    proof (cases "find_gap n req ?p es = 0")
      case True
      then show ?thesis using IH g low up by (metis leI)
    next
      case False
      then show ?thesis using IH g low up pe by (auto simp: not_le) (metis leI)
    qed
  qed
qed

section \<open>Sorting\<close>

lemma qsort_insert_set [simp]: "set (qsort_insert cmp x ys) = insert x (set ys)"
  by (induction ys) auto

lemma qsort_insert_symmetric:
  assumes "\<And>a b. R a b \<Longrightarrow> R b a"
  shows "sorted_wrt R (qsort_insert cmp x ys) \<longleftrightarrow> (\<forall>y\<in>set ys. R x y) \<and> sorted_wrt R ys"
  by (induction ys) (auto intro: assms)

lemma qsort_insert_sorted:
  assumes "\<forall>a\<in>insert x (set ys). \<forall>b\<in>insert x (set ys). cmp a b \<le> 0 \<longleftrightarrow> (key a :: nat) \<le> key b"
    and "sorted_wrt (\<lambda>a b. key a \<le> key b) ys"
  shows "sorted_wrt (\<lambda>a b. key a \<le> key b) (qsort_insert cmp x ys)"
  using assms by (induction ys) auto

lemma qsort_set [simp]: "set (qsort cmp xs) = set xs"
  by (induction xs) (simp_all add: qsort_def)

lemma qsort_symmetric:
  assumes "\<And>a b. R a b \<Longrightarrow> R b a"
  shows "sorted_wrt R (qsort cmp xs) \<longleftrightarrow> sorted_wrt R xs"
proof (induction xs)
  case (Cons x xs)
  have "set (foldr (qsort_insert cmp) xs []) = set xs" using qsort_set [of cmp xs] by (simp add: qsort_def)
  then show ?case using Cons qsort_insert_symmetric [of R, OF assms] by (simp add: qsort_def)
qed (simp add: qsort_def)

lemma qsort_sorted:
  assumes "\<forall>a\<in>set xs. \<forall>b\<in>set xs. cmp a b \<le> 0 \<longleftrightarrow> (key a :: nat) \<le> key b"
  shows "sorted_wrt (\<lambda>a b. key a \<le> key b) (qsort cmp xs)"
  using assms
proof (induction xs)
  case (Cons x xs)
  have "set (foldr (qsort_insert cmp) xs []) = set xs" using qsort_set [of cmp xs] by (simp add: qsort_def)
  then show ?case using Cons by (simp add: qsort_def qsort_insert_sorted)
qed (simp add: qsort_def)

lemma ucast_of_int: "ucast (word_of_int d :: u64) = (word_of_int d :: i32)"
  by transfer simp

lemma sint_small: "- 2147483648 \<le> d \<Longrightarrow> d < 2147483648 \<Longrightarrow> sint (word_of_int d :: i32) = d"
  by (simp add: signed_of_int signed_take_bit_int_eq_self)

text \<open>Block numbers below 2^31 compare as they should.\<close>

lemma StartingBlockCmp_le:
  assumes "marker a \<noteq> 1" "marker b \<noteq> 1" "first_block a < 2 ^ 31" "first_block b < 2 ^ 31"
  shows "StartingBlockCmp a b \<le> 0 \<longleftrightarrow> first_block a \<le> first_block b"
proof -
  let ?d = "int (first_block a) - int (first_block b)"
  have "StartingBlock a - StartingBlock b = word_of_int ?d"
    by (simp add: first_block_def)
  then have "ucast (StartingBlock a - StartingBlock b) = (word_of_int ?d :: i32)"
    by (simp only: ucast_of_int)
  moreover have "sint (word_of_int ?d :: i32) = ?d"
    by (rule sint_small) (use assms(3,4) in simp_all)
  ultimately have "sint (ucast (StartingBlock a - StartingBlock b) :: i32) = ?d" by (simp only:)
  then show ?thesis using assms(1,2) by (simp add: StartingBlockCmp_def)
qed

section \<open>Directories without deleted files\<close>

definition used_entries :: "BMFSEntry list \<Rightarrow> BMFSEntry list" where
  "used_entries es = takeWhile (\<lambda>e. marker e \<noteq> 0) es"

definition apart_files :: "BMFSEntry \<Rightarrow> BMFSEntry \<Rightarrow> bool" where
  "apart_files a b \<longleftrightarrow> end_block a \<le> first_block b \<or> end_block b \<le> first_block a"

text \<open>Every file has blocks of its own from 1 up to \<open>n\<close>, and none was deleted.\<close>

definition no_overlap :: "nat \<Rightarrow> BMFSEntry list \<Rightarrow> bool" where
  "no_overlap n es \<longleftrightarrow> directory es \<and> sorted_wrt apart_files (used_entries es) \<and>
     (\<forall>e\<in>set (used_entries es). marker e \<noteq> 1 \<and> 1 \<le> first_block e \<and> first_block e < end_block e \<and> end_block e \<le> n)"

lemma sorted_in_row:
  assumes "no_overlap n es" "n < 2 ^ 31"
  shows "in_row 1 n (qsort StartingBlockCmp (used_entries es))"
proof -
  let ?q = "qsort StartingBlockCmp (used_entries es)"
  have u: "\<forall>e\<in>set (used_entries es). marker e \<noteq> 1 \<and> 1 \<le> first_block e \<and> first_block e < end_block e \<and> end_block e \<le> n"
    using assms(1) by (simp add: no_overlap_def)
  have "sorted_wrt apart_files ?q"
    using assms(1) by (subst qsort_symmetric) (auto simp: no_overlap_def apart_files_def)
  moreover have "sorted_wrt (\<lambda>a b. first_block a \<le> first_block b) ?q"
    using u assms(2) by (intro qsort_sorted ballI StartingBlockCmp_le) (simp_all, (meson le_less_trans less_imp_le order.strict_trans1)+)
  ultimately have "sorted_wrt (\<lambda>a b. apart_files a b \<and> first_block a \<le> first_block b) ?q"
    by (simp add: sorted_wrt_iff_nth_less)
  then have "sorted_wrt (\<lambda>a b. end_block a \<le> first_block b) ?q"
    by (rule sorted_wrt_mono_rel [rotated]) (use u in \<open>fastforce simp: apart_files_def\<close>)
  then show ?thesis using u by (simp add: in_row_def)
qed

lemma count_no_deleted:
  assumes "\<forall>e\<in>set (used_entries es). marker e \<noteq> 1"
  shows "count_entries i None es = (if length (used_entries es) = length es then (0, None)
    else (i + length (used_entries es), Some (i + length (used_entries es))))"
  using assms by (induction es arbitrary: i) (auto simp: used_entries_def)

lemma used_take: "take (length (used_entries es)) es = used_entries es"
  unfolding used_entries_def by (rule takeWhile_eq_take [symmetric])

lemma used_add_entry:
  assumes "length (used_entries es) < length es" "length es = 64" "marker e \<noteq> 0" "\<forall>e\<in>set es. proper e"
  shows "used_entries (add_entry (length (used_entries es)) (length (used_entries es)) e es) = used_entries es @ [e]"
proof -
  let ?u = "length (used_entries es)"
  let ?n = "add_entry ?u ?u e es"
  have l: "length ?n = 64" "?u < 64" using assms(1,2) by (simp_all add: add_entry_def Let_def)
  have t: "take ?u ?n = used_entries es" using used_take [of es] by (simp add: add_entry_def Let_def)
  have a: "?n ! ?u = e" using assms(1,2) by (simp add: add_entry_def Let_def)
  have b: "marker (?n ! Suc ?u) = 0" if "Suc ?u < 64"
  proof -
    have "proper (es ! Suc ?u)" using that assms(2,4) by simp
    then show ?thesis using that assms(2) by (simp add: add_entry_def Let_def set_marker_def marker_def proper_def)
  qed
  have "?n = used_entries es @ e # drop (Suc ?u) ?n"
    using id_take_nth_drop [of ?u ?n] l t a by simp
  moreover have "takeWhile (\<lambda>e. marker e \<noteq> 0) (drop (Suc ?u) ?n) = []"
    using b l by (cases "Suc ?u < 64") (simp_all add: Cons_nth_drop_Suc [symmetric])
  ultimately show ?thesis
    using assms(3) takeWhile_append2 [of "used_entries es" "\<lambda>e. marker e \<noteq> 0" "e # drop (Suc ?u) ?n"]
    unfolding used_entries_def by (metis (mono_tags, lifting) set_takeWhileD takeWhile.simps(2))
qed

lemma directory_add_entry:
  assumes "directory es" "proper e" shows "directory (add_entry i j e es)"
proof -
  have m: "proper (set_marker c x)" if "proper x" for c x using that by (simp add: set_marker_def proper_def)
  have d: "directory (es[i := e])" using assms by (rule directory_update)
  show ?thesis
  proof (cases "i = j \<and> j + 1 < 64")
    case True
    have "proper ((es[i := e]) ! (j + 1))"
      using d True nth_mem [of "j + 1" "es[i := e]"] unfolding directory_def by (metis (no_types))
    then show ?thesis using directory_update [OF d m] True by (simp add: add_entry_def Let_def)
  qed (auto simp: add_entry_def Let_def d)
qed

end
