(* ===== verification/Bmfs_Image.thy ===== *)
theory Bmfs_Image
  imports Bmfs_Directory
begin

text \<open>
  The image as bytes: what writing leaves alone, an image that holds a directory, and finding a file.
\<close>

section \<open>The bytes of the image\<close>

lemma write_at_inside:
  "off + length b \<le> length d \<Longrightarrow> write_at off b d = take off d @ b @ drop (off + length b) d"
  by (auto simp: write_at_def)

lemma write_at_length [simp]: "off + length b \<le> length d \<Longrightarrow> length (write_at off b d) = length d"
  by (simp add: write_at_inside)

lemma fetch_inside: "off + n \<le> length d \<Longrightarrow> fetch off n d = take n (drop off d)"
  by (simp add: fetch_def)

lemma slice_nth: "off + n \<le> length d \<Longrightarrow> xs = take n (drop off d) \<longleftrightarrow> length xs = n \<and> (\<forall>i<n. xs ! i = d ! (off + i))"
  by (auto simp: list_eq_iff_nth_eq)

lemma write_at_nth:
  assumes "off + length b \<le> length d" "i < length d"
  shows "write_at off b d ! i = (if off \<le> i \<and> i < off + length b then b ! (i - off) else d ! i)"
  using assms by (auto simp: write_at_inside nth_append min_def)

lemma read_written: "off + length b \<le> length d \<Longrightarrow> take (length b) (drop off (write_at off b d)) = b"
  by (simp add: write_at_inside min_def)

lemma read_other:
  assumes "off + length b \<le> length d" "a + n \<le> length d" "a + n \<le> off \<or> off + length b \<le> a"
  shows "take n (drop a (write_at off b d)) = take n (drop a d)"
proof (rule nth_equalityI)
  show "length (take n (drop a (write_at off b d))) = length (take n (drop a d))" using assms by simp
  fix i assume "i < length (take n (drop a (write_at off b d)))"
  then have i: "i < n" by simp
  then show "take n (drop a (write_at off b d)) ! i = take n (drop a d) ! i"
    using assms by (auto simp: write_at_nth)
qed

text \<open>An image with a directory.\<close>

definition bmfs_image :: "BMFSEntry list \<Rightarrow> buffer \<Rightarrow> bool" where
  "bmfs_image es d \<longleftrightarrow> directory es \<and> 8192 \<le> length d \<and> same_word (c_string (take 512 (drop 1024 d))) fs_tag \<and>
     take 4096 (drop 4096 d) = dir_bytes es"

lemma load_image:
  assumes "bmfs_image es d"
  shows "Directory (load_disk d s) = es" "same_word (c_string (DiskInfo (load_disk d s))) fs_tag"
    "disk (load_disk d s) = d"
proof -
  have l: "1024 + 512 \<le> length d" "4096 + 4096 \<le> length d" and d: "directory es"
    using assms by (simp_all add: bmfs_image_def)
  show "Directory (load_disk d s) = es" "same_word (c_string (DiskInfo (load_disk d s))) fs_tag"
    "disk (load_disk d s) = d"
    using assms fetch_inside [OF l(1)] fetch_inside [OF l(2)] dir_round_trip [OF d]
    by (simp_all add: load_disk_def bmfs_image_def)
qed

lemma dir_bytes_4096: "directory es \<Longrightarrow> length (dir_bytes es) = 4096"
  by (simp add: directory_def dir_bytes_length)

lemma image_flush:
  assumes "bmfs_image es d" "directory es'"
  shows "bmfs_image es' (write_at 4096 (dir_bytes es') d)"
proof -
  have l: "4096 + length (dir_bytes es') \<le> length d" "1024 + 512 \<le> length d" "length d \<ge> 8192"
    using assms by (simp_all add: bmfs_image_def dir_bytes_4096)
  have "take 512 (drop 1024 (write_at 4096 (dir_bytes es') d)) = take 512 (drop 1024 d)"
    by (rule read_other [OF l(1,2)]) simp
  moreover have "take 4096 (drop 4096 (write_at 4096 (dir_bytes es') d)) = dir_bytes es'"
    using read_written [OF l(1)] dir_bytes_4096 [OF assms(2)] by simp
  ultimately show ?thesis using assms l by (simp add: bmfs_image_def)
qed

lemma image_file:
  assumes "bmfs_image es d" "8192 \<le> off" "off + length c \<le> length d"
  shows "bmfs_image es (write_at off c d)"
  using assms read_other [OF assms(3), of 1024 512] read_other [OF assms(3), of 4096 4096]
  by (simp add: bmfs_image_def)

section \<open>Finding a file\<close>

lemma find_from_Some:
  assumes "find_from (Some nm) i es = Some (Some (slot, e))"
  shows "i \<le> slot \<and> slot - i < length es \<and> es ! (slot - i) = e \<and> entry_name e = nm \<and>
    (\<forall>e'. entry_name e' = nm \<longrightarrow> marker e' = marker e \<longrightarrow>
      find_from (Some nm) i (es[slot - i := e']) = Some (Some (slot, e')))"
  using assms
proof (induction es arbitrary: i)
  case (Cons x es)
  show ?case
  proof (cases "marker x \<noteq> 1 \<and> nm = entry_name x")
    case True
    then show ?thesis using Cons.prems by (auto split: if_splits)
  next
    case False
    then have x: "marker x \<noteq> 0" "find_from (Some nm) (Suc i) es = Some (Some (slot, e))"
      using Cons.prems by (auto split: if_splits)
    have s: "Suc i \<le> slot" "slot - i = Suc (slot - Suc i)" using Cons.IH [OF x(2)] by auto
    show ?thesis using Cons.IH [OF x(2)] s(1) x(1) False unfolding s(2) by auto
  qed
qed simp

lemma short_name_FileSize:
  assumes "proper e" "length (entry_name e) < 32"
  shows "entry_name (e\<lparr>FileSize := v\<rparr>) = entry_name e"
proof -
  let ?P = "\<lambda>c :: byte. c \<noteq> 0"
  have "0 \<in> set (FileName e)"
  proof (rule ccontr)
    assume "0 \<notin> set (FileName e)"
    then have "takeWhile ?P (entry_bytes e) = FileName e @ takeWhile ?P (drop 32 (entry_bytes e))"
      using assms(1) unfolding entry_bytes_def by (subst takeWhile_append2) (auto simp: proper_def)
    then show False using assms by (simp add: entry_name_def c_string_def proper_def)
  qed
  then show ?thesis by (auto simp: entry_name_def c_string_def entry_bytes_def takeWhile_append1)
qed

end
