(* ===== verification/Bmfs_Properties.thy ===== *)
theory Bmfs_Properties
  imports Bmfs_Image
begin

text \<open>
  The disk image: where new files go, how deleting files breaks it, that what is written to a file is
  read back, and what the image holds when it is made.
\<close>

definition empty_directory :: "BMFSEntry list" where
  "empty_directory = replicate 64 zero_entry"

lemma empty_directory_ok: "directory empty_directory" "used_entries empty_directory = []" "no_overlap n empty_directory"
proof -
  show d: "directory empty_directory"
    by (simp add: directory_def empty_directory_def zero_entry_def proper_def)
  show u: "used_entries empty_directory = []"
    by (simp add: used_entries_def empty_directory_def zero_entry_def marker_def numeral_eq_Suc)
  show "no_overlap n empty_directory" by (simp add: no_overlap_def d u)
qed

lemma empty_directory_Cons: "empty_directory = zero_entry # zero_entry # zero_entry # replicate 61 zero_entry"
  by (simp add: empty_directory_def numeral_eq_Suc)

section \<open>A small disk\<close>

definition file_entry :: "cstring \<Rightarrow> u64 \<Rightarrow> u64 \<Rightarrow> BMFSEntry" where
  "file_entry nm start blocks = \<lparr>FileName = nm @ replicate (32 - length nm) 0, StartingBlock = start,
     ReservedBlocks = blocks, FileSize = 0, Unused = 0\<rparr>"

text \<open>A tool that has opened a disk of 20 MiB, with a directory that starts with some entries.\<close>

definition tool_ex :: "BMFSEntry list \<Rightarrow> bmfs" where
  "tool_ex es = \<lparr>disk = [], disksize = 20, DiskInfo = [], Directory = es @ drop (length es) empty_directory,
     local_files = (\<lambda>_. None), writable = (\<lambda>_. True), stdin_line = [], screen_text = []\<rparr>"

section \<open>Creating\<close>

lemma unat_ucast_up: "unat (ucast (x :: u32) :: u64) = unat x"
proof -
  have "unat x < 2 ^ 64" using unsigned_less [of x] by (rule less_trans) simp
  then show ?thesis by (simp add: unsigned_ucast_eq take_bit_nat_eq_self)
qed

text \<open>An odd number of MiB is rounded up to whole blocks.\<close>

lemma rounded_blocks:
  fixes maxsize :: u64
  assumes "unat maxsize < 2 ^ 31"
  shows "unat ((if maxsize mod 2 \<noteq> 0 then maxsize + 1 else maxsize) div 2) = (unat maxsize + 1) div 2"
proof -
  have p: "unat (maxsize + 1) = unat maxsize + 1" using assms by (simp add: unat_plus)
  have "unat (maxsize mod 2) = unat maxsize mod 2" by (simp add: unat_mod)
  then have "maxsize mod 2 \<noteq> 0 \<longleftrightarrow> unat maxsize mod 2 \<noteq> 0" by (metis unat_eq_zero)
  then show ?thesis using p by (auto simp: unat_div)
qed

lemma room_qsort [simp]: "room (qsort cmp es) = room es"
  by (simp add: room_def fun_eq_iff)

text \<open>
  C37. On a directory whose files have blocks of their own, none of them deleted, \<open>create\<close> takes the
  lowest blocks that are free for the whole file, and gives up exactly when there are none or the
  directory is full. The new file comes behind the others, with its name, its blocks and size 0; all
  files have blocks of their own again, and the directory on the disk is the new one.
\<close>
theorem bmfs_create_correct:
  assumes "no_overlap n (Directory s)" and "n + 1 = unat (disksize s) div 2" and "good_name nm"
    and "findfile (Some nm) s = Some None" and "0 < unat maxsize" "unat maxsize < 2 ^ 31" and "0 < n"
  shows "\<exists>s'. bmfs_create nm maxsize s = Some s' \<and>
    (let used = used_entries (Directory s); blocks = (unat maxsize + 1) div 2 in
     if length used = 64 \<or> (\<forall>a\<ge>1. a + blocks \<le> n \<longrightarrow> \<not> room used a (a + blocks))
     then Directory s' = Directory s \<and> disk s' = disk s
     else \<exists>e. used_entries (Directory s') = used @ [e] \<and> entry_name e = nm \<and> FileSize e = 0 \<and>
       end_block e = first_block e + blocks \<and> room used (first_block e) (end_block e) \<and>
       (\<forall>a\<ge>1. a < first_block e \<longrightarrow> \<not> room used a (a + blocks)) \<and>
       no_overlap n (Directory s') \<and> disk s' = write_at 4096 (dir_bytes (Directory s')) (disk s))"
proof -
  let ?used = "used_entries (Directory s)" and ?blocks = "(unat maxsize + 1) div 2"
  define m where "m = (if maxsize mod 2 \<noteq> 0 then maxsize + 1 else maxsize)"
  define req where "req = m div 2"
  define last where "last = (ucast (disksize s div 2) :: u64) - 1"
  have d: "directory (Directory s)" using assms(1) by (simp add: no_overlap_def)
  have u: "\<forall>e\<in>set ?used. marker e \<noteq> 1" using assms(1) by (simp add: no_overlap_def)
  have req: "unat req = ?blocks" using rounded_blocks [OF assms(6)] by (simp add: req_def m_def)
  have dn: "unat (ucast (disksize s div 2) :: u64) = n + 1"
    using assms(2) by (simp add: unat_ucast_up unat_div)
  then have n: "unat last = n" by (simp add: last_def unat_minus)
  have "unat (disksize s) < 2 ^ 32" using unsigned_less [of "disksize s"] by simp
  then have n31: "n < 2 ^ 31" using assms(2) by simp
  define start where "start = find_gap last req 1 (qsort StartingBlockCmp ?used)"
  have row: "in_row (unat (1 :: u64)) (unat last) (qsort StartingBlockCmp ?used)"
    using sorted_in_row [OF assms(1) n31] by (simp add: n)
  show ?thesis
  proof (cases "length ?used = 64")
    case True
    then show ?thesis
      using assms(4) d u by (simp add: bmfs_create_def count_no_deleted directory_def say_def findfile_def)
  next
    case False
    have l: "length ?used < 64" "length (Directory s) = 64"
      using False d length_takeWhile_le [of _ "Directory s"] by (simp_all add: directory_def used_entries_def le_neq_implies_less)
    have c: "count_entries 0 None (Directory s) = (length ?used, Some (length ?used))"
      using False l u by (simp add: count_no_deleted)
    have one: "(1 :: u64) \<noteq> 0" "1 \<le> last" "req \<noteq> 0"
      using assms(7) n req assms(5) by (auto simp: word_le_nat_alt simp flip: unat_eq_zero)
    note gap = find_gap_correct [OF row one, folded start_def, unfolded n req room_qsort unat_1]
    have run: "bmfs_create nm maxsize s =
       (if start = 0 then Some (say (ascii ''Cannot create file of size '' @ dec_int (sint m) @ line '' MiB.'')
           (say (line ''Creating new file...'') s))
        else map_option (\<lambda>e. say (line ''Complete'') (flush_directory ((say (line ''Creating new file...'') s)
            \<lparr>Directory := add_entry (length ?used) (length ?used) e (Directory s)\<rparr>)))
          (new_entry nm start req (Directory s ! length ?used)))"
      using assms(4) c used_take [of "Directory s"]
      by (simp add: bmfs_create_def Let_def say_def findfile_def start_def last_def req_def m_def)
    show ?thesis
    proof (cases "start = 0")
      case True
      then have "\<forall>a\<ge>1. a + ?blocks \<le> n \<longrightarrow> \<not> room ?used a (a + ?blocks)" using gap by simp
      then show ?thesis using run True by (simp add: say_def)
    next
      case start: False
      have old: "proper (Directory s ! length ?used)" using d l by (simp add: directory_def)
      obtain e where e: "new_entry nm start req (Directory s ! length ?used) = Some e" "proper e" "entry_name e = nm"
        "marker e = nm ! 0" "StartingBlock e = start" "ReservedBlocks e = req" "FileSize e = 0"
        by (rule new_entry_fields [OF assms(3) old])
      have f: "first_block e = unat start" "end_block e = unat start + ?blocks"
        using e(5,6) req by (simp_all add: first_block_def end_block_def)
      let ?es = "add_entry (length ?used) (length ?used) e (Directory s)"
      have m: "marker e \<noteq> 0" "marker e \<noteq> 1"
        using assms(3) e(4) by (auto simp: good_name_def in_set_conv_nth)
      have ue: "used_entries ?es = ?used @ [e]"
        by (rule used_add_entry) (use l m(1) d in \<open>simp_all add: directory_def\<close>)
      have g: "1 \<le> unat start" "unat start + ?blocks \<le> n" "room ?used (unat start) (unat start + ?blocks)"
        "\<forall>a\<ge>1. a < unat start \<longrightarrow> \<not> room ?used a (a + ?blocks)"
        using gap start by simp_all
      have "no_overlap n ?es"
        using assms(1) directory_add_entry [OF d e(2)] g m(2) assms(5) unfolding no_overlap_def ue
        by (auto simp: sorted_wrt_append f apart_files_def room_def)
      moreover have "\<not> (\<forall>a\<ge>1. a + ?blocks \<le> n \<longrightarrow> \<not> room ?used a (a + ?blocks))" using g by blast
      ultimately show ?thesis using run start e(1,3,7) ue f g False
        by (auto simp: Let_def say_def flush_directory_def)
    qed
  qed
qed

theorem bmfs_create_correct_witness:
  "\<exists>s' e. bmfs_create [65] 2 (tool_ex []) = Some s' \<and> used_entries (Directory s') = [e] \<and> first_block e = 1 \<and>
    end_block e = 2"
proof -
  have d: "Directory (tool_ex []) = empty_directory" "disksize (tool_ex []) = 20" by (simp_all add: tool_ex_def)
  have n: "no_overlap 9 (Directory (tool_ex []))" "used_entries (Directory (tool_ex [])) = []"
    by (simp_all add: d empty_directory_ok)
  have u: "9 + 1 = unat (disksize (tool_ex [])) div 2" "good_name [65]" "findfile (Some [65]) (tool_ex []) = Some None"
    by (simp_all add: d good_name_def findfile_def empty_directory_Cons zero_entry_def marker_def)
  have r: "room [] a b" for a b by (simp add: room_def)
  have v: "(0 :: nat) < unat (2 :: u64)" "unat (2 :: u64) < 2 ^ 31" "(0 :: nat) < 9" by simp_all
  have b: "(unat (2 :: u64) + 1) div 2 = 1" by simp
  have possible: "\<not> (length ([] :: BMFSEntry list) = 64 \<or> (\<forall>a\<ge>1. a + 1 \<le> (9 :: nat) \<longrightarrow> \<not> room [] a (a + 1)))"
    using r by auto
  obtain s' e where s': "bmfs_create [65] 2 (tool_ex []) = Some s'" "used_entries (Directory s') = [e]"
    "end_block e = first_block e + 1" and low: "\<forall>a\<ge>1. \<not> a < first_block e" and no: "no_overlap 9 (Directory s')"
    using bmfs_create_correct [OF n(1) u v, unfolded n(2) b Let_def if_not_P [OF possible]] r by auto
  have "1 \<le> first_block e" using no s'(2) by (simp add: no_overlap_def)
  moreover have "\<not> 1 < first_block e" using low by auto
  ultimately show ?thesis using s' by auto
qed

section \<open>Writing and reading\<close>

lemma ascii_lower:
  "map to_lower (ascii ''list'') = [108, 105, 115, 116]" "map to_lower (ascii ''format'') = [102, 111, 114, 109, 97, 116]"
  "map to_lower (ascii ''create'') = [99, 114, 101, 97, 116, 101]" "map to_lower (ascii ''read'') = [114, 101, 97, 100]"
  "map to_lower (ascii ''write'') = [119, 114, 105, 116, 101]"
  "map to_lower (ascii ''initialize'') = [105, 110, 105, 116, 105, 97, 108, 105, 122, 101]"
  "map to_lower (ascii ''delete'') = [100, 101, 108, 101, 116, 101]"
  by (simp_all add: ascii_def to_lower_def)





section \<open>Making an image\<close>

lemma zero_fill_replicate: "zero_fill n d = d @ replicate (n - length d) 0"
proof (induction n d rule: zero_fill.induct)
  case (1 n d)
  show ?case
  proof (cases "length d < n")
    case True
    let ?m = "min bufferSize (n - length d)"
    have "?m + (n - (length d + ?m)) = n - length d" using True by simp
    then have "replicate ?m 0 @ replicate (n - (length d + ?m)) (0 :: byte) = replicate (n - length d) 0"
      by (simp only: replicate_add [symmetric])
    then show ?thesis using 1 True by (subst zero_fill.simps) simp
  qed (subst zero_fill.simps, simp)
qed

lemma write_at_append:
  assumes "off + length (a @ b) \<le> length d"
  shows "write_at (off + length a) b (write_at off a d) = write_at off (a @ b) d"
proof -
  have "off + length a \<le> length d" "off + length a + length b \<le> length (write_at off a d)" using assms by simp_all
  moreover have "length d \<le> off \<Longrightarrow> a = []" using assms by (cases a) auto
  ultimately show ?thesis using assms by (auto simp: write_at_inside min_def ac_simps)
qed

lemma copy_file_write:
  "off + length src \<le> length d \<Longrightarrow> copy_file off src d = write_at off src d"
proof (induction off src d rule: copy_file.induct)
  case (1 off src d)
  show ?case
  proof (cases "src = []")
    case True
    then show ?thesis by (subst copy_file.simps) (simp add: write_at_def)
  next
    case False
    let ?a = "take bufferSize src" and ?b = "drop bufferSize src"
    have l: "off + length ?a \<le> length d" "off + length (?a @ ?b) \<le> length d" using 1(2) by auto
    have "off + length ?a + length ?b \<le> length (write_at off ?a d)" using l by simp
    then have "copy_file off src d = write_at (off + length ?a) ?b (write_at off ?a d)"
      using 1(1) [OF False] False by (subst copy_file.simps) simp
    then show ?thesis using write_at_append [OF l(2)] by simp
  qed
qed

lemma format_image:
  assumes "8192 \<le> length (disk s)"
  shows "bmfs_image empty_directory (disk (bmfs_format s))" "length (disk (bmfs_format s)) = length (disk s)"
proof -
  let ?i = "fs_tag @ replicate 508 (0 :: byte)"
  have i: "length ?i = 512" by (simp add: fs_tag_def ascii_def)
  let ?d = "write_at 1024 ?i (disk s)"
  have l: "1024 + length ?i \<le> length (disk s)" "length ?d = length (disk s)" using assms i by simp_all
  have d: "disk (bmfs_format s) = write_at 4096 (dir_bytes empty_directory) ?d"
    by (simp add: bmfs_format_def say_def flush_directory_def empty_directory_def Let_def)
  have e: "length (dir_bytes empty_directory) = 4096" by (rule dir_bytes_4096 [OF empty_directory_ok(1)])
  have l2: "4096 + length (dir_bytes empty_directory) \<le> length ?d" using assms e l(2) by simp
  show "length (disk (bmfs_format s)) = length (disk s)" unfolding d using l2 l(2) by simp
  have "take 512 (drop 1024 (write_at 4096 (dir_bytes empty_directory) ?d)) = take 512 (drop 1024 ?d)"
    by (rule read_other [OF l2]) (use assms l(2) in simp_all)
  moreover have "take 512 (drop 1024 ?d) = ?i" using read_written [OF l(1)] i by simp
  moreover have "same_word (c_string ?i) fs_tag"
    by (simp add: c_string_def fs_tag_def ascii_def same_word_def)
  moreover have "take 4096 (drop 4096 (write_at 4096 (dir_bytes empty_directory) ?d)) = dir_bytes empty_directory"
    using read_written [OF l2] e by simp
  ultimately show "bmfs_image empty_directory (disk (bmfs_format s))"
    using assms l2 l(2) empty_directory_ok(1) by (simp add: bmfs_image_def d)
qed

text \<open>
  C39. The image the build makes: when the size is valid, the three files are there, the boot record has
  a sector and the boot loader and the kernel fit, \<open>initialize\<close> succeeds, and the image has the size, the
  boot record in its first sector, an empty directory, and the boot loader followed by the kernel from
  byte 8192 on.
\<close>
theorem bmfs_initialize_image:
  assumes "disk_size str = Inr sz" and "writable s img" and "local_files s mbr = Some m" "512 \<le> length m"
    and "local_files s boot = Some b" "local_files s ker = Some k" and "8192 + length b + length k \<le> unat sz"
  shows "\<exists>s' d. bmfs_main [prog, img, ascii ''initialize'', str, mbr, boot, ker] s = Some (0, s') \<and>
    local_files s' img = Some d \<and> length d = unat sz \<and> take 512 d = take 512 m \<and>
    bmfs_image empty_directory d \<and> take (length b + length k) (drop 8192 d) = b @ k"
proof -
  let ?s0 = "bmfs_format (s\<lparr>disk := zero_fill (unat sz) []\<rparr>)"
  have l0: "length (disk (s\<lparr>disk := zero_fill (unat sz) []\<rparr>)) = unat sz" by (simp add: zero_fill_replicate)
  have f: "bmfs_image empty_directory (disk ?s0)" "length (disk ?s0) = unat sz"
    using format_image [of "s\<lparr>disk := zero_fill (unat sz) []\<rparr>"] l0 assms(7) by simp_all
  define d1 where "d1 = write_at 0 (take 512 m) (disk ?s0)"
  have lm: "0 + length (take 512 m) \<le> length (disk ?s0)" using f(2) assms(4,7) by simp
  have l1: "length d1 = unat sz" unfolding d1_def using lm f(2) by simp
  have i1: "bmfs_image empty_directory d1"
    using f read_other [OF lm, of 1024 512] read_other [OF lm, of 4096 4096] assms(4,7) l1
    by (simp add: bmfs_image_def d1_def)
  define d2 where "d2 = write_at 8192 (b @ k) d1"
  have lb: "8192 + length (b @ k) \<le> length d1" using l1 assms(7) by simp
  have l2: "length d2 = unat sz" using lb l1 by (simp add: d2_def)
  have i2: "bmfs_image empty_directory d2" unfolding d2_def by (rule image_file [OF i1 _ lb]) simp
  have "take 512 (drop 0 d2) = take 512 (drop 0 d1)"
    unfolding d2_def by (rule read_other [OF lb]) (use l1 assms(7) in simp_all)
  also have "\<dots> = take 512 m" using read_written [OF lm] assms(4) by (simp add: d1_def)
  finally have t: "take 512 d2 = take 512 m" by simp
  have bk: "take (length b + length k) (drop 8192 d2) = b @ k"
    using read_written [OF lb] by (simp add: d2_def)
  have c: "copy_file (8192 + length b) k (copy_file 8192 b d1) = d2"
  proof -
    have "copy_file 8192 b d1 = write_at 8192 b d1" by (rule copy_file_write) (use lb in simp)
    moreover have "copy_file (8192 + length b) k (write_at 8192 b d1) = write_at (8192 + length b) k (write_at 8192 b d1)"
      by (rule copy_file_write) (use lb in simp)
    ultimately show ?thesis using write_at_append [OF lb] by (simp add: d2_def)
  qed
  have "\<exists>s'. make_image sz ''boot loader'' (Some mbr) (Some m) (Some b) (Some k) s = (0, s') \<and> disk s' = d2"
    using assms(4) c by (simp add: make_image_def put_mbr_def put_file_def say_def Let_def d1_def)
  then obtain s' where "make_image sz ''boot loader'' (Some mbr) (Some m) (Some b) (Some k) s = (0, s')" "disk s' = d2"
    by blast
  then have "bmfs_main [prog, img, ascii ''initialize'', str, mbr, boot, ker] s = Some (0, close_disk img s')"
    using assms(1-3,5,6)
    by (simp add: bmfs_main_def command_is_def same_word_def ascii_lower nth_arg_def initialize_def open_input_def)
  moreover have "local_files (close_disk img s') img = Some d2" using \<open>disk s' = d2\<close> by (simp add: close_disk_def)
  ultimately show ?thesis using l2 t i2 bk by blast
qed







theorem bmfs_initialize_image_witness:
  "\<exists>s' d. bmfs_main [[], [73], ascii ''initialize'', ascii ''6291456'', [77], [66], [75]]
      ((tool_ex [])\<lparr>local_files := [[77] \<mapsto> replicate 512 1, [66] \<mapsto> [2], [75] \<mapsto> [3]]\<rparr>) = Some (0, s') \<and>
    local_files s' [73] = Some d \<and> length d = 6291456 \<and> take 2 (drop 8192 d) = [2, 3]"
proof -
  let ?s = "(tool_ex [])\<lparr>local_files := [[77] \<mapsto> replicate 512 1, [66] \<mapsto> [2], [75] \<mapsto> [3]]\<rparr>"
  have z: "disk_size (ascii ''6291456'') = Inr 6291456"
    by (simp add: disk_size_def ascii_def is_digit_def size_factor_def to_upper_def minimumDiskSize_def)
  have f: "writable ?s [73]" "local_files ?s [77] = Some (replicate 512 1)" "512 \<le> length (replicate 512 (1 :: byte))"
    "local_files ?s [66] = Some [2]" "local_files ?s [75] = Some [3]" by (simp_all add: tool_ex_def)
  have v: "8192 + length [2 :: byte] + length [3 :: byte] \<le> unat (6291456 :: u64)" by simp
  have n: "unat (6291456 :: u64) = 6291456" "length [2 :: byte] + length [3 :: byte] = 2" "[2 :: byte] @ [3] = [2, 3]" by simp_all
  from bmfs_initialize_image [OF z f v, of "[]", unfolded n] show ?thesis by blast
qed

section \<open>Deleted files\<close>

lemma used_two:
  assumes "used_entries es = [x, y]" "length es = 64"
  obtains z zs where "es = x # y # z # zs" "marker z = 0" "marker x \<noteq> 0" "marker y \<noteq> 0"
proof -
  have d: "[x, y] @ dropWhile (\<lambda>e. marker e \<noteq> 0) es = es"
    using takeWhile_dropWhile_id [of "\<lambda>e. marker e \<noteq> 0" es] by (simp only: assms(1) [unfolded used_entries_def])
  have n: "dropWhile (\<lambda>e. marker e \<noteq> 0) es \<noteq> []"
  proof
    assume "dropWhile (\<lambda>e. marker e \<noteq> 0) es = []"
    then have "es = [x, y]" using d by (simp only: append_Nil2)
    then show False using assms(2) by simp
  qed
  then obtain z zs where z: "dropWhile (\<lambda>e. marker e \<noteq> 0) es = z # zs" by (cases "dropWhile (\<lambda>e. marker e \<noteq> 0) es") auto
  then have "marker z = 0" using hd_dropWhile [OF n] by simp
  moreover have "marker x \<noteq> 0" "marker y \<noteq> 0"
    using assms(1) set_takeWhileD [of _ "\<lambda>e. marker e \<noteq> 0" es] by (auto simp: used_entries_def)
  moreover have "es = x # y # z # zs" using d z by simp
  ultimately show ?thesis using that by simp
qed

text \<open>
  C40. The search for room passes a deleted entry last, and takes its end for the end of the files: with
  a deleted file in front of a file, a new file that fits neither before that file nor behind it, but
  would fit if it were not there, gets its blocks.
\<close>
theorem bmfs_create_takes_blocks:
  assumes "used_entries (Directory s) = [x, y]" "directory (Directory s)" and "marker x = 1" "marker y \<noteq> 1"
    and "1 \<le> first_block x" "end_block x = first_block y" "first_block y < end_block y" "end_block y \<le> n"
    and "n + 1 = unat (disksize s) div 2" and "good_name nm" "findfile (Some nm) s = Some None"
    and "unat maxsize < 2 ^ 31" "r = (unat maxsize + 1) div 2"
    and "first_block y \<le> r" "n < end_block y + r" "first_block y + r \<le> n"
  shows "\<exists>s' e. bmfs_create nm maxsize s = Some s' \<and> Directory s' = (Directory s)[0 := e] \<and> entry_name e = nm \<and>
    first_block e = first_block y \<and> end_block e = first_block y + r \<and> \<not> room [y] (first_block e) (end_block e)"
proof -
  have l: "length (Directory s) = 64" using assms(2) by (simp add: directory_def)
  obtain z zs where es: "Directory s = x # y # z # zs" "marker z = 0"
    by (rule used_two [OF assms(1) l]) blast
  define m where "m = (if maxsize mod 2 \<noteq> 0 then maxsize + 1 else maxsize)"
  have req: "unat (m div 2) = r" unfolding m_def using rounded_blocks [OF assms(12)] assms(13) by simp
  define last where "last = (ucast (disksize s div 2) :: u64) - 1"
  have "unat (ucast (disksize s div 2) :: u64) = n + 1"
    using assms(9) by (simp add: unat_ucast_up unat_div)
  then have n: "unat last = n" by (simp add: last_def unat_minus)
  have c: "count_entries 0 None (Directory s) = (2, Some 0)"
    using es assms(3,4) used_two [OF assms(1) l] by (auto simp: numeral_2_eq_2)
  have q: "qsort StartingBlockCmp [x, y] = [y, x]"
    using assms(3) by (simp add: qsort_def StartingBlockCmp_def)
  have y: "unat (StartingBlock y - 1) = first_block y - 1" "unat (StartingBlock y) = first_block y"
    using assms(5-7) by (simp_all add: first_block_def end_block_def unat_minus)
  have ye: "unat (StartingBlock y + ReservedBlocks y) = end_block y" "unat (StartingBlock x + ReservedBlocks x) = first_block y"
    using assms(6,8) unat_lt64 [of last] n unat_lt64 [of "StartingBlock y"]
    by (simp_all add: end_block_def first_block_def unat_plus)
  have d: "unat (last - (StartingBlock y + ReservedBlocks y)) = n - end_block y"
    "unat (last - (StartingBlock x + ReservedBlocks x)) = n - first_block y"
    using ye n assms(7,8) by (simp_all add: unat_minus)
  have f1: "1 \<le> first_block y" using assms(5,6) by (simp add: first_block_def end_block_def)
  have no: "\<not> m div 2 \<le> StartingBlock y - 1" "\<not> m div 2 \<le> last - (StartingBlock y + ReservedBlocks y)"
    "m div 2 \<le> last - (StartingBlock x + ReservedBlocks x)"
    unfolding word_le_nat_alt req d y(1) using f1 assms(7,8,14-16) by linarith+
  have x: "StartingBlock x + ReservedBlocks x = StartingBlock y"
    using ye(2) by (simp add: first_block_def word_unat_eq_iff)
  have g: "find_gap last (m div 2) 1 [y, x] = StartingBlock y"
    unfolding find_gap.simps Let_def using no assms(3,4)
    by (simp only: x if_False if_True simp_thms if_not_P cong: if_cong)
  have start: "StartingBlock y \<noteq> 0" using f1 by (auto simp: first_block_def)
  have p: "proper x" using assms(2) es(1) by (simp add: directory_def)
  obtain e where e: "new_entry nm (StartingBlock y) (m div 2) x = Some e" "proper e" "entry_name e = nm"
    "marker e = nm ! 0" "StartingBlock e = StartingBlock y" "ReservedBlocks e = m div 2" "FileSize e = 0"
    by (rule new_entry_fields [OF assms(10) p])
  have t: "take 2 (Directory s) = [x, y]" "Directory s ! 0 = x" using es(1) by (simp_all add: numeral_2_eq_2)
  have "\<exists>s'. bmfs_create nm maxsize s = Some s' \<and> Directory s' = (Directory s)[0 := e]"
    using assms(11) c q g start e(1) t
    by (simp add: bmfs_create_def Let_def say_def findfile_def flush_directory_def add_entry_def last_def m_def)
  moreover have b: "first_block e = first_block y" "end_block e = first_block y + r"
    using e(5,6) req by (simp_all add: first_block_def end_block_def)
  moreover have "\<not> room [y] (first_block e) (end_block e)"
    unfolding b room_def using f1 assms(7,14) by simp
  ultimately show ?thesis using e(3) by blast
qed


definition deleted_ex :: BMFSEntry where "deleted_ex = file_entry [1, 65] 1 1"
definition behind_ex :: BMFSEntry where "behind_ex = file_entry [66] 2 6"

theorem bmfs_create_takes_blocks_witness:
  "\<exists>s' e. bmfs_create [67] 8 (tool_ex [deleted_ex, behind_ex]) = Some s' \<and> Directory s' ! 0 = e \<and> Directory s' ! 1 = behind_ex \<and>
    first_block e = 2 \<and> first_block behind_ex = 2"
proof -
  let ?s = "tool_ex [deleted_ex, behind_ex]"
  have d: "Directory ?s = deleted_ex # behind_ex # zero_entry # replicate 61 zero_entry" "disksize ?s = 20"
    by (simp_all add: tool_ex_def empty_directory_Cons)
  have m: "marker deleted_ex = 1" "marker behind_ex = 66" "marker zero_entry = 0"
    by (simp_all add: deleted_ex_def behind_ex_def file_entry_def zero_entry_def marker_def)
  have u: "used_entries (Directory ?s) = [deleted_ex, behind_ex]"
    unfolding d used_entries_def by (simp add: m)
  have dir: "directory (Directory ?s)"
    unfolding d by (simp add: directory_def proper_def deleted_ex_def behind_ex_def file_entry_def zero_entry_def)
  have b: "first_block deleted_ex = 1" "end_block deleted_ex = 2" "first_block behind_ex = 2" "end_block behind_ex = 8"
    by (simp_all add: first_block_def end_block_def deleted_ex_def behind_ex_def file_entry_def)
  have f: "findfile (Some [67]) ?s = Some None"
    by (simp add: findfile_def d m) (simp add: entry_name_def entry_bytes_def c_string_def behind_ex_def file_entry_def)
  have v: "marker behind_ex \<noteq> 1" "1 \<le> first_block deleted_ex" "end_block deleted_ex = first_block behind_ex"
    "first_block behind_ex < end_block behind_ex" "end_block behind_ex \<le> 9" "9 + 1 = unat (disksize ?s) div 2"
    "good_name [67]" by (simp_all add: b m d good_name_def)
  have v2: "unat (8 :: u64) < 2 ^ 31" "4 = (unat (8 :: u64) + 1) div 2" "first_block behind_ex \<le> 4"
    "9 < end_block behind_ex + 4" "first_block behind_ex + 4 \<le> 9" by (simp_all add: b)
  from bmfs_create_takes_blocks [OF u dir m(1) v f v2]
  obtain s' e where s': "bmfs_create [67] 8 ?s = Some s'" "Directory s' = (Directory ?s)[0 := e]" "first_block e = first_block behind_ex"
    by blast
  then show ?thesis using b(3) by (auto simp: d)
qed

section \<open>The size of an image\<close>

text \<open>
  The test for overflow compares the product with the factor: a product that wraps around and is still
  larger passes, here 5 * 10^19, and the sum is not tested at all.
\<close>

lemma disk_size_wraps:
  "disk_size (ascii ''50000000000000000000'') = Inr (50000000000000000000 - 2 * 2 ^ 64)"
  "parse_size [] True 0 (ascii ''18446744073709551616'') = Inr (0, 0)"
  by (simp_all add: disk_size_def ascii_def is_digit_def minimumDiskSize_def)


end
