(* ===== verification/Spec2Isabelle.thy ===== *)
theory Spec2Isabelle
  imports Memory_Properties Semaphore_Properties C_Strings_Properties Pipe_Properties
    Scheduler_Properties Video_Properties Terminal_Properties Tron_Properties User_Properties Buddy_Properties
    Shell_Properties Phylo_Properties Boot_Properties Scheduler_Kill Kernel_Machine Bmfs_Properties
begin

text \<open>
  Verification of tron-kernel, a 64-bit kernel with its user programs and the tools that build its
  disk image.

  \<^bold>\<open>The program.\<close> The kernel (\<open>Kernel/\<close>) unpacks the user module behind its own binary, sets up a heap, an idle
  process and the interrupt table, and calls the user module, which starts a shell
  (\<open>Userland/uCodeModule/\<close>). Processes are scheduled round robin on timer ticks; they use the kernel
  through 35 system calls for the terminal, the screen, memory, processes, named semaphores and named
  pipes. There are two memory managers behind one interface, chosen when the kernel is built. The tools
  (\<open>Toolchain/\<close>, \<open>Bootloader/BMFS/\<close>) pack the binaries and lay out the disk image.

  \<^bold>\<open>The kernel's state\<close> is the record \<open>kernel\<close> of \<open>Kernel_State\<close>: a field for each static object of the C
  files, and maps from addresses to the nodes and processes in the heap, so an address that holds no
  object faults when it is followed. A kernel function gives a \<open>res\<close>: \<open>Done\<close> with a value and the next
  state, \<open>Fault\<close> (a null or dangling pointer, an array index out of range, a signed overflow), \<open>Loop\<close> (it
  never returns), or \<open>Resched\<close> with the state at the point where it gave up the processor and what it
  does with the state it finds when it is resumed. So other processes and interrupts run exactly at these
  points; a system call is not interrupted elsewhere. C integers are words of their width. C strings in
  user or kernel arrays are byte lists, and operations on them are partial where the C code would leave
  the array. User memory the kernel reads through pointers is in \<open>cells\<close> (words) and \<open>cstr\<close> (strings).

  \<^bold>\<open>Termination.\<close> Walks of linked structures that a broken list would make endless are
  \<open>partial_function (option)\<close> (\<open>walk\<close>, \<open>count_argv\<close>, the searches of the memory manager), and \<open>None\<close> becomes
  \<open>Loop\<close>; the properties show that they return on well-formed rings and heaps, and that \<open>find_next_ready\<close>
  does not when every process is blocked. Loops that give up the processor are \<open>iterate\<close>
  (\<open>Kernel_Loops\<close>) or \<open>sem_loop\<close>, both corecursive. There is no fuel.

  \<^bold>\<open>Theories.\<close>
  \<^item> \<open>Kernel_Prelude\<close>: word types, conversion of word arithmetic to numbers, list lemmas.
  \<^item> \<open>Memory_Manager\<close> (\<open>Kernel/memoryManager.c\<close>), \<open>Linked_List\<close>, \<open>Memory_Layout\<close>, \<open>Memory_Invariant\<close>, \<open>Memory_Spec\<close>,
    \<open>Memory_Refine\<close>, \<open>Memory_Provider\<close>, \<open>Memory_Properties\<close>: the first-fit manager, its heap of headers in
    two lists, and its refinement of an abstract allocator on lists of blocks.
  \<^item> \<open>Buddy\<close> (\<open>Kernel/memoryBuddy.c\<close>), \<open>Buddy_Lists\<close>, \<open>Buddy_Tiles\<close>, \<open>Buddy_Invariant\<close>, \<open>Buddy_Provider\<close>,
    \<open>Buddy_Properties\<close>: the buddy manager; free and used blocks tile the arena.
  \<^item> \<open>Allocator\<close>: the contract both managers satisfy, a locale interpreted on both models, and what its
    clients derive from it.
  \<^item> \<open>Kernel_State\<close>, \<open>Kernel_Loops\<close>: state, results, loops.
  \<^item> \<open>Scheduler_Core\<close>, \<open>Scheduler\<close> (\<open>Kernel/scheduler.c\<close>), \<open>Scheduler_Ring\<close>, \<open>Scheduler_Switch\<close>, \<open>Scheduler_Remove\<close>,
    \<open>Scheduler_Properties\<close>, \<open>Scheduler_Kill\<close>: the ring of processes, the switch, killing.
  \<^item> \<open>Semaphore\<close> (\<open>Kernel/semaphore.c\<close>), \<open>Semaphore_Laws\<close>, \<open>Semaphore_Properties\<close>.
  \<^item> \<open>Pipe\<close> (\<open>Kernel/pipe.c\<close>), \<open>Pipe_Queue\<close>, \<open>Pipe_Properties\<close>: a pipe is a queue of its unread bytes.
  \<^item> \<open>Process\<close> (\<open>Kernel/process.c\<close>, \<open>Kernel/stack.c\<close>), with \<open>sys_write\<close>.
  \<^item> \<open>Keyboard_Buffer\<close>, \<open>Keyboard\<close> (\<open>Kernel/keyboardDriver.c\<close>): the key buffer provides a locale of bounded
    queues, the interrupt handler uses it.
  \<^item> \<open>Font\<close>, \<open>Video\<close>, \<open>Video_Properties\<close> (\<open>Kernel/videoDriver.c\<close>, \<open>Kernel/include/font.h\<close>): pixels of a frame.
  \<^item> \<open>C_Strings\<close>, \<open>C_Strings_Properties\<close>, \<open>Printf\<close> (\<open>Kernel/lib.c\<close>, \<open>Userland/uCodeModule/lib.c\<close>), and the process
    listing of the scheduler.
  \<^item> \<open>Syscalls\<close> (\<open>Kernel/syscallManager.c\<close>, \<open>Kernel/timer.c\<close>), \<open>Terminal_Properties\<close>, \<open>Exceptions\<close>
    (\<open>Kernel/exceptions.c\<close>).
  \<^item> \<open>Boot\<close>, \<open>Boot_Loading\<close>, \<open>Boot_Properties\<close> (\<open>Kernel/kernel.c\<close>, \<open>Kernel/idtLoader.c\<close>, \<open>Kernel/moduleLoader.c\<close>).
  \<^item> \<open>Kernel_Keeps\<close>, \<open>Kernel_Tables\<close>, \<open>Kernel_Calls\<close>, \<open>Kernel_Machine\<close>: what every operation keeps of the kernel's
    tables, across the points where it gives up the processor, and the kernel as a state machine whose
    steps are system calls, interrupts, exceptions and resumptions (dispatch as in
    \<open>Kernel/asm/interrupts.asm\<close>).
  \<^item> \<open>User_Lib\<close>, \<open>User_Programs\<close>, \<open>User_Properties\<close> (\<open>lib.c\<close>, \<open>timer.c\<close>, \<open>wc.c\<close>, \<open>filter.c\<close>, \<open>cat.c\<close>, \<open>loop.c\<close>,
    \<open>uCodeModule.c\<close>, \<open>_loader.c\<close>), \<open>Shell\<close>, \<open>Shell_Commands\<close>, \<open>Shell_Properties\<close> (\<open>shell.c\<close>), \<open>Tron\<close>,
    \<open>Tron_Properties\<close> (\<open>tron.c\<close>), \<open>Phylo\<close>, \<open>Phylo_Properties\<close> (\<open>phylo.c\<close>).
  \<^item> \<open>Module_Packer\<close> (\<open>Toolchain/ModulePacker/main.c\<close>), and \<open>Bmfs\<close>, \<open>Bmfs_Directory\<close>, \<open>Bmfs_Image\<close>,
    \<open>Bmfs_Properties\<close> (\<open>Bootloader/BMFS/bmfs.c\<close>).

  \<^bold>\<open>What the theorems show.\<close> For the memory managers: any sequence of calls is safe, what each call does,
  and that freeing undoes allocating; the first-fit manager refines its specification. For the whole
  kernel: from the start on, no sequence of entries breaks the form of its tables, and no spin lock is
  held between them. For semaphores: a unit is never lost or taken twice. For the scheduler: round robin,
  time slices, what killing removes and what it leaves dangling. For pipes and the terminal: bytes and
  lines arrive in order, and where the code overwrites or blocks instead. For printing: a reference
  rendering; for drawing: the part on the screen. For boot and the tools: modules arrive byte for byte,
  the state the kernel starts in, the layout of the image, and its files. For the programs: the rules of
  the game, what the filters compute, neighbouring philosophers never eat together, and how the shell
  passes arguments. Several theorems state errors of the code as it is (a process that is never preempted,
  stale wake-ups, an allocation on the disk that overlaps a file): they are part of its behaviour.

  \<^bold>\<open>Assumptions.\<close> Compare and exchange are atomic, and interrupts arrive only where the model gives up the
  processor. User programs write their own memory only; the hardware would let them write anywhere.
  What the boot loader leaves in memory, the real-time clock, the entry points of programs and variables
  that are never initialised are arguments of the definitions. The C library of the tools (\<open>qsort\<close>, \<open>fopen\<close>,
  \<open>fread\<close>, \<open>atoi\<close>, argp) is modelled as its documentation says.

  \<^bold>\<open>Not modelled.\<close> The boot loader Pure64 and the assembler routines (port access, saving registers, the
  stack switch itself): they are not C, and what they do to the kernel's state is in the models of their
  callers. The test programs under \<open>Userland/uCodeModule/tests\<close>. Stacks hold the first frame of a process
  only, as what a program keeps on its stack is its own. Build files and linker scripts, except for the
  symbols the code uses.
\<close>

end
